(* ===== verification/Prelude.thy ===== *)
theory Prelude
  imports Main "HOL-Library.Sublist"
begin

text \<open>
  What every component of the model shares: undefined behaviour of C as a value of a sum
  type, its sequencing operator, the collections of rewrite rules the components add to,
  and a few facts on lists that the proofs use.
\<close>

section \<open>Undefined behaviour as a value\<close>

text \<open>
  A C function that may touch memory it does not own returns a \<open>result\<close>: \<open>Inl u\<close>
  names the undefined behaviour it runs into, \<open>Inr x\<close> is an ordinary return. The end of
  the process by the default action of \<open>SIGPIPE\<close> is the value \<open>Killed\<close>, the end by \<open>exit\<close> inside
  an allocation that failed the value \<open>Exited\<close>. A bounded
  recursion that runs out of fuel is the extra value \<open>StackExhausted\<close>, which the
  termination theorems show is never reached.
\<close>

datatype ub =
    HeapOverflow
  | OutOfBounds
  | NullDeref
  | UseAfterFree
  | InvalidFree
  | Killed
  | Exited
  | StackExhausted

type_synonym 'a result = "ub + 'a"

definition bindR :: "'a result \<Rightarrow> ('a \<Rightarrow> 'b result) \<Rightarrow> 'b result" where
  "bindR m k = (case m of Inl u \<Rightarrow> Inl u | Inr x \<Rightarrow> k x)"

named_theorems res_simps
named_theorems c_simps
named_theorems inv_intros

lemma bindR_Inl [simp, res_simps]: "bindR (Inl u) k = Inl u"
  by (simp add: bindR_def)

lemma bindR_Inr [simp, res_simps]: "bindR (Inr x) k = k x"
  by (simp add: bindR_def)

lemma bindR_assoc: "bindR (bindR m f) g = bindR m (\<lambda>x. bindR (f x) g)"
  by (simp add: bindR_def split: sum.split)

lemma bindR_eq_Inr [res_simps]:
  "bindR m k = Inr y \<longleftrightarrow> (\<exists>x. m = Inr x \<and> k x = Inr y)"
  by (cases m) auto

lemma bindR_eq_Inl [res_simps]:
  "bindR m k = Inl u \<longleftrightarrow> m = Inl u \<or> (\<exists>x. m = Inr x \<and> k x = Inl u)"
  by (cases m) auto

lemma bindR_split:
  "P (bindR m k) \<longleftrightarrow> (\<forall>u. m = Inl u \<longrightarrow> P (Inl u)) \<and> (\<forall>x. m = Inr x \<longrightarrow> P (k x))"
  by (cases m) auto

section \<open>Lists\<close>

text \<open>A string pointer where a null pointer stands for the empty text.\<close>

definition or_empty :: "string option \<Rightarrow> string" where
  "or_empty s = (case s of None \<Rightarrow> [] | Some t \<Rightarrow> t)"

lemma takeWhile_all [simp]: "\<forall>x\<in>set xs. P x \<Longrightarrow> takeWhile P xs = xs"
  by (induction xs) auto

lemma dropWhile_all: "\<forall>x\<in>set xs. P x \<Longrightarrow> dropWhile P xs = []"
  by (induction xs) auto

lemma takeWhile_append_stop:
  "\<forall>x\<in>set xs. P x \<Longrightarrow> \<not> P y \<Longrightarrow> takeWhile P (xs @ y # ys) = xs"
  by (induction xs) auto

lemma dropWhile_append_stop:
  "\<forall>x\<in>set xs. P x \<Longrightarrow> \<not> P y \<Longrightarrow> dropWhile P (xs @ y # ys) = y # ys"
  by (induction xs) auto

lemma dropWhile_stop [simp]: "xs \<noteq> [] \<Longrightarrow> \<not> P (hd xs) \<Longrightarrow> dropWhile P xs = xs"
  by (cases xs) auto

lemma take_drop_split: "take n xs @ drop n xs = xs"
  by simp

lemma list_update_take_drop:
  "n < length xs \<Longrightarrow> xs[n := x] = take n xs @ x # drop (Suc n) xs"
  by (simp add: upd_conv_take_nth_drop)

lemma filter_eq_self: "\<forall>x\<in>set xs. P x \<Longrightarrow> filter P xs = xs"
  by (induction xs) auto

end
