(* ===== verification/CLib.thy ===== *)
theory CLib
  imports Prelude "HOL-Library.Word"
begin

text \<open>
  The part of the C standard library the program calls, in the "C" locale: strings
  (\<open>string.h\<close>), character classes (\<open>ctype.h\<close>), \<open>atoi\<close> and the decimal
  conversions of \<open>printf\<close>, and \<open>fgets\<close>. A C string is the list of its bytes before the
  terminating NUL; a pointer into a string is the suffix it points at, so a difference of
  two pointers is a difference of lengths.
\<close>

section \<open>Bytes\<close>

abbreviation NUL :: char where "NUL \<equiv> CHR 0x00"
abbreviation TAB :: char where "TAB \<equiv> CHR 0x09"
abbreviation LF :: char where "LF \<equiv> CHR 0x0A"
abbreviation CR :: char where "CR \<equiv> CHR 0x0D"

definition code :: "char \<Rightarrow> nat" where
  "code c = of_char c"

definition isspace :: "char \<Rightarrow> bool" where
  "isspace c \<longleftrightarrow> c = CHR '' '' \<or> c = TAB \<or> c = LF \<or> c = CHR 0x0B \<or> c = CHR 0x0C \<or> c = CR"

definition isdigit :: "char \<Rightarrow> bool" where
  "isdigit c \<longleftrightarrow> 48 \<le> code c \<and> code c \<le> 57"

definition tolower :: "char \<Rightarrow> char" where
  "tolower c = (if 65 \<le> code c \<and> code c \<le> 90 then char_of (code c + 32) else c)"

section \<open>Strings\<close>

definition cstr :: "string \<Rightarrow> string" where
  "cstr s = takeWhile (\<lambda>c. c \<noteq> NUL) s"

definition c_string :: "string \<Rightarrow> bool" where
  "c_string s \<longleftrightarrow> NUL \<notin> set s"

fun strstr :: "string \<Rightarrow> string \<Rightarrow> string option" where
  "strstr [] n = (if n = [] then Some [] else None)"
| "strstr (c # s) n = (if prefix n (c # s) then Some (c # s) else strstr s n)"

definition strchr :: "string \<Rightarrow> char \<Rightarrow> string option" where
  "strchr s c = (case dropWhile (\<lambda>x. x \<noteq> c) s of [] \<Rightarrow> None | t \<Rightarrow> Some t)"

text \<open>\<open>strrchr\<close> with a found character: the suffix after the last occurrence.\<close>

definition after_last :: "char \<Rightarrow> string \<Rightarrow> string option" where
  "after_last c s = (if c \<in> set s then Some (rev (takeWhile (\<lambda>x. x \<noteq> c) (rev s))) else None)"

text \<open>\<open>strncmp(s, lit, strlen(lit)) == 0\<close>\<close>

definition starts_with :: "string \<Rightarrow> string \<Rightarrow> bool" where
  "starts_with lit s \<longleftrightarrow> prefix lit s"

text \<open>\<open>buffer[strcspn(buffer, "\n")] = '\0'\<close>\<close>

definition cut_newline :: "string \<Rightarrow> string" where
  "cut_newline s = takeWhile (\<lambda>c. c \<noteq> LF) s"

text \<open>What \<open>snprintf(buf, n, ...)\<close> leaves in the buffer when the full text is \<open>s\<close>.\<close>

definition snprintf_buf :: "nat \<Rightarrow> string \<Rightarrow> string" where
  "snprintf_buf n s = take (n - 1) s"

section \<open>Numbers\<close>

definition digit_val :: "char \<Rightarrow> int" where
  "digit_val c = int (code c) - 48"

fun digits_val :: "int \<Rightarrow> string \<Rightarrow> int" where
  "digits_val a [] = a"
| "digits_val a (c # s) = (if isdigit c then digits_val (10 * a + digit_val c) s else a)"

definition clamp_long :: "int \<Rightarrow> int" where
  "clamp_long x = max (- (2 ^ 63)) (min (2 ^ 63 - 1) x)"

definition to_int32 :: "int \<Rightarrow> int" where
  "to_int32 x = (x + 2 ^ 31) mod 2 ^ 32 - 2 ^ 31"

text \<open>
  \<open>atoi\<close> as the GNU C library documents and implements it: \<open>strtol\<close> to a 64-bit long,
  which saturates, converted to \<open>int\<close>.
\<close>

definition atoi :: "string \<Rightarrow> int" where
  "atoi s = (case dropWhile isspace s of
       [] \<Rightarrow> 0
     | c # r \<Rightarrow>
         if c = CHR ''-'' then to_int32 (clamp_long (- digits_val 0 r))
         else if c = CHR ''+'' then to_int32 (clamp_long (digits_val 0 r))
         else to_int32 (clamp_long (digits_val 0 (c # r))))"

definition digit_char :: "nat \<Rightarrow> char" where
  "digit_char n = char_of (48 + n)"

fun show_nat :: "nat \<Rightarrow> string" where
  "show_nat n = (if n < 10 then [digit_char n] else show_nat (n div 10) @ [digit_char (n mod 10)])"

declare show_nat.simps [simp del]

text \<open>The \<open>%d\<close> conversion.\<close>

definition show_int :: "int \<Rightarrow> string" where
  "show_int i = (if i < 0 then CHR ''-'' # show_nat (nat (- i)) else show_nat (nat i))"

section \<open>Streams\<close>

text \<open>
  A stream is the list of bytes not read yet. \<open>fgets_chars n\<close> takes at most \<open>n\<close> bytes and
  stops after a newline; \<open>fgets n\<close> is \<open>None\<close> at the end of the stream.
\<close>

fun fgets_chars :: "nat \<Rightarrow> string \<Rightarrow> string \<times> string" where
  "fgets_chars 0 s = ([], s)"
| "fgets_chars (Suc n) [] = ([], [])"
| "fgets_chars (Suc n) (c # s) =
     (if c = LF then ([c], s) else (let (l, r) = fgets_chars n s in (c # l, r)))"

definition fgets :: "nat \<Rightarrow> string \<Rightarrow> (string \<times> string) option" where
  "fgets n s = (if s = [] then None else Some (fgets_chars (n - 1) s))"

text \<open>
  \<open>sscanf(s, "%255[^:]:%255s", u, p)\<close>: the conversions that were assigned. The first takes
  one to 255 bytes other than a colon, then a colon must follow, then the second skips
  white space and takes one to 255 bytes that are not white space.
\<close>

definition sscanf_colon_pair :: "string \<Rightarrow> string list" where
  "sscanf_colon_pair s =
     (let u = take 255 (takeWhile (\<lambda>c. c \<noteq> CHR '':'') s) in
      if u = [] then []
      else (case drop (length u) s of
          [] \<Rightarrow> [u]
        | c # r \<Rightarrow>
            if c \<noteq> CHR '':'' then [u]
            else (let p = take 255 (takeWhile (\<lambda>x. \<not> isspace x) (dropWhile isspace r)) in
                  if p = [] then [u] else [u, p])))"

section \<open>Facts on bytes and strings\<close>

lemma code_less [simp]: "code c < 256"
  by (simp add: code_def)

lemma char_of_code [simp]: "char_of (code c) = c"
  by (simp add: code_def)

lemma code_char_of [simp]: "code (char_of n) = n mod 256"
  by (simp add: code_def of_char_of)

lemma code_inj [simp]: "code c = code d \<longleftrightarrow> c = d"
  by (metis char_of_code)

lemma c_string_simps [simp, c_simps]:
  "c_string []"
  "c_string (c # s) \<longleftrightarrow> c \<noteq> NUL \<and> c_string s"
  "c_string (s @ t) \<longleftrightarrow> c_string s \<and> c_string t"
  by (auto simp: c_string_def)

lemma cstr_id [simp, c_simps]: "c_string s \<Longrightarrow> cstr s = s"
  unfolding cstr_def by (rule takeWhile_all) (auto simp: c_string_def)

lemma c_string_cstr [simp]: "c_string (cstr s)"
  by (induction s) (auto simp: cstr_def)

lemma cstr_append_NUL [simp, c_simps]: "c_string s \<Longrightarrow> cstr (s @ NUL # t) = s"
  unfolding cstr_def by (rule takeWhile_append_stop) (auto simp: c_string_def)

lemma length_cstr: "length (cstr s) \<le> length s"
  by (simp add: cstr_def length_takeWhile_le)

lemma set_cstr: "set (cstr s) \<subseteq> set s"
  by (auto simp: cstr_def dest: set_takeWhileD)

lemma c_string_take [simp]: "c_string s \<Longrightarrow> c_string (take n s)"
  by (auto simp: c_string_def dest: in_set_takeD)

lemma c_string_drop [simp]: "c_string s \<Longrightarrow> c_string (drop n s)"
  by (auto simp: c_string_def dest: in_set_dropD)

section \<open>Searching\<close>

lemma strstr_SomeD: "strstr s n = Some t \<Longrightarrow> prefix n t \<and> suffix t s"
  by (induction s) (auto split: if_splits intro: suffix_ConsI)

lemma strstr_None_iff: "strstr s n = None \<longleftrightarrow> \<not> sublist n s"
  by (induction s) (auto simp: sublist_Cons_right)

lemma strstr_self_prefix: "n \<noteq> [] \<Longrightarrow> prefix n s \<Longrightarrow> strstr s n = Some s"
  by (cases s) auto

text \<open>The first occurrence is found: no earlier suffix starts with the needle.\<close>

lemma strstr_first:
  assumes "prefix n t" and "n \<noteq> []"
    and "\<And>q. suffix q p \<Longrightarrow> q \<noteq> [] \<Longrightarrow> \<not> prefix n (q @ t)"
  shows "strstr (p @ t) n = Some t"
  using assms(3)
proof (induction p)
  case Nil
  then show ?case using assms(1,2) by (simp add: strstr_self_prefix)
next
  case (Cons c p)
  have "\<not> prefix n ((c # p) @ t)"
    using Cons.prems [of "c # p"] by simp
  moreover have "strstr (p @ t) n = Some t"
    using Cons.prems by (intro Cons.IH) (auto intro: suffix_ConsI)
  ultimately show ?case by simp
qed

text \<open>A header line is found although its name may occur later, too.\<close>

lemma strstr_header:
  assumes "pre = [] \<or> last pre = LF" and "LF \<notin> set n" and "\<not> sublist n pre"
    and "prefix n t" and "n \<noteq> []"
  shows "strstr (pre @ t) n = Some t"
proof (rule strstr_first [OF assms(4,5)])
  fix q assume q: "suffix q pre" "q \<noteq> []"
  then have "last q = LF" using assms(1) by (auto simp: suffix_def)
  then have "LF \<in> set q" using q(2) last_in_set by fastforce
  show "\<not> prefix n (q @ t)"
  proof
    assume "prefix n (q @ t)"
    then have "prefix n q \<or> (\<exists>z. n = q @ z)" by (auto simp: prefix_append)
    then show False
    proof
      assume "prefix n q"
      then show False using assms(3) q(1)
        by (meson prefix_imp_sublist suffix_imp_sublist sublist_order.order_trans)
    next
      assume "\<exists>z. n = q @ z"
      then show False using \<open>LF \<in> set q\<close> assms(2) by auto
    qed
  qed
qed

lemma strstr_crlf: "CR \<notin> set l \<Longrightarrow> strstr (l @ CR # LF # r) [CR, LF] = Some (CR # LF # r)"
proof (rule strstr_first)
  fix q assume "CR \<notin> set l" "suffix q l" "q \<noteq> []"
  then show "\<not> prefix [CR, LF] (q @ CR # LF # r)" by (cases q) (auto simp: suffix_def)
qed simp_all

lemma strchr_Some_iff:
  "strchr s c = Some t \<longleftrightarrow> (\<exists>p. s = p @ t \<and> c \<notin> set p \<and> (\<exists>r. t = c # r))"
proof
  assume h: "strchr s c = Some t"
  then have t: "t = dropWhile (\<lambda>x. x \<noteq> c) s" and "t \<noteq> []"
    by (auto simp: strchr_def split: list.splits)
  then have "hd t = c" using hd_dropWhile [of "\<lambda>x. x \<noteq> c" s] by auto
  then obtain r where "t = c # r" using \<open>t \<noteq> []\<close> by (cases t) auto
  moreover have "s = takeWhile (\<lambda>x. x \<noteq> c) s @ t" using t by simp
  moreover have "c \<notin> set (takeWhile (\<lambda>x. x \<noteq> c) s)" by (auto dest: set_takeWhileD)
  ultimately show "\<exists>p. s = p @ t \<and> c \<notin> set p \<and> (\<exists>r. t = c # r)" by blast
next
  assume "\<exists>p. s = p @ t \<and> c \<notin> set p \<and> (\<exists>r. t = c # r)"
  then obtain p r where "s = p @ c # r" "c \<notin> set p" "t = c # r" by auto
  moreover from this have "dropWhile (\<lambda>x. x \<noteq> c) (p @ c # r) = c # r"
    by (intro dropWhile_append_stop) auto
  ultimately show "strchr s c = Some t" by (simp add: strchr_def)
qed

lemma strchr_found [simp, c_simps]: "c \<notin> set p \<Longrightarrow> strchr (p @ c # r) c = Some (c # r)"
  by (auto simp: strchr_Some_iff)

lemma strchr_None_iff [c_simps]: "strchr s c = None \<longleftrightarrow> c \<notin> set s"
proof -
  have "strchr s c = None \<longleftrightarrow> dropWhile (\<lambda>x. x \<noteq> c) s = []"
    by (simp add: strchr_def split: list.split del: dropWhile_eq_Nil_conv)
  also have "\<dots> \<longleftrightarrow> c \<notin> set s" by (auto simp: dropWhile_eq_Nil_conv)
  finally show ?thesis .
qed

lemma strchr_SomeE:
  assumes "strchr s c = Some t"
  obtains p r where "s = p @ c # r" and "t = c # r" and "c \<notin> set p"
  using assms by (auto simp: strchr_Some_iff)

lemma set_cut_newline: "set (cut_newline s) \<subseteq> set s - {LF}"
  by (auto simp: cut_newline_def dest: set_takeWhileD)

section \<open>Decimal numbers\<close>

lemma code_digit_char [simp]: "n < 10 \<Longrightarrow> code (digit_char n) = 48 + n"
  by (simp add: digit_char_def)

lemma digit_char_simps [c_simps]:
  "digit_char 0 = CHR ''0''" "digit_char (Suc 0) = CHR ''1''" "digit_char 2 = CHR ''2''"
  "digit_char 3 = CHR ''3''" "digit_char 4 = CHR ''4''" "digit_char 5 = CHR ''5''"
  "digit_char 6 = CHR ''6''" "digit_char 7 = CHR ''7''" "digit_char 8 = CHR ''8''"
  "digit_char 9 = CHR ''9''"
  by (simp_all add: digit_char_def char_of_def bit_Suc_0_iff)

lemma isdigit_digit_char [simp]: "n < 10 \<Longrightarrow> isdigit (digit_char n)"
  by (simp add: isdigit_def)

lemma digit_val_digit_char [simp]: "n < 10 \<Longrightarrow> digit_val (digit_char n) = int n"
  by (simp add: digit_val_def)

lemma isdigit_not_space: "isdigit c \<Longrightarrow> \<not> isspace c"
  by (auto simp: isdigit_def isspace_def code_def)

lemma isdigit_not: "isdigit c \<Longrightarrow> c \<noteq> CHR ''-'' \<and> c \<noteq> CHR ''+'' \<and> c \<noteq> CHR ''='' \<and> c \<noteq> CHR ''#'' \<and> c \<noteq> NUL"
  by (auto simp: isdigit_def code_def)

lemma show_nat_digits: "\<forall>c\<in>set (show_nat n). isdigit c"
proof (induction n rule: show_nat.induct)
  case (1 n)
  then show ?case by (subst show_nat.simps) auto
qed

lemma show_nat_nonempty [simp]: "show_nat n \<noteq> []"
  by (subst show_nat.simps) simp

lemma digits_val_append:
  "\<forall>c\<in>set s. isdigit c \<Longrightarrow> digits_val a (s @ t) = digits_val (digits_val a s) t"
  by (induction s arbitrary: a) auto

lemma digits_val_show_nat: "digits_val 0 (show_nat n) = int n"
proof (induction n rule: show_nat.induct)
  case (1 n)
  show ?case
  proof (cases "n < 10")
    case True
    then show ?thesis by (subst show_nat.simps) simp
  next
    case False
    then have "digits_val 0 (show_nat n) = digits_val (int (n div 10)) [digit_char (n mod 10)]"
      using "1" by (subst show_nat.simps) (simp add: digits_val_append show_nat_digits)
    also have "\<dots> = 10 * int (n div 10) + int (n mod 10)" by simp
    also have "\<dots> = int n" by presburger
    finally show ?thesis .
  qed
qed

lemma to_int32_id: "- (2 ^ 31) \<le> x \<Longrightarrow> x < 2 ^ 31 \<Longrightarrow> to_int32 x = x"
  by (simp add: to_int32_def)

lemma clamp_long_id: "- (2 ^ 63) \<le> x \<Longrightarrow> x < 2 ^ 63 \<Longrightarrow> clamp_long x = x"
  by (simp add: clamp_long_def)

lemma atoi_show_nat: "int n < 2 ^ 31 \<Longrightarrow> atoi (show_nat n) = int n"
proof -
  assume n: "int n < 2 ^ 31"
  obtain c r where cr: "show_nat n = c # r" by (cases "show_nat n") auto
  then have d: "isdigit c" using show_nat_digits [of n] by simp
  with cr have "dropWhile isspace (show_nat n) = c # r"
    by (simp add: isdigit_not_space)
  then have "atoi (show_nat n) = to_int32 (clamp_long (int n))"
    using d digits_val_show_nat [of n] isdigit_not [OF d] by (simp add: atoi_def cr)
  with n show ?thesis by (simp add: to_int32_id clamp_long_id)
qed

lemma atoi_show_int: "- (2 ^ 31) \<le> i \<Longrightarrow> i < 2 ^ 31 \<Longrightarrow> atoi (show_int i) = i"
proof (cases "i < 0")
  case True
  moreover assume "- (2 ^ 31) \<le> i"
  ultimately show ?thesis
    by (simp add: show_int_def atoi_def isspace_def digits_val_show_nat to_int32_id clamp_long_id)
next
  case False
  moreover assume "i < 2 ^ 31"
  ultimately show ?thesis using atoi_show_nat [of "nat i"] by (simp add: show_int_def)
qed

lemma atoi_bounds: "- (2 ^ 31) \<le> atoi s \<and> atoi s < 2 ^ 31"
proof -
  have "- (2 ^ 31) \<le> to_int32 x \<and> to_int32 x < 2 ^ 31" for x
    using pos_mod_bound [of "2 ^ 32 :: int" "x + 2 ^ 31"]
      pos_mod_sign [of "2 ^ 32 :: int" "x + 2 ^ 31"] by (simp add: to_int32_def)
  then show ?thesis by (simp add: atoi_def split: list.split)
qed

lemma show_int_chars: "c \<in> set (show_int i) \<Longrightarrow> isdigit c \<or> c = CHR ''-''"
  using show_nat_digits by (auto simp: show_int_def split: if_splits)

section \<open>Streams\<close>

lemma fgets_chars_append: "fgets_chars n s = (l, r) \<Longrightarrow> l @ r = s"
  by (induction n s arbitrary: l r rule: fgets_chars.induct) (auto split: if_splits prod.splits)

lemma fgets_chars_length: "fgets_chars n s = (l, r) \<Longrightarrow> length l \<le> n"
  by (induction n s arbitrary: l r rule: fgets_chars.induct) (auto split: if_splits prod.splits)

lemma fgets_shorter: "1 < n \<Longrightarrow> fgets n s = Some (l, r) \<Longrightarrow> length r < length s"
proof -
  assume n: "1 < n" and f: "fgets n s = Some (l, r)"
  then obtain m c s' where m: "n - 1 = Suc m" and s: "s = c # s'"
    by (cases "n - 1"; cases s) (auto simp: fgets_def)
  from f have e: "fgets_chars (Suc m) (c # s') = (l, r)" by (simp only: fgets_def s m) simp
  then have "l \<noteq> []" by (auto split: if_splits prod.splits)
  moreover have "l @ r = s" using fgets_chars_append [OF e] s by simp
  ultimately show ?thesis by auto
qed

text \<open>A line that fits is read whole, with its newline.\<close>

lemma fgets_chars_line:
  "LF \<notin> set l \<Longrightarrow> length l < n \<Longrightarrow> fgets_chars n (l @ LF # r) = (l @ [LF], r)"
proof (induction l arbitrary: n)
  case Nil
  then show ?case by (cases n) auto
next
  case (Cons c l)
  then show ?case by (cases n) auto
qed

lemma fgets_line [c_simps]:
  "LF \<notin> set l \<Longrightarrow> Suc (length l) < n \<Longrightarrow> fgets n (l @ LF # r) = Some (l @ [LF], r)"
  by (simp add: fgets_def fgets_chars_line less_diff_conv)

section \<open>Allocation\<close>

text \<open>
  The outcomes of the coming calls of \<open>malloc\<close>, \<open>calloc\<close> and \<open>strdup\<close>: \<open>False\<close> is a
  failure, and beyond the end of the list every call succeeds.
\<close>

type_synonym mem = "bool list"

definition malloc_ok :: "mem \<Rightarrow> bool \<times> mem" where
  "malloc_ok m = (case m of [] \<Rightarrow> (True, []) | b # m' \<Rightarrow> (b, m'))"

lemma malloc_ok_Nil [simp]: "malloc_ok [] = (True, [])"
  by (simp add: malloc_ok_def)

end
