(* ===== verification/Base64.thy ===== *)
theory Base64
  imports CLib
begin

text \<open>
  \<open>base64_encode\<close> and \<open>base64_decode\<close> of \<open>src/core/util.c\<close>, at the width of the C
  variables: a 32-bit accumulator, 8-bit table entries. The decoder writes into a block of
  \<open>decoded_len + 1\<close> bytes, and a write beyond it is \<open>HeapOverflow\<close>. \<open>rfc4648\<close> is the
  standard's encoder, the specification both are compared with.
\<close>

unbundle bit_operations_syntax

section \<open>The encoder\<close>

definition b64_table :: string where
  "b64_table = ''ABCDEFGHIJKLMNOPQRSTUVWXYZabcdefghijklmnopqrstuvwxyz0123456789+/''"

text \<open>\<open>i < len ? input[i++] : 0\<close>\<close>

definition next_octet :: "string \<Rightarrow> nat \<Rightarrow> 32 word \<times> nat" where
  "next_octet input i =
     (if i < length input then (of_nat (code (input ! i)), i + 1) else (0, i))"

definition b64_char :: "32 word \<Rightarrow> nat \<Rightarrow> char" where
  "b64_char triple sh = b64_table ! unat (drop_bit sh triple AND 0x3F)"

function b64_encode_loop :: "string \<Rightarrow> nat \<Rightarrow> string \<Rightarrow> string" where
  "b64_encode_loop input i output =
     (if i < length input then
        (let len = length input;
             (octet_a, i1) = next_octet input i;
             (octet_b, i2) = next_octet input i1;
             (octet_c, i3) = next_octet input i2;
             triple = (push_bit 16 octet_a OR push_bit 8 octet_b) OR octet_c
         in b64_encode_loop input i3
              (output @ [b64_char triple 18, b64_char triple 12,
                 if i3 > len + 1 then CHR ''='' else b64_char triple 6,
                 if i3 > len then CHR ''='' else b64_char triple 0]))
      else output)"
  by pat_completeness auto
termination
  by (relation "measure (\<lambda>(input, i, output). length input - i)")
     (auto simp: next_octet_def split: if_splits)

declare b64_encode_loop.simps [simp del]

definition base64_encode :: "string \<Rightarrow> mem \<Rightarrow> string option \<times> mem" where
  "base64_encode input m =
     (let (ok, m') = malloc_ok m in
      if \<not> ok then (None, m') else (Some (b64_encode_loop input 0 []), m'))"

section \<open>The decoder\<close>

definition base64_dtable :: "char \<Rightarrow> 8 word" where
  "base64_dtable c = (case map_of
    [(CHR ''A'', 0), (CHR ''B'', 1), (CHR ''C'', 2), (CHR ''D'', 3), (CHR ''E'', 4), (CHR
     ''F'', 5), (CHR ''G'', 6), (CHR ''H'', 7), (CHR ''I'', 8), (CHR ''J'', 9), (CHR
     ''K'', 10), (CHR ''L'', 11), (CHR ''M'', 12), (CHR ''N'', 13), (CHR ''O'', 14), (CHR
     ''P'', 15), (CHR ''Q'', 16), (CHR ''R'', 17), (CHR ''S'', 18), (CHR ''T'', 19), (CHR
     ''U'', 20), (CHR ''V'', 21), (CHR ''W'', 22), (CHR ''X'', 23), (CHR ''Y'', 24), (CHR
     ''Z'', 25), (CHR ''a'', 26), (CHR ''b'', 27), (CHR ''c'', 28), (CHR ''d'', 29), (CHR
     ''e'', 30), (CHR ''f'', 31), (CHR ''g'', 32), (CHR ''h'', 33), (CHR ''i'', 34), (CHR
     ''j'', 35), (CHR ''k'', 36), (CHR ''l'', 37), (CHR ''m'', 38), (CHR ''n'', 39), (CHR
     ''o'', 40), (CHR ''p'', 41), (CHR ''q'', 42), (CHR ''r'', 43), (CHR ''s'', 44), (CHR
     ''t'', 45), (CHR ''u'', 46), (CHR ''v'', 47), (CHR ''w'', 48), (CHR ''x'', 49), (CHR
     ''y'', 50), (CHR ''z'', 51), (CHR ''0'', 52), (CHR ''1'', 53), (CHR ''2'', 54), (CHR
     ''3'', 55), (CHR ''4'', 56), (CHR ''5'', 57), (CHR ''6'', 58), (CHR ''7'', 59), (CHR
     ''8'', 60), (CHR ''9'', 61), (CHR ''+'', 62), (CHR ''/'', 63), (CHR ''='', 0)] c of
      None \<Rightarrow> 0x80 | Some v \<Rightarrow> v)"

text \<open>
  The loop over the input. \<open>cap\<close> is the size of the block, \<open>decoded\<close> the bytes written so
  far, so the next write is at index \<open>length decoded\<close>.
\<close>

fun b64_decode_loop :: "nat \<Rightarrow> string \<Rightarrow> 32 word \<Rightarrow> nat \<Rightarrow> string \<Rightarrow> string option result" where
  "b64_decode_loop cap [] accumulator bits_collected decoded = Inr (Some decoded)"
| "b64_decode_loop cap (c # cs) accumulator bits_collected decoded =
     (let val = base64_dtable c in
      if val AND 0x80 \<noteq> 0 then Inr None
      else
        (let accumulator = push_bit 6 accumulator OR ucast val;
             bits_collected = bits_collected + 6
         in if bits_collected \<ge> 8 then
              (let bits_collected = bits_collected - 8;
                   b = char_of (unat (drop_bit bits_collected accumulator AND 0xFF))
               in if length decoded < cap
                  then b64_decode_loop cap cs accumulator bits_collected (decoded @ [b])
                  else Inl HeapOverflow)
            else b64_decode_loop cap cs accumulator bits_collected decoded))"

definition b64_padding :: "string \<Rightarrow> nat" where
  "b64_padding input =
     (let len = length input in
      if len \<ge> 2 then
        (if input ! (len - 1) = CHR ''='' then 1 else 0) +
        (if input ! (len - 2) = CHR ''='' then 1 else 0)
      else 0)"

definition b64_decoded_len :: "string \<Rightarrow> nat" where
  "b64_decoded_len input = (length input div 4) * 3 - b64_padding input"

definition base64_decode :: "string \<Rightarrow> mem \<Rightarrow> (string option \<times> mem) result" where
  "base64_decode input m =
     (if length input mod 4 \<noteq> 0 then Inr (None, m)
      else
        (let decoded_len = b64_decoded_len input;
             (ok, m') = malloc_ok m
         in if \<not> ok then Inr (None, m')
            else bindR (b64_decode_loop (decoded_len + 1) input 0 0 [])
                   (\<lambda>r. Inr (map_option (take decoded_len) r, m'))))"

section \<open>The standard's encoding\<close>

definition sextet :: "nat \<Rightarrow> char" where
  "sextet n = b64_table ! n"

fun rfc4648 :: "string \<Rightarrow> string" where
  "rfc4648 [] = []"
| "rfc4648 [a] =
     [sextet (code a div 4), sextet (code a mod 4 * 16), CHR ''='', CHR ''='']"
| "rfc4648 [a, b] =
     [sextet (code a div 4), sextet (code a mod 4 * 16 + code b div 16),
      sextet (code b mod 16 * 4), CHR ''='']"
| "rfc4648 (a # b # c # s) =
     [sextet (code a div 4), sextet (code a mod 4 * 16 + code b div 16),
      sextet (code b mod 16 * 4 + code c div 64), sextet (code c mod 64)] @ rfc4648 s"


section \<open>The tables\<close>

lemma dtable_table_list:
  "map base64_dtable b64_table = map of_nat [0..<64]"
  by code_simp

lemma length_b64_table [simp]: "length b64_table = 64"
  by (simp add: b64_table_def)

lemma dtable_table: "n < 64 \<Longrightarrow> base64_dtable (b64_table ! n) = of_nat n"
proof -
  assume n: "n < 64"
  have "map base64_dtable b64_table ! n = map of_nat [0..<64] ! n"
    by (simp only: dtable_table_list)
  with n show ?thesis by simp
qed

lemma dtable_sextet [simp]: "n < 64 \<Longrightarrow> base64_dtable (sextet n) = of_nat n"
  by (simp add: sextet_def dtable_table)

lemma dtable_pad [simp]: "base64_dtable (CHR ''='') = 0"
  by (simp add: base64_dtable_def)

section \<open>One step of the decoder in arithmetic\<close>

lemma take_bit_small: "unat (val :: 8 word) < 64 \<Longrightarrow> take_bit 6 val = val"
  by (simp add: unsigned_take_bit_eq take_bit_nat_eq_self word_eq_iff_unsigned [where 'a = nat])

lemma acc_step:
  fixes acc :: "32 word" and val :: "8 word"
  assumes "unat val < 64"
  shows "unat (push_bit 6 acc OR ucast val) = (64 * unat acc + unat val) mod 2 ^ 32"
proof -
  have "push_bit 6 acc OR ucast (take_bit 6 val) = push_bit 6 acc + ucast (take_bit 6 val)"
    by (rule disjunctive_add [symmetric]) (auto simp: bit_simps)
  moreover have "unat (ucast val :: 32 word) = unat val"
    using assms by (simp add: unsigned_ucast_eq take_bit_nat_eq_self)
  ultimately show ?thesis
    by (simp add: take_bit_small [OF assms] push_bit_eq_mult unat_word_ariths mult.commute mod_simps)
qed

lemma emit_byte:
  fixes acc :: "32 word"
  assumes "unat acc = X mod 2 ^ 32" and "k \<le> 24"
  shows "unat (drop_bit k acc AND 0xFF) = X div 2 ^ k mod 256"
proof -
  have "unat (drop_bit k acc AND mask 8) = take_bit 8 (drop_bit k (take_bit 32 X))"
    using assms(1) by (simp only: unsigned_take_bit_eq unat_drop_bit_eq flip: take_bit_eq_mask)
      (simp add: take_bit_eq_mod)
  also have "\<dots> = take_bit 8 (drop_bit k X)"
    using assms(2) by (simp add: drop_bit_take_bit)
  finally show ?thesis by (simp add: mask_eq_exp_minus_1 take_bit_eq_mod drop_bit_eq_div)
qed

lemma valid_sextet: "unat (val :: 8 word) < 64 \<Longrightarrow> val AND 0x80 = 0"
proof -
  assume "unat val < 64"
  moreover have "take_bit 6 val AND push_bit 7 w = 0" for w
    by (rule bit_word_eqI) (auto simp: bit_simps)
  from this [of 1] have "take_bit 6 val AND 0x80 = 0" by simp
  ultimately show ?thesis by (simp add: take_bit_small)
qed

lemma shifted_sum:
  fixes X w a b :: nat
  assumes "0 < b"
  shows "(b * (256 * X + a) + w) div b mod 256 = (a + w div b) mod 256"
proof -
  have "(b * (256 * X + a) + w) div b = 256 * X + (a + w div b)"
    using assms by simp
  then show ?thesis by (simp add: mod_simps)
qed

lemma emit_first:
  fixes X :: nat
  assumes "v < 64" and "w < 64"
  shows "(64 * (64 * X + v) + w) div 2 ^ 4 mod 256 = 4 * v + w div 16"
proof -
  have "(64 * (64 * X + v) + w) div 16 mod 256 = (4 * v + w div 16) mod 256"
    using shifted_sum [of 16 X "4 * v" w] by (simp add: algebra_simps)
  with assms show ?thesis by simp
qed

lemma emit_second:
  fixes X :: nat
  assumes "v < 64" and "w < 64"
  shows "(64 * (64 * X + v) + w) div 2 ^ 2 mod 256 = v mod 16 * 16 + w div 4"
proof -
  have "64 * (64 * X + (16 * q + r)) + w = 4 * (256 * (4 * X + q) + r * 16) + w" for q r
    by simp
  from this [of "v div 16" "v mod 16"]
  have "64 * (64 * X + v) + w = 4 * (256 * (4 * X + v div 16) + v mod 16 * 16) + w"
    by (simp only: mult_div_mod_eq)
  then have "(64 * (64 * X + v) + w) div 4 mod 256 = (v mod 16 * 16 + w div 4) mod 256"
    by (simp only: shifted_sum zero_less_numeral)
  with assms show ?thesis by simp
qed

lemma emit_third:
  fixes X :: nat
  assumes "v < 64" and "w < 64"
  shows "(64 * (64 * X + v) + w) div 2 ^ 0 mod 256 = v mod 4 * 64 + w"
proof -
  have "64 * (64 * X + (4 * q + r)) + w = 1 * (256 * (16 * X + q) + r * 64) + w" for q r
    by simp
  from this [of "v div 4" "v mod 4"]
  have "64 * (64 * X + v) + w = 1 * (256 * (16 * X + v div 4) + v mod 4 * 64) + w"
    by (simp only: mult_div_mod_eq)
  then have "(64 * (64 * X + v) + w) div 1 mod 256 = (v mod 4 * 64 + w) mod 256"
    by (simp only: shifted_sum zero_less_one) simp
  with assms show ?thesis by simp
qed

lemma mod_shift: "(64 * (x mod M) + v) mod M = (64 * x + v) mod (M :: nat)"
  by (metis mod_add_left_eq mod_mult_right_eq)

text \<open>Four characters of the alphabet become three bytes, whatever the accumulator holds.\<close>

definition byte :: "nat \<Rightarrow> char" where
  "byte n = char_of n"

lemma decode_group:
  assumes "unat (base64_dtable c0) = v0" "unat (base64_dtable c1) = v1"
    "unat (base64_dtable c2) = v2" "unat (base64_dtable c3) = v3"
    and "v0 < 64" "v1 < 64" "v2 < 64" "v3 < 64"
  shows "\<exists>acc'. b64_decode_loop cap (c0 # c1 # c2 # c3 # cs) acc 0 out =
    (if length out + 3 \<le> cap
     then b64_decode_loop cap cs acc' 0
       (out @ [byte (4 * v0 + v1 div 16), byte (v1 mod 16 * 16 + v2 div 4), byte (v2 mod 4 * 64 + v3)])
     else Inl HeapOverflow)"
proof -
  define A1 where "A1 = push_bit 6 acc OR ucast (base64_dtable c0)"
  define A2 where "A2 = push_bit 6 A1 OR ucast (base64_dtable c1)"
  define A3 where "A3 = push_bit 6 A2 OR ucast (base64_dtable c2)"
  define A4 where "A4 = push_bit 6 A3 OR ucast (base64_dtable c3)"
  let ?X = "unat acc"
  have 1: "unat A1 = (64 * ?X + v0) mod 2 ^ 32"
    unfolding A1_def using assms by (subst acc_step) simp_all
  have 2: "unat A2 = (64 * (64 * ?X + v0) + v1) mod 2 ^ 32"
    unfolding A2_def using assms by (subst acc_step) (simp_all only: 1 mod_shift)
  have 3: "unat A3 = (64 * (64 * (64 * ?X + v0) + v1) + v2) mod 2 ^ 32"
    unfolding A3_def using assms by (subst acc_step) (simp_all only: 2 mod_shift)
  have 4: "unat A4 = (64 * (64 * (64 * (64 * ?X + v0) + v1) + v2) + v3) mod 2 ^ 32"
    unfolding A4_def using assms by (subst acc_step) (simp_all only: 3 mod_shift)
  have "unat (drop_bit 4 A2 AND 0xFF) = 4 * v0 + v1 div 16"
    using emit_byte [OF 2, of 4] emit_first assms by simp
  moreover have "unat (drop_bit 2 A3 AND 0xFF) = v1 mod 16 * 16 + v2 div 4"
    using emit_byte [OF 3, of 2] emit_second [of v1 v2 "64 * ?X + v0"] assms by simp
  moreover have "unat (A4 AND 0xFF) = v2 mod 4 * 64 + v3"
    using emit_byte [OF 4, of 0] emit_third [of v2 v3 "64 * (64 * ?X + v0) + v1"] assms by simp
  ultimately have "b64_decode_loop cap (c0 # c1 # c2 # c3 # cs) acc 0 out =
    (if length out + 3 \<le> cap
     then b64_decode_loop cap cs A4 0
       (out @ [byte (4 * v0 + v1 div 16), byte (v1 mod 16 * 16 + v2 div 4), byte (v2 mod 4 * 64 + v3)])
     else Inl HeapOverflow)"
    using assms by (simp add: Let_def valid_sextet byte_def
        flip: A1_def A2_def A3_def A4_def)
  then show ?thesis by blast
qed

section \<open>Decoding the standard's encoding\<close>

definition missing :: "string \<Rightarrow> nat" where
  "missing bs = (3 - length bs mod 3) mod 3"

lemma missing_simps [simp]:
  "missing [] = 0" "missing [a] = 2" "missing [a, b] = 1"
  "missing (a # b # c # s) = missing s"
  by (simp_all add: missing_def)

lemma code_div_bounds: "code c div 4 < 64" "code c div 16 < 16" "code c div 64 < 4"
  using code_less [of c] by (simp_all add: less_mult_imp_div_less)

lemma mixed_bounds: "(x :: nat) < 4 \<Longrightarrow> y < 16 \<Longrightarrow> x * 16 + y < 64"
  "(x :: nat) < 16 \<Longrightarrow> y < 4 \<Longrightarrow> x * 4 + y < 64"
  by simp_all

lemma sextet_bounds [simp]:
  "code a div 4 < 64" "code a mod 4 * 16 + code b div 16 < 64" "code a mod 4 * 16 < 64"
  "code b mod 16 * 4 + code c div 64 < 64" "code b mod 16 * 4 < 64" "code c mod 64 < 64"
  using mixed_bounds [of "code a mod 4" 0] mixed_bounds [of "code b mod 16" 0]
  by (simp_all add: code_div_bounds mixed_bounds)

lemma unat_sextet [simp]: "n < 64 \<Longrightarrow> unat (base64_dtable (sextet n)) = n"
  by (simp add: unsigned_of_nat take_bit_nat_eq_self)

lemma byte_code [simp]: "byte (code c) = c"
  by (simp add: byte_def)

lemma byte_zero [simp]: "byte 0 = NUL"
  by (simp add: byte_def char_of_def)

lemma code_div_small [simp]:
  "code c div 16 div 16 = 0" "code c div 64 div 4 = 0"
  "code c div 16 mod 16 = code c div 16" "code c div 64 mod 4 = code c div 64"
  using code_less [of c] code_div_bounds [of c] by (simp_all flip: div_mult2_eq)

declare b64_decode_loop.simps(2) [simp del]

lemma decode_loop_rfc4648:
  "b64_decode_loop cap (rfc4648 bs) acc 0 out =
     (if length out + length bs + missing bs \<le> cap \<or> bs = []
      then Inr (Some (out @ bs @ replicate (missing bs) NUL)) else Inl HeapOverflow)"
proof (induction bs arbitrary: acc out rule: rfc4648.induct)
  case 1
  then show ?case by simp
next
  case (2 a)
  show ?case
    using decode_group [OF unat_sextet unat_sextet _ _ sextet_bounds(1) sextet_bounds(3),
      of a a "CHR ''=''" 0 "CHR ''=''" 0 cap "[]" acc out]
    by (auto simp: numeral_2_eq_2)
next
  case (3 a b)
  show ?case
    using decode_group [OF unat_sextet unat_sextet unat_sextet _
        sextet_bounds(1) sextet_bounds(2) sextet_bounds(5),
      of a a b b "CHR ''=''" 0 cap "[]" acc out]
    by auto
next
  case (4 a b c s)
  show ?case
    using decode_group [OF unat_sextet unat_sextet unat_sextet unat_sextet
        sextet_bounds(1) sextet_bounds(2) sextet_bounds(4) sextet_bounds(6),
      of a a b b c c cap "rfc4648 s" acc out]
    by (cases "length out + 3 \<le> cap") (auto simp: "4.IH")
qed

section \<open>The encoder against the standard\<close>

lemma unat_triple:
  fixes a b c :: "8 word"
  shows "unat ((push_bit 16 (ucast a) OR push_bit 8 (ucast b)) OR ucast c :: 32 word)
    = 65536 * unat a + 256 * unat b + unat c"
proof -
  have "push_bit 16 (ucast a) OR push_bit 8 (ucast b) = push_bit 16 (ucast a) + (push_bit 8 (ucast b) :: 32 word)"
    by (rule disjunctive_add [symmetric]) (auto simp: bit_simps dest: bit_imp_le_length)
  moreover have "(push_bit 16 (ucast a) OR push_bit 8 (ucast b)) OR ucast c
      = (push_bit 16 (ucast a) OR push_bit 8 (ucast b)) + (ucast c :: 32 word)"
    by (rule disjunctive_add [symmetric]) (auto simp: bit_simps dest: bit_imp_le_length)
  moreover have "unat a < 256" "unat b < 256" "unat c < 256"
    using unsigned_less [of a] unsigned_less [of b] unsigned_less [of c] by simp_all
  ultimately show ?thesis
    by (simp add: push_bit_eq_mult unat_word_ariths unsigned_ucast_eq take_bit_nat_eq_self mod_simps)
qed

lemma b64_char_div: "b64_char t sh = sextet (unat t div 2 ^ sh mod 64)"
proof -
  have "unat (drop_bit sh t AND mask 6) = unat t div 2 ^ sh mod 64"
    by (simp only: unsigned_take_bit_eq unat_drop_bit_eq flip: take_bit_eq_mask)
      (simp add: take_bit_eq_mod drop_bit_eq_div)
  then show ?thesis by (simp add: b64_char_def sextet_def mask_eq_exp_minus_1)
qed

text \<open>The three bytes of a group as a number, and its four sextets.\<close>

lemma group_div:
  fixes a b c :: nat
  assumes "b < 256" "c < 256"
  shows "(65536 * a + 256 * b + c) div 2 ^ 18 = a div 4"
    and "(65536 * a + 256 * b + c) div 2 ^ 12 mod 64 = (a mod 4 * 16 + b div 16) mod 64"
    and "(65536 * a + 256 * b + c) div 2 ^ 6 mod 64 = (b mod 16 * 4 + c div 64) mod 64"
    and "(65536 * a + 256 * b + c) mod 64 = c mod 64"
proof -
  obtain q r where a: "a = 4 * q + r" "r < 4" "a div 4 = q" "a mod 4 = r"
    using mult_div_mod_eq [of 4 a] by (metis mod_less_divisor zero_less_numeral)
  obtain s u where b: "b = 16 * s + u" "u < 16" "b div 16 = s" "b mod 16 = u"
    using mult_div_mod_eq [of 16 b] by (metis mod_less_divisor zero_less_numeral)
  obtain x y where c: "c = 64 * x + y" "y < 64" "c div 64 = x" "c mod 64 = y"
    using mult_div_mod_eq [of 64 c] by (metis mod_less_divisor zero_less_numeral)
  show "(65536 * a + 256 * b + c) div 2 ^ 18 = a div 4"
    using a assms by (intro div_nat_eqI) auto
  have "(65536 * a + 256 * b + c) div 2 ^ 12 = 64 * q + (r * 16 + s)"
    using a b assms by (intro div_nat_eqI) auto
  then show "(65536 * a + 256 * b + c) div 2 ^ 12 mod 64 = (a mod 4 * 16 + b div 16) mod 64"
    by (simp only: a(4) b(3) mod_mult_self4)
  have "(65536 * a + 256 * b + c) div 2 ^ 6 = 64 * (16 * a + s) + (u * 4 + x)"
    using b c by (intro div_nat_eqI) auto
  then show "(65536 * a + 256 * b + c) div 2 ^ 6 mod 64 = (b mod 16 * 4 + c div 64) mod 64"
    by (simp only: b(4) c(3) mod_mult_self4)
  have "65536 * a + 256 * b + c = c + 64 * (1024 * a + 4 * b)" by simp
  then show "(65536 * a + 256 * b + c) mod 64 = c mod 64" by (simp only: mod_mult_self2)
qed

lemma encode_group:
  assumes "x = of_nat (code a)" "y = of_nat (code b)" "z = of_nat (code c)"
    and "t = (push_bit 16 x OR push_bit 8 y) OR z"
  shows "[b64_char t 18, b64_char t 12, b64_char t 6, b64_char t 0] =
    [sextet (code a div 4), sextet (code a mod 4 * 16 + code b div 16),
     sextet (code b mod 16 * 4 + code c div 64), sextet (code c mod 64)]"
proof -
  have u: "(of_nat (code d) :: 32 word) = ucast (of_nat (code d) :: 8 word)" for d
    by (simp add: word_eq_iff_unsigned [where 'a = nat] unsigned_ucast_eq unsigned_of_nat
        take_bit_nat_eq_self code_less [THEN less_trans])
  have "unat t = 65536 * code a + 256 * code b + code c"
    unfolding assms u unat_triple
    by (simp add: unsigned_of_nat take_bit_nat_eq_self)
  then have
    "unat t div 2 ^ 18 mod 64 = code a div 4"
    "unat t div 2 ^ 12 mod 64 = code a mod 4 * 16 + code b div 16"
    "unat t div 2 ^ 6 mod 64 = code b mod 16 * 4 + code c div 64"
    "unat t div 2 ^ 0 mod 64 = code c mod 64"
    by (simp_all only: group_div code_less sextet_bounds mod_less power_0 div_by_1)
  then show ?thesis by (simp only: b64_char_div)
qed

lemma code_NUL [simp]: "code NUL = 0"
  by (simp add: code_def)

lemmas encode_quad = encode_group [OF refl refl refl refl]

lemma b64_encode_loop_pad:
  "b64_encode_loop (pre @ bs) (length pre) out = out @ rfc4648 (bs @ replicate (missing bs) NUL)"
proof (induction bs arbitrary: pre out rule: rfc4648.induct)
  case 1
  then show ?case by (subst b64_encode_loop.simps) simp
next
  case (2 a)
  show ?case
    using encode_quad [of a NUL NUL]
    by (subst b64_encode_loop.simps)
       (simp add: next_octet_def nth_append b64_encode_loop.simps numeral_2_eq_2 Let_def)
next
  case (3 a b)
  show ?case
    using encode_quad [of a b NUL]
    by (subst b64_encode_loop.simps)
       (simp add: next_octet_def nth_append b64_encode_loop.simps Let_def)
next
  case (4 a b c s)
  show ?case
    using encode_quad [of a b c] "4.IH" [of "pre @ [a, b, c]"]
    by (subst b64_encode_loop.simps)
       (simp add: next_octet_def nth_append numeral_3_eq_3 numeral_2_eq_2 Let_def)
qed

section \<open>Every input\<close>

definition b64_valid :: "char \<Rightarrow> bool" where
  "b64_valid c \<longleftrightarrow> base64_dtable c AND 0x80 = 0"

lemma dtable_cases: "unat (base64_dtable c) < 64 \<or> base64_dtable c = 0x80"
proof (cases "c \<in> set (CHR ''='' # b64_table)")
  case True
  have "list_all (\<lambda>c. unat (base64_dtable c) < 64) (CHR ''='' # b64_table)" by code_simp
  with True show ?thesis unfolding list_all_iff by blast
next
  case False
  then show ?thesis by (simp add: b64_table_def base64_dtable_def)
qed

lemma b64_valid_iff: "b64_valid c \<longleftrightarrow> unat (base64_dtable c) < 64"
  using dtable_cases [of c] by (auto simp: b64_valid_def valid_sextet)

lemma decode_group_bytes:
  assumes "unat (base64_dtable c0) < 64" "unat (base64_dtable c1) < 64"
    "unat (base64_dtable c2) < 64" "unat (base64_dtable c3) < 64"
  shows "\<exists>b3 acc'. length b3 = 3 \<and> b64_decode_loop cap (c0 # c1 # c2 # c3 # cs) acc 0 out =
    (if length out + 3 \<le> cap then b64_decode_loop cap cs acc' 0 (out @ b3) else Inl HeapOverflow)"
proof -
  have "length [x, y, z] = 3" for x y z :: char by simp
  then show ?thesis using decode_group [OF refl refl refl refl assms] by blast
qed

lemma decode_loop_groups:
  assumes "length cs = 4 * k" and "length out + 3 * k \<le> Suc cap"
  shows "\<exists>bs. length bs = 3 * k \<and> b64_decode_loop cap cs acc 0 out =
    (if \<forall>c\<in>set cs. b64_valid c
     then if k = 0 \<or> length out + 3 * k \<le> cap then Inr (Some (out @ bs)) else Inl HeapOverflow
     else Inr None)"
  using assms
proof (induction k arbitrary: cs acc out)
  case 0
  then show ?case by simp
next
  case (Suc k)
  then obtain c0 c1 c2 c3 s where cs: "cs = c0 # c1 # c2 # c3 # s" and s: "length s = 4 * k"
    by (auto simp: length_Suc_conv numeral_eq_Suc)
  show ?case
  proof (cases "b64_valid c0 \<and> b64_valid c1 \<and> b64_valid c2 \<and> b64_valid c3")
    case True
    then have v: "unat (base64_dtable c) < 64" if "c \<in> {c0, c1, c2, c3}" for c
      using that by (auto simp: b64_valid_iff)
    obtain acc' b3 where step: "length b3 = 3" "b64_decode_loop cap cs acc 0 out =
        (if length out + 3 \<le> cap then b64_decode_loop cap s acc' 0 (out @ b3) else Inl HeapOverflow)"
      using decode_group_bytes [OF v v v v, of c0 c1 c2 c3 cap s acc out] by (auto simp: cs)
    obtain bs where "length bs = 3 * k" "b64_decode_loop cap s acc' 0 (out @ b3) =
        (if \<forall>c\<in>set s. b64_valid c
         then if k = 0 \<or> length out + 3 * Suc k \<le> cap then Inr (Some (out @ b3 @ bs)) else Inl HeapOverflow
         else Inr None)"
      using Suc.IH [OF s, of "out @ b3" acc'] Suc.prems(2) step(1) by (auto simp: algebra_simps)
    moreover have "s = []" if "\<not> length out + 3 \<le> cap"
    proof -
      have "k = 0" using that Suc.prems(2) by (cases k) auto
      then show ?thesis using s by simp
    qed
    ultimately show ?thesis
      using True step Suc.prems(2) by (intro exI [of _ "b3 @ bs"]) (auto simp: cs)
  next
    case False
    then have "b64_decode_loop cap cs acc 0 out = Inr None"
      using Suc.prems(2) by (auto simp: cs b64_valid_def b64_decode_loop.simps(2) Let_def)
    then show ?thesis
      using False by (intro exI [of _ "replicate (3 * Suc k) NUL"]) (auto simp: cs)
  qed
qed

lemma b64_padding_le: "b64_padding s \<le> 2"
  by (simp add: b64_padding_def Let_def)

lemma decoded_len_bounds:
  assumes "length s = 4 * k"
  shows "b64_decoded_len s + b64_padding s = 3 * k" and "k = 0 \<Longrightarrow> b64_padding s = 0"
  using assms b64_padding_le [of s] by (auto simp: b64_decoded_len_def b64_padding_def Let_def)

lemma missing_cases: "missing bs = (if length bs mod 3 = 1 then 2 else if length bs mod 3 = 2 then 1 else 0)"
proof -
  have "length bs mod 3 = 0 \<or> length bs mod 3 = 1 \<or> length bs mod 3 = 2" by presburger
  then show ?thesis by (auto simp: missing_def)
qed

lemma length_rfc4648: "3 * length (rfc4648 bs) = 4 * (length bs + missing bs)"
  by (induction bs rule: rfc4648.induct) auto

lemma length_rfc4648_mod [simp]: "length (rfc4648 bs) mod 4 = 0"
  using length_rfc4648 [of bs] by presburger

lemma sextet_not_pad: "n < 64 \<Longrightarrow> sextet n \<noteq> CHR ''=''"
proof
  assume n: "n < 64" and "sextet n = CHR ''=''"
  then have "CHR ''='' \<in> set b64_table" by (metis length_b64_table nth_mem sextet_def)
  then show False by (simp add: b64_table_def)
qed

lemma b64_padding_append: "2 \<le> length t \<Longrightarrow> b64_padding (s @ t) = b64_padding t"
  by (auto simp: b64_padding_def Let_def nth_append)

lemma rfc4648_nonempty: "s \<noteq> [] \<Longrightarrow> 4 \<le> length (rfc4648 s)"
  by (cases s rule: rfc4648.cases) auto

lemma padding_rfc4648: "b64_padding (rfc4648 bs) = missing bs"
proof (induction bs rule: rfc4648.induct)
  case (4 a b c s)
  show ?case
  proof (cases "s = []")
    case True
    then show ?thesis by (simp add: b64_padding_def Let_def sextet_not_pad)
  next
    case False
    then have "2 \<le> length (rfc4648 s)" using rfc4648_nonempty [of s] by simp
    then show ?thesis using "4.IH" by (simp only: rfc4648.simps b64_padding_append missing_simps)
  qed
qed (simp_all add: b64_padding_def Let_def sextet_not_pad)

lemma decoded_len_rfc4648: "b64_decoded_len (rfc4648 bs) = length bs"
proof -
  obtain k where "length (rfc4648 bs) = 4 * k"
    using length_rfc4648_mod [of bs] by (metis mod_0_imp_dvd dvdE)
  then have "length (rfc4648 bs) div 4 * 3 = length bs + missing bs"
    using length_rfc4648 [of bs] by simp
  then show ?thesis by (simp add: b64_decoded_len_def padding_rfc4648)
qed

section \<open>What the two functions do\<close>

lemma decode_standard:
  "base64_decode (rfc4648 bs) [] =
     (if length bs mod 3 = 1 then Inl HeapOverflow else Inr (Some bs, []))"
  by (auto simp: base64_decode_def Let_def decoded_len_rfc4648 decode_loop_rfc4648 missing_cases)

lemma encode_zero_fill: "fst (base64_encode bs []) = Some (rfc4648 (bs @ replicate (missing bs) NUL))"
  using b64_encode_loop_pad [of "[]" bs "[]"] by (simp add: base64_encode_def)

lemma missing_fill: "(length bs + missing bs) mod 3 = 0"
proof -
  consider "length bs mod 3 = 0" | "length bs mod 3 = 1" | "length bs mod 3 = 2" by linarith
  then show ?thesis by cases (simp_all add: missing_cases mod_Suc)
qed

text \<open>
  C21: \<open>base64_decode\<close> is a correct decoder of the standard's base64 for every byte string
  whose length is not one more than a multiple of three; on those, whose encoding ends in
  two padding characters, it writes one byte past the block it allocated.
\<close>

theorem base64_decode_rfc4648:
  "base64_decode (rfc4648 bs) [] =
     (if length bs mod 3 = 1 then Inl HeapOverflow else Inr (Some bs, []))"
  by (rule decode_standard)

text \<open>
  C36: \<open>base64_encode\<close> never emits a padding character: what it returns is the standard's
  encoding of the input filled up with zero bytes to a multiple of three.
\<close>

theorem base64_encode_zero_fill:
  "fst (base64_encode bs []) = Some (rfc4648 (bs @ replicate (missing bs) NUL))"
  by (rule encode_zero_fill)

text \<open>
  Round trip: what \<open>base64_encode\<close> makes of a C string is decoded without running past
  the block, to the same C string (the zero bytes it was filled up with end the string).
\<close>

theorem base64_round_trip:
  "c_string bs \<Longrightarrow>
     \<exists>tok m d. base64_encode bs [] = (Some tok, m) \<and> base64_decode tok [] = Inr (Some d, []) \<and> cstr d = bs"
proof -
  assume bs: "c_string bs"
  let ?d = "bs @ replicate (missing bs) NUL"
  have "base64_decode (rfc4648 ?d) [] = Inr (Some ?d, [])"
    using missing_fill [of bs] by (simp add: decode_standard)
  moreover have "cstr ?d = bs"
    using bs by (cases "missing bs") simp_all
  ultimately show ?thesis
    using encode_zero_fill [of bs] by (metis prod.collapse)
qed

theorem base64_round_trip_witness:
  "\<exists>tok m d. base64_encode ''ab'' [] = (Some tok, m) \<and> base64_decode tok [] = Inr (Some d, []) \<and> cstr d = ''ab''"
  by (rule base64_round_trip) simp

text \<open>
  C22: for arbitrary input bytes and allocation outcomes: the only undefined behaviour of
  \<open>base64_decode\<close> is the overrun by one byte, and it happens exactly for inputs of a length
  divisible by four, over the alphabet, that end in two padding characters.
\<close>

theorem base64_decode_overflow_iff:
  "base64_decode s m = Inl u \<longleftrightarrow>
     u = HeapOverflow \<and> length s mod 4 = 0 \<and> fst (malloc_ok m) \<and>
     b64_padding s = 2 \<and> (\<forall>c\<in>set s. b64_valid c)"
proof (cases "length s mod 4 = 0 \<and> fst (malloc_ok m)")
  case True
  then obtain k where k: "length s = 4 * k" by auto
  note len = decoded_len_bounds [OF k]
  obtain bs where "b64_decode_loop (b64_decoded_len s + 1) s 0 0 [] =
    (if \<forall>c\<in>set s. b64_valid c
     then if k = 0 \<or> 3 * k \<le> b64_decoded_len s + 1 then Inr (Some bs) else Inl HeapOverflow
     else Inr None)"
    using decode_loop_groups [OF k, of "[]" "b64_decoded_len s + 1" 0] len(1) b64_padding_le [of s]
    unfolding append_Nil list.size(3) add_0 by auto
  then show ?thesis
    using True len b64_padding_le [of s]
    by (auto simp: base64_decode_def Let_def split: prod.splits)
next
  case False
  then show ?thesis by (auto simp: base64_decode_def Let_def split: prod.splits)
qed

theorem base64_decode_overflow_iff_witness:
  "base64_decode ''YQ=='' [] = Inl HeapOverflow"
proof -
  have "\<forall>c\<in>set ''YQ==''. b64_valid c" by code_simp
  moreover have "b64_padding ''YQ=='' = 2" by code_simp
  moreover have "fst (malloc_ok [])" by code_simp
  moreover have "length ''YQ=='' mod 4 = 0" by simp
  ultimately show ?thesis by (intro iffD2 [OF base64_decode_overflow_iff] conjI refl)
qed

end
