(* ===== verification/Database.thy ===== *)
theory Database
  imports Base64
begin

text \<open>
  The database layer of \<open>src/core/db/\<close>: the query texts of \<open>user.c\<close> and \<open>migration.c\<close>
  with the buffers they are printed into, and the wrapper \<open>db_execute\<close> of \<open>db.c\<close>. The
  MySQL client library is not part of the program: it is the record \<open>mysql\<close> of functions
  on an unknown connection state \<open>'s\<close>, an argument of every definition that calls it.
\<close>

section \<open>The client library, a parameter\<close>

type_synonym row = "string option list"

record 's mysql =
  my_init :: "'s option"
  my_connect :: "'s \<Rightarrow> string option \<Rightarrow> string option \<Rightarrow> string option \<Rightarrow> string option \<Rightarrow> int \<Rightarrow> 's option"
  my_query :: "'s \<Rightarrow> string \<Rightarrow> bool \<times> 's"
  my_store_result :: "'s \<Rightarrow> row list option \<times> 's"
  my_field_count :: "'s \<Rightarrow> nat"
  my_ping :: "'s \<Rightarrow> bool"
  my_error :: "'s \<Rightarrow> string"

text \<open>
  \<open>my_query\<close> answers \<open>True\<close> for a failure (a non-zero return), \<open>my_connect\<close> and
  \<open>my_store_result\<close> \<open>None\<close> for a null pointer, \<open>my_ping\<close> \<open>True\<close> for a live connection;
  \<open>my_error\<close> is the text of the last error.
  The result of \<open>db_execute\<close> is a null pointer, the constant \<open>(MYSQL_RES *)1\<close> of a
  statement without a result set, or the rows.
\<close>

datatype db_result = DbNull | DbDone | DbRows "row list"

definition db_execute :: "'s mysql \<Rightarrow> 's \<Rightarrow> string \<Rightarrow> db_result \<times> 's" where
  "db_execute my conn query =
     (let (failed, conn) = my_query my conn query in
      if failed then (DbNull, conn)
      else
        (let (result, conn) = my_store_result my conn in
         case result of
           None \<Rightarrow> if my_field_count my conn = 0 then (DbDone, conn) else (DbNull, conn)
         | Some rows \<Rightarrow> (DbRows rows, conn)))"

definition db_check_connection :: "'s mysql \<Rightarrow> 's option \<Rightarrow> bool" where
  "db_check_connection my conn = (case conn of None \<Rightarrow> False | Some c \<Rightarrow> my_ping my c)"

text \<open>The text \<open>db_print_query_result\<close> prints for the column names and rows of a result.\<close>

definition db_print_query_result :: "(string list \<times> row list) option \<Rightarrow> string" where
  "db_print_query_result result =
     (case result of
        None \<Rightarrow> []
      | Some (names, rows) \<Rightarrow>
          concat (map (\<lambda>f. f @ [TAB]) names) @ [LF] @
          concat (map (\<lambda>row. concat (map (\<lambda>c. (case c of None \<Rightarrow> ''NULL'' | Some v \<Rightarrow> v) @ [TAB]) row) @ [LF]) rows))"

section \<open>Users\<close>

record user =
  username :: string
  password :: string

definition TABLE_NAME :: string where
  "TABLE_NAME = ''users''"

text \<open>The single quote of an SQL string literal.\<close>

abbreviation QUOTE :: char where "QUOTE \<equiv> CHR 0x27"

definition db_user_add :: "string \<Rightarrow> string \<Rightarrow> mem \<Rightarrow> string option \<times> mem" where
  "db_user_add name base64_pass m =
     (let (ok, m) = malloc_ok m in
      if \<not> ok then (None, m)
      else (Some (snprintf_buf 1024
        (''INSERT INTO `'' @ TABLE_NAME @ ''` (username, password) VALUES ('' @ [QUOTE] @ name @
         [QUOTE] @ '', '' @ [QUOTE] @ base64_pass @ [QUOTE] @ '');'')), m))"

definition db_user_get :: "string \<Rightarrow> mem \<Rightarrow> string option \<times> mem" where
  "db_user_get name m =
     (let (ok, m) = malloc_ok m in
      if \<not> ok then (None, m)
      else (Some (snprintf_buf 1024
        (''SELECT username, password FROM `'' @ TABLE_NAME @ ''` WHERE username = '' @ [QUOTE] @ name @
         [QUOTE] @ '' LIMIT 1;'')), m))"

definition db_user_remove :: "string \<Rightarrow> mem \<Rightarrow> string option \<times> mem" where
  "db_user_remove name m =
     (let (ok, m) = malloc_ok m in
      if \<not> ok then (None, m)
      else (Some (snprintf_buf 1024
        (''DELETE FROM `'' @ TABLE_NAME @ ''` WHERE username = '' @ [QUOTE] @ name @ [QUOTE])), m))"

text \<open>Reading a column that the row does not have is out of bounds.\<close>

definition row_col :: "row \<Rightarrow> nat \<Rightarrow> string option result" where
  "row_col row i = (if i < length row then Inr (row ! i) else Inl OutOfBounds)"

definition db_user_get_from_result :: "db_result \<Rightarrow> mem \<Rightarrow> (user option \<times> mem) result" where
  "db_user_get_from_result res m =
     (case res of
        DbRows (row # rows) \<Rightarrow>
          bindR (row_col row 0) (\<lambda>username.
          bindR (row_col row 1) (\<lambda>password.
          (case (username, password) of
             (Some u, Some p) \<Rightarrow>
               (let (ok, m) = malloc_ok m in
                if \<not> ok then Inr (None, m)
                else
                  (let (ok_u, m) = malloc_ok m;
                       (ok_p, m) = malloc_ok m
                   in if \<not> ok_u \<or> \<not> ok_p then Inr (None, m)
                      else Inr (Some \<lparr>username = u, password = p\<rparr>, m)))
           | _ \<Rightarrow> Inr (None, m))))
      | _ \<Rightarrow> Inr (None, m))"

section \<open>Tables\<close>

record column =
  col_name :: string
  col_type :: string
  col_length :: int
  col_extra :: "string option"

record table =
  table_name :: string
  columns :: "column list"

definition column_text :: "column \<Rightarrow> string" where
  "column_text col =
     (if col_length col > 0
      then ''`'' @ col_name col @ ''` '' @ col_type col @ ''('' @ show_int (col_length col) @ '') '' @
           or_empty (col_extra col)
      else ''`'' @ col_name col @ ''` '' @ col_type col @ '' '' @ or_empty (col_extra col))"

definition column_to_sql :: "column \<Rightarrow> mem \<Rightarrow> string option \<times> mem" where
  "column_to_sql col m =
     (let buffer = snprintf_buf 512 (column_text col);
          (ok, m) = malloc_ok m
      in (if ok then Some buffer else None, m))"

definition SQL_SIZE :: nat where
  "SQL_SIZE = 4096"

text \<open>
  \<open>len += snprintf(sql + len, 4096 - len, ...)\<close>: a write past the block once \<open>len\<close> has
  passed 4096 and the unsigned difference has wrapped; nothing is written at \<open>len = 4096\<close>.
\<close>

definition append_at :: "string \<Rightarrow> nat \<Rightarrow> string \<Rightarrow> (string \<times> nat) result" where
  "append_at sql len s =
     (if len < SQL_SIZE then Inr (take len sql @ take (SQL_SIZE - len - 1) s, len + length s)
      else if len = SQL_SIZE then Inr (sql, len + length s)
      else Inl HeapOverflow)"

text \<open>
  The loop over the columns. A failed \<open>strdup\<close> in \<open>column_to_sql\<close> is printed as a null
  string pointer.
\<close>

fun add_columns :: "column list \<Rightarrow> string \<Rightarrow> nat \<Rightarrow> mem \<Rightarrow> (string \<times> nat \<times> mem) result" where
  "add_columns [] sql len m = Inr (sql, len, m)"
| "add_columns (col # cols) sql len m =
     (let (col_sql, m) = column_to_sql col m in
      case col_sql of
        None \<Rightarrow> Inl NullDeref
      | Some s \<Rightarrow>
          bindR (append_at sql len (s @ (if cols \<noteq> [] then '', '' else [])))
            (\<lambda>(sql, len). add_columns cols sql len m))"

definition table_header :: "table \<Rightarrow> string" where
  "table_header table = ''CREATE TABLE IF NOT EXISTS `'' @ table_name table @ ''` (''"

definition create_table_sql :: "table \<Rightarrow> mem \<Rightarrow> (string option \<times> mem) result" where
  "create_table_sql table m =
     (let (ok, m) = malloc_ok m in
      if \<not> ok then Inr (None, m)
      else
        (let sql = snprintf_buf SQL_SIZE (table_header table)
         in bindR (add_columns (columns table) sql (length sql) m) (\<lambda>(sql, len, m).
            bindR (append_at sql len '');'') (\<lambda>(sql, len). Inr (Some sql, m)))))"

definition users_table :: table where
  "users_table =
     \<lparr>table_name = TABLE_NAME,
      columns =
        [\<lparr>col_name = ''id'', col_type = ''INT'', col_length = 0,
           col_extra = Some ''PRIMARY KEY AUTO_INCREMENT''\<rparr>,
         \<lparr>col_name = ''username'', col_type = ''VARCHAR'', col_length = 50,
           col_extra = Some ''NOT NULL UNIQUE''\<rparr>,
         \<lparr>col_name = ''password'', col_type = ''VARCHAR'', col_length = 100,
           col_extra = Some ''NOT NULL''\<rparr>,
         \<lparr>col_name = ''created_at'', col_type = ''TIMESTAMP'', col_length = 0,
           col_extra = Some ''DEFAULT CURRENT_TIMESTAMP''\<rparr>,
         \<lparr>col_name = ''updated_at'', col_type = ''TIMESTAMP'', col_length = 0,
           col_extra = Some ''DEFAULT CURRENT_TIMESTAMP ON UPDATE CURRENT_TIMESTAMP''\<rparr>]\<rparr>"

definition db_user_migration :: "mem \<Rightarrow> (string option \<times> mem) result" where
  "db_user_migration m = create_table_sql users_table m"

definition all_tables_query :: string where
  "all_tables_query =
     ''SELECT GROUP_CONCAT(CONCAT('' @ [QUOTE] @ ''`'' @ [QUOTE] @ '', table_name, '' @ [QUOTE] @ ''`'' @
     [QUOTE] @ '') SEPARATOR '' @ [QUOTE] @ '', '' @ [QUOTE] @ '') '' @
     ''FROM information_schema.tables WHERE table_schema = DATABASE();''"

definition get_all_tables :: "'s mysql \<Rightarrow> 's \<Rightarrow> mem \<Rightarrow> (string option \<times> 's \<times> mem) result" where
  "get_all_tables my conn m =
     (let (failed, conn) = my_query my conn all_tables_query in
      if failed then Inr (None, conn, m)
      else
        (let (res, conn) = my_store_result my conn in
         case res of
           None \<Rightarrow> Inr (None, conn, m)
         | Some [] \<Rightarrow> Inr (None, conn, m)
         | Some (row # rows) \<Rightarrow>
             bindR (row_col row 0) (\<lambda>c.
               (case c of
                  None \<Rightarrow> Inr (None, conn, m)
                | Some t \<Rightarrow> (let (ok, m) = malloc_ok m in Inr (if ok then Some t else None, conn, m))))))"

definition db_drop_database :: "'s mysql \<Rightarrow> 's \<Rightarrow> mem \<Rightarrow> (string option \<times> 's \<times> mem) result" where
  "db_drop_database my conn m =
     bindR (get_all_tables my conn m) (\<lambda>(tables, conn, m).
       (case tables of
          None \<Rightarrow> Inr (None, conn, m)
        | Some t \<Rightarrow>
            (let (ok, m) = malloc_ok m in
             Inr (if ok then Some (''DROP TABLE IF EXISTS '' @ t @ '';'') else None, conn, m))))"

section \<open>The text of a table definition\<close>

fun join_sep :: "string \<Rightarrow> string list \<Rightarrow> string" where
  "join_sep sep [] = []"
| "join_sep sep [x] = x"
| "join_sep sep (x # y # xs) = x @ sep @ join_sep sep (y # xs)"

lemma join_sep_Cons:
  "join_sep sep (x # xs) = x @ (if xs \<noteq> [] then sep else []) @ join_sep sep xs"
  by (cases xs) auto

definition table_text :: "table \<Rightarrow> string" where
  "table_text table = table_header table @ join_sep '', '' (map column_text (columns table)) @ '');''"

lemma append_at_fit:
  "length sql + length s < SQL_SIZE \<Longrightarrow> append_at sql (length sql) s = Inr (sql @ s, length (sql @ s))"
  by (simp add: append_at_def)

lemma add_columns_fit:
  assumes "length sql + length (join_sep '', '' (map column_text cols)) < SQL_SIZE"
    and "\<forall>col \<in> set cols. length (column_text col) < 512"
  shows "add_columns cols sql (length sql) [] =
    Inr (sql @ join_sep '', '' (map column_text cols),
         length (sql @ join_sep '', '' (map column_text cols)), [])"
  using assms
proof (induction cols arbitrary: sql)
  case (Cons col cols)
  let ?s = "column_text col @ (if cols \<noteq> [] then '', '' else [])"
  have "column_to_sql col [] = (Some (column_text col), [])"
    using Cons.prems by (simp add: column_to_sql_def snprintf_buf_def)
  moreover have "append_at sql (length sql) ?s = Inr (sql @ ?s, length (sql @ ?s))"
    using Cons.prems(1) by (intro append_at_fit) (auto simp: join_sep_Cons split: if_splits)
  moreover have "add_columns cols (sql @ ?s) (length (sql @ ?s)) [] =
    Inr ((sql @ ?s) @ join_sep '', '' (map column_text cols),
         length ((sql @ ?s) @ join_sep '', '' (map column_text cols)), [])"
    using Cons.prems by (intro Cons.IH) (auto simp: join_sep_Cons split: if_splits)
  ultimately show ?case by (simp add: join_sep_Cons)
qed simp

lemma create_table_fit:
  assumes "length (table_text t) < SQL_SIZE"
    and "\<forall>col \<in> set (columns t). length (column_text col) < 512"
  shows "create_table_sql t [] = Inr (Some (table_text t), [])"
proof -
  let ?h = "table_header t" and ?b = "join_sep '', '' (map column_text (columns t))"
  have h: "snprintf_buf SQL_SIZE ?h = ?h"
    using assms(1) by (simp add: snprintf_buf_def table_text_def)
  have "add_columns (columns t) ?h (length ?h) [] = Inr (?h @ ?b, length (?h @ ?b), [])"
    using assms by (intro add_columns_fit) (auto simp: table_text_def)
  moreover have "append_at (?h @ ?b) (length (?h @ ?b)) '');'' =
      Inr ((?h @ ?b) @ '');'', length ((?h @ ?b) @ '');''))"
    using assms(1) by (intro append_at_fit) (simp add: table_text_def)
  ultimately show ?thesis
    by (simp add: create_table_sql_def h table_text_def del: length_append)
qed

section \<open>What an SQL server reads\<close>

text \<open>
  The part of a query outside its string literals, by MySQL's lexical rules: a literal runs
  from a single quote to the next one, and a backslash in it escapes the byte after it.
\<close>

fun sql_skeleton :: "bool \<Rightarrow> string \<Rightarrow> string" where
  "sql_skeleton q [] = []"
| "sql_skeleton False (c # s) = (if c = QUOTE then sql_skeleton True s else c # sql_skeleton False s)"
| "sql_skeleton True [c] = []"
| "sql_skeleton True (c # d # s) =
     (if c = CHR 0x5C then sql_skeleton True s
      else if c = QUOTE then sql_skeleton False (d # s) else sql_skeleton True (d # s))"

definition literal_safe :: "string \<Rightarrow> bool" where
  "literal_safe s \<longleftrightarrow> QUOTE \<notin> set s \<and> CHR 0x5C \<notin> set s"

lemma skeleton_literal:
  "literal_safe n \<Longrightarrow> t \<noteq> [] \<Longrightarrow> sql_skeleton True (n @ QUOTE # t) = sql_skeleton False t"
proof (induction n)
  case Nil
  then show ?case by (cases t) auto
next
  case (Cons c n)
  then show ?case by (cases n) (auto simp: literal_safe_def)
qed

lemma skeleton_plain: "QUOTE \<notin> set s \<Longrightarrow> sql_skeleton False (s @ t) = s @ sql_skeleton False t"
  by (induction s) auto

section \<open>Properties\<close>

text \<open>
  The writer of table definitions: when the text fits its block of 4096 bytes and every
  column fits its buffer of 512, \<open>create_table_sql\<close> stays inside the block and returns
  exactly the statement: header, columns separated by commas, closing parenthesis.
\<close>

theorem create_table_sql_text:
  assumes "length (table_text t) < SQL_SIZE"
    and "\<forall>col \<in> set (columns t). length (column_text col) < 512"
  shows "create_table_sql t [] = Inr (Some (table_text t), [])"
  by (rule create_table_fit [OF assms])

theorem create_table_sql_text_witness:
  "db_user_migration [] = Inr (Some
     (''CREATE TABLE IF NOT EXISTS `users` (`id` INT PRIMARY KEY AUTO_INCREMENT, '' @
      ''`username` VARCHAR(50) NOT NULL UNIQUE, `password` VARCHAR(100) NOT NULL, '' @
      ''`created_at` TIMESTAMP DEFAULT CURRENT_TIMESTAMP, '' @
      ''`updated_at` TIMESTAMP DEFAULT CURRENT_TIMESTAMP ON UPDATE CURRENT_TIMESTAMP);''), [])"
  unfolding db_user_migration_def
  by (subst create_table_sql_text)
     (simp_all add: table_text_def table_header_def users_table_def column_text_def or_empty_def
        TABLE_NAME_def show_int_def show_nat.simps SQL_SIZE_def c_simps)

end
