(* ===== verification/Hashmap.thy ===== *)
theory Hashmap
  imports CLib "HOL-Library.Multiset"
begin

text \<open>
  The string hash map of \<open>src/core/collections/hashmap.c\<close>: separate chaining, a 64-bit
  multiplicative hash, insertion at the head of a chain, doubling at load factor 0.75. A
  chain is the list of its nodes in the order of the \<open>next\<close> pointers. The interface the
  rest of the program relies on is the locale \<open>put_once_map\<close>, interpreted on this
  implementation at the end. The mutex is not modelled (the program has one thread). The
  operations on the map come without and, under the names that end in \<open>_mem\<close>, with their
  allocations, a failure of which ends the process inside \<open>safe_malloc\<close>.
\<close>

section \<open>The data\<close>

record 'v node =
  nkey :: string
  nvalue :: 'v
  nvalue_size :: nat

record 'v hashmap =
  buckets :: "'v node list list"
  capacity :: nat
  msize :: nat

definition INITIAL_CAPACITY :: nat where
  "INITIAL_CAPACITY = 8"

section \<open>The operations\<close>

fun hash_loop :: "64 word \<Rightarrow> string \<Rightarrow> 64 word" where
  "hash_loop h [] = h"
| "hash_loop h (c # s) = hash_loop (h * 31 + of_nat (code c)) s"

definition hash :: "string \<Rightarrow> nat \<Rightarrow> nat" where
  "hash key cap = unat (hash_loop 0 key) mod cap"

definition hashmap_create :: "'v hashmap" where
  "hashmap_create =
     \<lparr>buckets = replicate INITIAL_CAPACITY [], capacity = INITIAL_CAPACITY, msize = 0\<rparr>"

fun chain_contains :: "'v node list \<Rightarrow> string \<Rightarrow> bool" where
  "chain_contains [] key = False"
| "chain_contains (node # next) key = (if nkey node = key then True else chain_contains next key)"

definition hashmap_contains :: "'v hashmap \<Rightarrow> string \<Rightarrow> bool" where
  "hashmap_contains hm key = chain_contains (buckets hm ! hash key (capacity hm)) key"

definition push_node :: "'v node \<Rightarrow> 'v hashmap \<Rightarrow> 'v hashmap" where
  "push_node node hm =
     (let index = hash (nkey node) (capacity hm)
      in hm\<lparr>buckets := (buckets hm)[index := node # (buckets hm ! index)],
             msize := msize hm + 1\<rparr>)"

fun rehash_chain :: "'v node list \<Rightarrow> 'v hashmap \<Rightarrow> 'v hashmap" where
  "rehash_chain [] hm = hm"
| "rehash_chain (node # next) hm = rehash_chain next (push_node node hm)"

fun rehash_buckets :: "'v node list list \<Rightarrow> 'v hashmap \<Rightarrow> 'v hashmap" where
  "rehash_buckets [] hm = hm"
| "rehash_buckets (chain # rest) hm = rehash_buckets rest (rehash_chain chain hm)"

definition hashmap_rehash :: "'v hashmap \<Rightarrow> 'v hashmap" where
  "hashmap_rehash hm =
     rehash_buckets (buckets hm)
       \<lparr>buckets = replicate (capacity hm * 2) [], capacity = capacity hm * 2, msize = 0\<rparr>"

text \<open>
  \<open>(double)(size + 1) / capacity > 0.75\<close>: exact in binary floating point, because the
  capacity is a power of two and the size is far below \<open>2 ^ 53\<close>.
\<close>

definition over_loaded :: "'v hashmap \<Rightarrow> bool" where
  "over_loaded hm \<longleftrightarrow> 3 * capacity hm < 4 * (msize hm + 1)"

definition hashmap_add :: "'v hashmap \<Rightarrow> string \<Rightarrow> 'v \<Rightarrow> nat \<Rightarrow> 'v hashmap" where
  "hashmap_add hm key value value_size =
     (if hashmap_contains hm key then hm
      else
        (let hm = (if over_loaded hm then hashmap_rehash hm else hm)
         in push_node \<lparr>nkey = key, nvalue = value, nvalue_size = value_size\<rparr> hm))"

text \<open>The allocations, which end the process when they fail.\<close>

definition safe_malloc :: "mem \<Rightarrow> mem result" where
  "safe_malloc m = (let (ok, m) = malloc_ok m in if \<not> ok then Inl Exited else Inr m)"

definition safe_calloc :: "mem \<Rightarrow> mem result" where
  "safe_calloc m = (let (ok, m) = malloc_ok m in if \<not> ok then Inl Exited else Inr m)"

definition safe_strdup :: "string \<Rightarrow> mem \<Rightarrow> (string \<times> mem) result" where
  "safe_strdup s m = (let (ok, m) = malloc_ok m in if \<not> ok then Inl Exited else Inr (s, m))"

definition hashmap_create_mem :: "mem \<Rightarrow> ('v hashmap \<times> mem) result" where
  "hashmap_create_mem m =
     bindR (safe_malloc m) (\<lambda>m. bindR (safe_calloc m) (\<lambda>m. Inr (hashmap_create, m)))"

definition hashmap_rehash_mem :: "'v hashmap \<Rightarrow> mem \<Rightarrow> ('v hashmap \<times> mem) result" where
  "hashmap_rehash_mem hm m = bindR (safe_calloc m) (\<lambda>m. Inr (hashmap_rehash hm, m))"

definition hashmap_add_mem :: "'v hashmap \<Rightarrow> string \<Rightarrow> 'v \<Rightarrow> nat \<Rightarrow> mem \<Rightarrow> ('v hashmap \<times> mem) result" where
  "hashmap_add_mem hm key value value_size m =
     (if hashmap_contains hm key then Inr (hm, m)
      else
        bindR (if over_loaded hm then hashmap_rehash_mem hm m else Inr (hm, m)) (\<lambda>(hm, m).
        bindR (safe_malloc m) (\<lambda>m.
        bindR (safe_strdup key m) (\<lambda>(key, m).
        bindR (safe_malloc m) (\<lambda>m.
          Inr (push_node \<lparr>nkey = key, nvalue = value, nvalue_size = value_size\<rparr> hm, m))))))"

text \<open>The walk over a chain with its \<open>prev\<close> pointer: the chain without the first match.\<close>

fun chain_unlink :: "'v node list \<Rightarrow> string \<Rightarrow> 'v node list option" where
  "chain_unlink [] key = None"
| "chain_unlink (node # next) key =
     (if nkey node = key then Some next else map_option (Cons node) (chain_unlink next key))"

definition hashmap_remove :: "'v hashmap \<Rightarrow> string \<Rightarrow> 'v hashmap" where
  "hashmap_remove hm key =
     (let index = hash key (capacity hm)
      in case chain_unlink (buckets hm ! index) key of
           None \<Rightarrow> hm
         | Some chain \<Rightarrow>
             hm\<lparr>buckets := (buckets hm)[index := chain], msize := msize hm - 1\<rparr>)"

fun chain_get :: "'v node list \<Rightarrow> string \<Rightarrow> 'v option" where
  "chain_get [] key = None"
| "chain_get (node # next) key = (if nkey node = key then Some (nvalue node) else chain_get next key)"

definition hashmap_get :: "'v hashmap \<Rightarrow> string \<Rightarrow> 'v option" where
  "hashmap_get hm key = chain_get (buckets hm ! hash key (capacity hm)) key"

text \<open>The nodes \<open>hashmap_free\<close> releases, in order, before the bucket array and the map.\<close>

definition hashmap_free :: "'v hashmap \<Rightarrow> 'v node list" where
  "hashmap_free hm = concat (map (\<lambda>i. buckets hm ! i) [0..<capacity hm])"

text \<open>The text \<open>hashmap_print\<close> writes; \<open>nonnull\<close> tells whether a value pointer is set.\<close>

fun print_chain :: "('v \<Rightarrow> bool) \<Rightarrow> 'v node list \<Rightarrow> string" where
  "print_chain nonnull [] = ''NULL'' @ [LF]"
| "print_chain nonnull (node # next) =
     nkey node @ '':'' @ show_int (if nonnull (nvalue node) then 1 else 0) @ '' -> '' @
     print_chain nonnull next"

definition hashmap_print :: "('v \<Rightarrow> bool) \<Rightarrow> 'v hashmap \<Rightarrow> string" where
  "hashmap_print nonnull hm =
     concat (map (\<lambda>i. ''Bucket '' @ show_nat i @ '': '' @ print_chain nonnull (buckets hm ! i))
       [0..<capacity hm])"

section \<open>The invariant\<close>

definition hm_nodes :: "'v hashmap \<Rightarrow> 'v node multiset" where
  "hm_nodes hm = mset (concat (buckets hm))"

text \<open>Every node is in the chain its key hashes to, and the counters are right.\<close>

definition hm_shape :: "'v hashmap \<Rightarrow> bool" where
  "hm_shape hm \<longleftrightarrow>
     length (buckets hm) = capacity hm \<and> 0 < capacity hm \<and>
     (\<forall>i < capacity hm. \<forall>node \<in> set (buckets hm ! i). hash (nkey node) (capacity hm) = i) \<and>
     msize hm = size (hm_nodes hm)"

definition hm_inv :: "'v hashmap \<Rightarrow> bool" where
  "hm_inv hm \<longleftrightarrow>
     hm_shape hm \<and> distinct (map nkey (concat (buckets hm))) \<and>
     4 * msize hm \<le> 3 * capacity hm \<and> (\<exists>k. capacity hm = INITIAL_CAPACITY * 2 ^ k)"

section \<open>Nodes and chains\<close>

lemma hash_bound: "0 < cap \<Longrightarrow> hash key cap < cap"
  by (simp add: hash_def)

lemma mset_concat_update:
  "i < length b \<Longrightarrow> mset (concat (b[i := ys])) + mset (b ! i) = mset (concat b) + mset ys"
proof (induction b arbitrary: i)
  case (Cons x b)
  then show ?case by (cases i) (auto simp: ac_simps)
qed simp

lemma hm_nodes_push:
  assumes "hm_shape m"
  shows "hm_nodes (push_node node m) = add_mset node (hm_nodes m)"
proof -
  let ?i = "hash (nkey node) (capacity m)"
  have "?i < length (buckets m)" using assms by (simp add: hm_shape_def hash_bound)
  from mset_concat_update [OF this, of "node # buckets m ! ?i"] show ?thesis
    by (simp add: hm_nodes_def push_node_def Let_def)
qed

lemma hm_shape_push: "hm_shape m \<Longrightarrow> hm_shape (push_node node m)"
proof -
  assume s: "hm_shape m"
  show ?thesis
    unfolding hm_shape_def using s hm_nodes_push [OF s, of node]
    by (auto simp: hm_shape_def push_node_def Let_def nth_list_update hash_bound split: if_splits)
qed

lemma capacity_push [simp]: "capacity (push_node node m) = capacity m"
  by (simp add: push_node_def Let_def)

lemma rehash_chain_spec:
  "hm_shape m \<Longrightarrow> hm_shape (rehash_chain ns m) \<and>
    hm_nodes (rehash_chain ns m) = mset ns + hm_nodes m \<and> capacity (rehash_chain ns m) = capacity m"
  by (induction ns arbitrary: m) (auto simp: hm_shape_push hm_nodes_push)

lemma rehash_buckets_spec:
  "hm_shape m \<Longrightarrow> hm_shape (rehash_buckets bs m) \<and>
    hm_nodes (rehash_buckets bs m) = mset (concat bs) + hm_nodes m \<and>
    capacity (rehash_buckets bs m) = capacity m"
  by (induction bs arbitrary: m) (auto simp: rehash_chain_spec ac_simps)

lemma hm_nodes_fresh [simp]:
  "hm_nodes \<lparr>buckets = replicate n [], capacity = c, msize = 0\<rparr> = {#}"
  by (induction n) (auto simp: hm_nodes_def)

lemma hm_shape_fresh: "0 < n \<Longrightarrow> hm_shape \<lparr>buckets = replicate n [], capacity = n, msize = 0\<rparr>"
  by (simp add: hm_shape_def)

lemma rehash_spec:
  assumes "hm_shape m"
  shows "hm_shape (hashmap_rehash m)" and "hm_nodes (hashmap_rehash m) = hm_nodes m"
    and "capacity (hashmap_rehash m) = 2 * capacity m"
proof -
  have "0 < capacity m * 2" using assms by (simp add: hm_shape_def)
  note spec = rehash_buckets_spec [OF hm_shape_fresh [OF this], of "buckets m"]
  show "hm_shape (hashmap_rehash m)" "capacity (hashmap_rehash m) = 2 * capacity m"
    using spec by (simp_all add: hashmap_rehash_def)
  show "hm_nodes (hashmap_rehash m) = hm_nodes m"
    using spec by (simp add: hashmap_rehash_def) (simp add: hm_nodes_def)
qed

text \<open>The keys are distinct in every arrangement of the same nodes.\<close>

text \<open>No key occurs in two nodes.\<close>

definition uniq :: "'v node multiset \<Rightarrow> bool" where
  "uniq M \<longleftrightarrow> (\<forall>k. count (image_mset nkey M) k \<le> 1)"

lemma distinct_count_le: "distinct xs \<longleftrightarrow> (\<forall>x. count (mset xs) x \<le> 1)"
proof (induction xs)
  case (Cons y xs)
  then show ?case by (auto simp: not_in_iff [symmetric] le_Suc_eq)
qed simp

lemma distinct_keys_nodes: "distinct (map nkey (concat (buckets m))) \<longleftrightarrow> uniq (hm_nodes m)"
  by (simp add: uniq_def hm_nodes_def distinct_count_le)

lemma uniq_add: "uniq (add_mset n M) \<longleftrightarrow> uniq M \<and> (\<forall>n'\<in>#M. nkey n' \<noteq> nkey n)"
  by (auto simp: uniq_def le_Suc_eq count_eq_zero_iff)

lemma hm_inv_alt:
  "hm_inv m \<longleftrightarrow> hm_shape m \<and> uniq (hm_nodes m) \<and> 4 * msize m \<le> 3 * capacity m \<and>
    (\<exists>k. capacity m = INITIAL_CAPACITY * 2 ^ k)"
  by (simp add: hm_inv_def distinct_keys_nodes)

section \<open>Lookup\<close>

lemma chain_contains_iff: "chain_contains ns k \<longleftrightarrow> (\<exists>n\<in>set ns. nkey n = k)"
  by (induction ns) auto

lemma chain_get_None: "chain_get ns k = None \<longleftrightarrow> (\<forall>n\<in>set ns. nkey n \<noteq> k)"
  by (induction ns) auto

lemma chain_get_Some: "chain_get ns k = Some v \<Longrightarrow> \<exists>n\<in>set ns. nkey n = k \<and> nvalue n = v"
  by (induction ns) (auto split: if_splits)

lemma chain_get_unique:
  "distinct (map nkey ns) \<Longrightarrow> n \<in> set ns \<Longrightarrow> chain_get ns (nkey n) = Some (nvalue n)"
  by (induction ns) (auto simp: rev_image_eqI)

lemma in_chain_iff:
  assumes "hm_shape m"
  shows "n \<in> set (buckets m ! hash (nkey n) (capacity m)) \<longleftrightarrow> n \<in># hm_nodes m"
proof -
  have "hash (nkey n) (capacity m) < length (buckets m)"
    using assms by (simp add: hm_shape_def hash_bound)
  then show ?thesis
    using assms by (fastforce simp: hm_shape_def hm_nodes_def in_set_conv_nth [of _ "buckets m"])
qed

lemma hm_inv_shape: "hm_inv m \<Longrightarrow> hm_shape m"
  by (simp add: hm_inv_def)

lemma uniq_eq: "uniq M \<Longrightarrow> n \<in># M \<Longrightarrow> n' \<in># M \<Longrightarrow> nkey n = nkey n' \<Longrightarrow> n = n'"
  by (metis insert_DiffM insert_noteq_member uniq_add)

lemma chain_distinct:
  assumes "hm_inv m" and "i < capacity m"
  shows "distinct (map nkey (buckets m ! i))"
proof -
  from assms have "i < length (buckets m)" by (simp add: hm_inv_def hm_shape_def)
  then obtain as bs where "buckets m = as @ (buckets m ! i) # bs"
    by (metis id_take_nth_drop)
  then have "concat (buckets m) = concat as @ (buckets m ! i) @ concat bs"
    by (metis concat.simps(2) concat_append)
  then show ?thesis using assms(1) by (simp add: hm_inv_def)
qed

lemma hashmap_contains_iff:
  "hm_shape m \<Longrightarrow> hashmap_contains m k \<longleftrightarrow> (\<exists>n\<in>#hm_nodes m. nkey n = k)"
  using in_chain_iff by (fastforce simp: hashmap_contains_def chain_contains_iff hm_shape_def hm_nodes_def hash_bound)

lemma hashmap_get_Some_iff:
  assumes "hm_inv m"
  shows "hashmap_get m k = Some v \<longleftrightarrow> (\<exists>n\<in>#hm_nodes m. nkey n = k \<and> nvalue n = v)"
proof -
  have s: "hm_shape m" and "0 < capacity m" using assms by (auto simp: hm_inv_def hm_shape_def)
  then have d: "distinct (map nkey (buckets m ! hash k (capacity m)))"
    using assms by (intro chain_distinct) (simp_all add: hash_bound)
  show ?thesis
  proof
    assume "hashmap_get m k = Some v"
    then obtain n where "n \<in> set (buckets m ! hash k (capacity m))" "nkey n = k" "nvalue n = v"
      using chain_get_Some by (fastforce simp: hashmap_get_def)
    then show "\<exists>n\<in>#hm_nodes m. nkey n = k \<and> nvalue n = v" using in_chain_iff [OF s, of n] by auto
  next
    assume "\<exists>n\<in>#hm_nodes m. nkey n = k \<and> nvalue n = v"
    then show "hashmap_get m k = Some v"
      using in_chain_iff [OF s] chain_get_unique [OF d] by (auto simp: hashmap_get_def)
  qed
qed

lemma get_ext:
  assumes "\<And>v. f = Some v \<longleftrightarrow> g = Some v"
  shows "f = g"
  using assms by (metis option.exhaust)

lemma hashmap_get_None_iff:
  "hm_inv m \<Longrightarrow> hashmap_get m k = None \<longleftrightarrow> (\<forall>n\<in>#hm_nodes m. nkey n \<noteq> k)"
  using hashmap_get_Some_iff [of m k] by (metis not_None_eq)

section \<open>The operations keep the invariant\<close>

lemma hashmap_create_inv: "hm_inv hashmap_create"
  using hm_shape_fresh [of INITIAL_CAPACITY]
  by (auto simp: hashmap_create_def hm_inv_alt INITIAL_CAPACITY_def uniq_def)

lemma hashmap_get_create: "hashmap_get hashmap_create = (\<lambda>_. None)"
  by (rule ext) (simp add: hashmap_get_None_iff [OF hashmap_create_inv], simp add: hashmap_create_def)

lemma size_push: "msize (push_node n m) = msize m + 1"
  by (simp add: push_node_def Let_def)

lemma hashmap_add_present: "hm_inv m \<Longrightarrow> hashmap_get m k \<noteq> None \<Longrightarrow> hashmap_add m k v z = m"
  by (auto simp: hashmap_add_def hashmap_contains_iff hm_inv_shape hashmap_get_Some_iff)

lemma hashmap_add_absent:
  assumes "hm_inv m" and "hashmap_get m k = None"
  shows "hm_inv (hashmap_add m k v z)"
    and "hm_nodes (hashmap_add m k v z) = add_mset \<lparr>nkey = k, nvalue = v, nvalue_size = z\<rparr> (hm_nodes m)"
proof -
  let ?n = "\<lparr>nkey = k, nvalue = v, nvalue_size = z\<rparr>"
  let ?m = "if over_loaded m then hashmap_rehash m else m"
  have s: "hm_shape m" using assms(1) by (rule hm_inv_shape)
  have c: "\<not> hashmap_contains m k"
    using assms by (simp add: hashmap_contains_iff s hashmap_get_None_iff)
  have s': "hm_shape ?m" and n': "hm_nodes ?m = hm_nodes m"
    using s rehash_spec by auto
  have size: "msize ?m = msize m" using s s' n' by (simp add: hm_shape_def)
  have add: "hashmap_add m k v z = push_node ?n ?m" using c by (simp add: hashmap_add_def)
  then show n: "hm_nodes (hashmap_add m k v z) = add_mset ?n (hm_nodes m)"
    using hm_nodes_push [OF s'] n' by simp
  obtain j where j: "capacity m = INITIAL_CAPACITY * 2 ^ j" using assms(1) by (auto simp: hm_inv_def)
  then have "capacity ?m = INITIAL_CAPACITY * 2 ^ (if over_loaded m then Suc j else j)"
    using rehash_spec(3) [OF s] by simp
  moreover have "2 \<le> capacity m" by (simp add: j INITIAL_CAPACITY_def)
  then have "4 * (msize m + 1) \<le> 3 * capacity ?m"
    using rehash_spec(3) [OF s] assms(1) by (auto simp: over_loaded_def hm_inv_def)
  moreover have "uniq (add_mset ?n (hm_nodes m))"
    using assms by (simp add: uniq_add hashmap_get_None_iff) (simp add: hm_inv_alt)
  ultimately show "hm_inv (hashmap_add m k v z)"
    using hm_shape_push [OF s'] n size unfolding hm_inv_alt add size_push capacity_push by auto
qed


lemma chain_unlink_None: "chain_unlink ns k = None \<longleftrightarrow> (\<forall>n\<in>set ns. nkey n \<noteq> k)"
  by (induction ns) auto

lemma chain_unlink_Some:
  "chain_unlink ns k = Some ns' \<Longrightarrow> \<exists>n. nkey n = k \<and> mset ns = add_mset n (mset ns')"
  by (induction ns arbitrary: ns') (auto split: if_splits)

lemma hashmap_remove_absent: "hm_inv m \<Longrightarrow> hashmap_get m k = None \<Longrightarrow> hashmap_remove m k = m"
proof -
  assume m: "hm_inv m" and "hashmap_get m k = None"
  then have "\<forall>n\<in>set (buckets m ! hash k (capacity m)). nkey n \<noteq> k"
    by (simp add: hashmap_get_def chain_get_None)
  then show ?thesis by (simp add: hashmap_remove_def Let_def flip: chain_unlink_None)
qed

lemma hashmap_remove_present:
  assumes "hm_inv m" and "hashmap_get m k = Some v"
  shows "hm_inv (hashmap_remove m k)"
    and "\<exists>n. nkey n = k \<and> hm_nodes m = add_mset n (hm_nodes (hashmap_remove m k))"
proof -
  let ?i = "hash k (capacity m)"
  have s: "hm_shape m" and i: "?i < length (buckets m)"
    using assms(1) by (auto simp: hm_inv_def hm_shape_def hash_bound)
  obtain ns where ns: "chain_unlink (buckets m ! ?i) k = Some ns"
    using assms(2) chain_get_None [of "buckets m ! ?i" k] chain_unlink_None [of "buckets m ! ?i" k]
    by (cases "chain_unlink (buckets m ! ?i) k") (auto simp: hashmap_get_def)
  then obtain n where n: "nkey n = k" "mset (buckets m ! ?i) = add_mset n (mset ns)"
    using chain_unlink_Some by blast
  have r: "hashmap_remove m k = m\<lparr>buckets := (buckets m)[?i := ns], msize := msize m - 1\<rparr>"
    by (simp add: hashmap_remove_def Let_def ns)
  have nodes: "hm_nodes m = add_mset n (hm_nodes (hashmap_remove m k))"
    using mset_concat_update [OF i, of ns] n(2) by (simp add: r hm_nodes_def)
  then show "\<exists>n. nkey n = k \<and> hm_nodes m = add_mset n (hm_nodes (hashmap_remove m k))"
    using n(1) by blast
  have "set ns \<subseteq> set (buckets m ! ?i)" using n(2) by (metis set_mset_add_mset_insert set_mset_mset subset_insertI)
  then have "hm_shape (hashmap_remove m k)"
    using s i nodes by (auto simp: hm_shape_def r nth_list_update)
  moreover have "uniq (hm_nodes (hashmap_remove m k))"
    using assms(1) nodes by (simp add: hm_inv_alt uniq_add)
  ultimately show "hm_inv (hashmap_remove m k)"
    using assms(1) by (auto simp: hm_inv_alt r)
qed

lemma lookup_by_nodes:
  assumes "hm_inv m" and "hm_inv m'" and "hm_nodes m = add_mset n (hm_nodes m')"
  shows "hashmap_get m = (hashmap_get m')(nkey n \<mapsto> nvalue n)"
    and "hashmap_get m' = (hashmap_get m)(nkey n := None)"
proof -
  have u: "\<forall>n'\<in>#hm_nodes m'. nkey n' \<noteq> nkey n"
    using assms(1,3) by (simp add: hm_inv_alt uniq_add)
  show "hashmap_get m = (hashmap_get m')(nkey n \<mapsto> nvalue n)"
    using u by (intro ext get_ext) (auto simp: hashmap_get_Some_iff assms)
  show "hashmap_get m' = (hashmap_get m)(nkey n := None)"
    using u by (intro ext get_ext) (auto simp: hashmap_get_Some_iff assms)
qed

lemma hashmap_get_add:
  assumes "hm_inv m"
  shows "hashmap_get (hashmap_add m k v z) =
    (if hashmap_get m k = None then (hashmap_get m)(k \<mapsto> v) else hashmap_get m)"
  using hashmap_add_present [OF assms, of k v z] hashmap_add_absent [OF assms, of k v z]
    lookup_by_nodes(1) [OF _ assms, of "hashmap_add m k v z"] by auto

lemma hashmap_add_inv: "hm_inv m \<Longrightarrow> hm_inv (hashmap_add m k v z)"
  using hashmap_add_present [of m k v z] hashmap_add_absent(1) [of m k v z] by metis

lemma hashmap_get_remove:
  assumes "hm_inv m"
  shows "hashmap_get (hashmap_remove m k) = (hashmap_get m)(k := None)"
proof (cases "hashmap_get m k")
  case None
  then show ?thesis using hashmap_remove_absent [OF assms] by (metis fun_upd_triv)
next
  case (Some v)
  from hashmap_remove_present [OF assms this] lookup_by_nodes(2) [OF assms]
  show ?thesis by blast
qed

lemma hashmap_remove_inv: "hm_inv m \<Longrightarrow> hm_inv (hashmap_remove m k)"
  using hashmap_remove_absent [of m k] hashmap_remove_present(1) [of m k]
  by (cases "hashmap_get m k") auto

lemma dom_hashmap_get: "hm_inv m \<Longrightarrow> dom (hashmap_get m) = nkey ` set_mset (hm_nodes m)"
  by (auto simp: dom_def hashmap_get_Some_iff)

lemma uniq_card: "uniq M \<Longrightarrow> card (nkey ` set_mset M) = size M"
  by (induction M) (auto simp: uniq_add card_insert_if)

lemma hashmap_count: "hm_inv m \<Longrightarrow> msize m = card (dom (hashmap_get m))"
  by (simp add: dom_hashmap_get uniq_card hm_inv_alt) (simp add: hm_shape_def)


lemma hashmap_contains_get: "hm_inv m \<Longrightarrow> hashmap_contains m k \<longleftrightarrow> hashmap_get m k \<noteq> None"
  by (auto simp: hashmap_contains_iff hm_inv_shape hashmap_get_None_iff)

lemma rehash_inv: "hm_inv m \<Longrightarrow> hm_inv (hashmap_rehash m)"
proof -
  assume m: "hm_inv m"
  then have s: "hm_shape m" by (rule hm_inv_shape)
  obtain j where "capacity m = INITIAL_CAPACITY * 2 ^ j" using m by (auto simp: hm_inv_def)
  then have "capacity (hashmap_rehash m) = INITIAL_CAPACITY * 2 ^ Suc j"
    using rehash_spec(3) [OF s] by simp
  moreover have "msize (hashmap_rehash m) = msize m"
    using rehash_spec [OF s] s by (simp add: hm_shape_def)
  ultimately show ?thesis
    using m rehash_spec [OF s] by (auto simp: hm_inv_alt simp del: power_Suc)
qed

lemma rehash_lookup: "hm_inv m \<Longrightarrow> hashmap_get (hashmap_rehash m) = hashmap_get m"
  using rehash_spec(2) [of m] rehash_inv [of m]
  by (intro ext get_ext) (simp add: hashmap_get_Some_iff hm_inv_shape)

section \<open>The interface\<close>

text \<open>
  A map whose insertion never overwrites: the first value stored under a key stays until
  the key is deleted. \<open>map_op\<close> is a client's call, \<open>run_ops\<close> a sequence of them on an
  implementation, \<open>spec_ops\<close> the same sequence on the abstract map.
\<close>

datatype 'v map_op = Put string 'v | Drop string

fun run_ops :: "('m \<Rightarrow> string \<Rightarrow> 'v \<Rightarrow> 'm) \<Rightarrow> ('m \<Rightarrow> string \<Rightarrow> 'm) \<Rightarrow> 'v map_op list \<Rightarrow> 'm \<Rightarrow> 'm" where
  "run_ops ins del [] m = m"
| "run_ops ins del (Put k v # ops) m = run_ops ins del ops (ins m k v)"
| "run_ops ins del (Drop k # ops) m = run_ops ins del ops (del m k)"

fun spec_ops :: "'v map_op list \<Rightarrow> (string \<rightharpoonup> 'v) \<Rightarrow> (string \<rightharpoonup> 'v)" where
  "spec_ops [] f = f"
| "spec_ops (Put k v # ops) f = spec_ops ops (if f k = None then f(k \<mapsto> v) else f)"
| "spec_ops (Drop k # ops) f = spec_ops ops (f(k := None))"

locale put_once_map =
  fixes empty_map :: "'m"
    and put :: "'m \<Rightarrow> string \<Rightarrow> 'v \<Rightarrow> 'm"
    and drop_key :: "'m \<Rightarrow> string \<Rightarrow> 'm"
    and look :: "'m \<Rightarrow> string \<Rightarrow> 'v option"
    and has :: "'m \<Rightarrow> string \<Rightarrow> bool"
    and invar :: "'m \<Rightarrow> bool"
  assumes look_empty: "look empty_map = (\<lambda>_. None)"
    and look_put: "invar m \<Longrightarrow>
      look (put m k v) = (if look m k = None then (look m)(k \<mapsto> v) else look m)"
    and look_drop: "invar m \<Longrightarrow> look (drop_key m k) = (look m)(k := None)"
    and has_look: "invar m \<Longrightarrow> has m k \<longleftrightarrow> look m k \<noteq> None"
    and invar_empty: "invar empty_map"
    and invar_put: "invar m \<Longrightarrow> invar (put m k v)"
    and invar_drop: "invar m \<Longrightarrow> invar (drop_key m k)"
begin

lemma run_invar: "invar m \<Longrightarrow> invar (run_ops put drop_key ops m)"
proof (induction ops arbitrary: m)
  case (Cons a ops)
  then show ?case by (cases a) (simp_all add: invar_put invar_drop)
qed simp

lemma run_look: "invar m \<Longrightarrow> look (run_ops put drop_key ops m) = spec_ops ops (look m)"
proof (induction ops arbitrary: m)
  case (Cons a ops)
  then show ?case by (cases a) (simp_all add: invar_put invar_drop look_put look_drop fun_upd_def)
qed simp

lemma run_from_empty: "look (run_ops put drop_key ops empty_map) = spec_ops ops (\<lambda>_. None)"
  by (simp add: run_look invar_empty look_empty)

lemma refresh: "invar m \<Longrightarrow> look (put (drop_key m k) k v) = (look m)(k \<mapsto> v)"
  by (simp add: look_put look_drop invar_drop)

lemma put_keeps: "invar m \<Longrightarrow> look m k = Some v \<Longrightarrow> look (put m k' v') k = Some v"
  by (auto simp: look_put)

end

locale counted_map = put_once_map +
  fixes count :: "'a \<Rightarrow> nat"
  assumes count_card: "invar m \<Longrightarrow> count m = card (dom (look m))"
begin

lemma run_count:
  "count (run_ops put drop_key ops empty_map) = card (dom (spec_ops ops (\<lambda>_. None)))"
  by (simp add: count_card run_invar invar_empty run_from_empty)

end

interpretation hm: counted_map hashmap_create "\<lambda>m k v. hashmap_add m k v z"
    hashmap_remove hashmap_get hashmap_contains hm_inv msize for z
  by unfold_locales
     (simp_all add: hashmap_get_create hashmap_get_add hashmap_get_remove hashmap_contains_get
       hashmap_create_inv hashmap_add_inv hashmap_remove_inv hashmap_count)

lemmas hashmap_laws = hashmap_get_create hashmap_get_add hashmap_get_remove
  hashmap_create_inv hashmap_add_inv hashmap_remove_inv

section \<open>The allocations\<close>

lemma safe_alloc_cases:
  "safe_malloc m = (case m of [] \<Rightarrow> Inr [] | True # m' \<Rightarrow> Inr m' | False # m' \<Rightarrow> Inl Exited)"
  "safe_calloc m = (case m of [] \<Rightarrow> Inr [] | True # m' \<Rightarrow> Inr m' | False # m' \<Rightarrow> Inl Exited)"
  "safe_strdup s m = (case m of [] \<Rightarrow> Inr (s, []) | True # m' \<Rightarrow> Inr (s, m') | False # m' \<Rightarrow> Inl Exited)"
  by (auto simp: safe_malloc_def safe_calloc_def safe_strdup_def malloc_ok_def split: list.split bool.split)

text \<open>An operation with its allocations does what it does without them, or ends the process.\<close>

lemma hashmap_create_mem_cases:
  "case hashmap_create_mem m of Inl u \<Rightarrow> u = Exited \<and> m \<noteq> []
   | Inr (hm, m') \<Rightarrow> hm = hashmap_create \<and> (m = [] \<longrightarrow> m' = [])"
  by (simp add: hashmap_create_mem_def safe_alloc_cases split: list.split bool.split)

lemma hashmap_add_mem_cases:
  "case hashmap_add_mem hm key v n m of Inl u \<Rightarrow> u = Exited \<and> m \<noteq> []
   | Inr (hm', m') \<Rightarrow> hm' = hashmap_add hm key v n \<and> (m = [] \<longrightarrow> m' = [])"
  by (simp add: hashmap_add_mem_def hashmap_add_def hashmap_rehash_mem_def safe_alloc_cases Let_def
      split: list.split bool.split)

lemma hashmap_mem_Inr:
  "hashmap_create_mem m = Inr (hm1, m1) \<Longrightarrow> hm1 = hashmap_create \<and> (m = [] \<longrightarrow> m1 = [])"
  "hashmap_add_mem hm key v n m = Inr (hm2, m2) \<Longrightarrow> hm2 = hashmap_add hm key v n \<and> (m = [] \<longrightarrow> m2 = [])"
  using hashmap_add_mem_cases [where hm = hm and key = key and v = v and n = n and m = m]
  by (auto simp: hashmap_create_mem_def safe_alloc_cases split: list.splits bool.splits)

lemma hashmap_mem_Nil [simp]:
  "hashmap_create_mem [] = Inr (hashmap_create, [])"
  "hashmap_add_mem hm key value n [] = Inr (hashmap_add hm key value n, [])"
  by (simp_all add: hashmap_create_mem_def hashmap_add_mem_def hashmap_add_def hashmap_rehash_mem_def safe_alloc_cases Let_def)

text \<open>A sequence of calls with their allocations, and the same calls without.\<close>

fun run_mem :: "nat \<Rightarrow> 'v map_op list \<Rightarrow> 'v hashmap \<times> mem \<Rightarrow> ('v hashmap \<times> mem) result" where
  "run_mem z [] x = Inr x"
| "run_mem z (Put k v # ops) x = bindR (hashmap_add_mem (fst x) k v z (snd x)) (run_mem z ops)"
| "run_mem z (Drop k # ops) x = run_mem z ops (hashmap_remove (fst x) k, snd x)"

lemma run_mem_cases:
  "case run_mem z ops (hm, m) of Inl u \<Rightarrow> u = Exited \<and> m \<noteq> []
   | Inr (hm', m') \<Rightarrow> hm' = run_ops (\<lambda>m k v. hashmap_add m k v z) hashmap_remove ops hm"
proof (induction z ops "(hm, m)" arbitrary: hm m rule: run_mem.induct)
  case (2 z k v ops)
  note add = hashmap_add_mem_cases [where hm = hm and key = k and v = v and n = z and m = m]
  show ?case
  proof (cases "hashmap_add_mem hm k v z m")
    case (Inr x)
    then obtain m1 where "x = (hashmap_add hm k v z, m1)" "m = [] \<longrightarrow> m1 = []" using add by (cases x) auto
    then show ?thesis using "2.hyps" [of m1 "hashmap_add hm k v z"] Inr by (auto split: sum.splits)
  qed (use add in simp)
qed (auto split: sum.splits)

section \<open>Properties\<close>

text \<open>
  C18: whatever sequence of \<open>hashmap_add\<close> and \<open>hashmap_remove\<close> runs on a fresh map, across
  any number of rehashes, \<open>hashmap_get\<close> then answers as the abstract map does in which an
  insertion never overwrites a key that is present and a removal deletes it; unless an
  allocation failed, which ends the process.
\<close>

theorem hashmap_refines_map:
  "case bindR (hashmap_create_mem m) (run_mem z ops) of
     Inl u \<Rightarrow> u = Exited \<and> m \<noteq> []
   | Inr (hm, m') \<Rightarrow> hashmap_get hm = spec_ops ops (\<lambda>_. None)"
proof (cases "hashmap_create_mem m :: ('a hashmap \<times> mem) result")
  case (Inl u)
  then show ?thesis using hashmap_create_mem_cases [where ?'a = 'a and m = m] by simp
next
  case (Inr x)
  then obtain m1 where x: "x = (hashmap_create, m1)" "m = [] \<longrightarrow> m1 = []" using hashmap_mem_Inr(1) by (cases x) blast
  show ?thesis
    using run_mem_cases [where z = z and ops = ops and hm = hashmap_create and m = m1] hm.run_from_empty x
    by (auto simp: Inr split: sum.splits)
qed

text \<open>
  After any such sequence every node is in the chain its key hashes to, no key occurs
  twice, the load factor is at most 0.75, the capacity is 8 times a power of two, and
  \<open>size\<close> is the number of keys present.
\<close>

theorem hashmap_run_invariant:
  "hm_inv (run_ops (\<lambda>m k v. hashmap_add m k v z) hashmap_remove ops hashmap_create)
   \<and> msize (run_ops (\<lambda>m k v. hashmap_add m k v z) hashmap_remove ops hashmap_create)
       = card (dom (spec_ops ops (\<lambda>_ :: string. None :: 'v option)))"
  by (intro conjI hm.run_invar hm.invar_empty hm.run_count)

text \<open>
  \<open>hashmap_rehash\<close> doubles the capacity and keeps the invariant, the number of keys and
  the answer of every lookup.
\<close>

theorem hashmap_rehash_preserves:
  "hm_inv m \<Longrightarrow> hashmap_get (hashmap_rehash m) = hashmap_get m \<and> hm_inv (hashmap_rehash m)
     \<and> capacity (hashmap_rehash m) = 2 * capacity m \<and> msize (hashmap_rehash m) = msize m"
  using rehash_spec(2) [of m] rehash_inv [of m]
  by (simp add: rehash_lookup rehash_spec(3) hm_inv_shape) (simp add: hm_inv_def hm_shape_def)

theorem hashmap_rehash_preserves_witness:
  "let m = hashmap_add hashmap_create ''ab'' (7 :: int) 8 in
     hashmap_get (hashmap_rehash m) ''ab'' = Some 7 \<and> capacity (hashmap_rehash m) = 16"
proof -
  let ?m = "hashmap_add hashmap_create ''ab'' (7 :: int) 8"
  have "hm_inv ?m" by (simp add: hashmap_laws)
  from hashmap_rehash_preserves [OF this] have
    "hashmap_get (hashmap_rehash ?m) ''ab'' = hashmap_get ?m ''ab''"
    "capacity (hashmap_rehash ?m) = 2 * capacity ?m" by simp_all
  moreover have "hashmap_get ?m ''ab'' = Some 7" by (simp add: hashmap_laws)
  moreover have "capacity ?m = 8"
    by (simp add: hashmap_add_def over_loaded_def hashmap_create_def INITIAL_CAPACITY_def Let_def)
  ultimately show ?thesis by simp
qed

end
