(* ===== verification/Auth.thy ===== *)
theory Auth
  imports Database Hashmap
begin

text \<open>
  Proxy authentication, \<open>src/main/auth.c\<close>: the token is cut out of the request text, looked
  up in the cache of tokens accepted during the last hour, and otherwise decoded and
  compared with the password stored in the database. A request is the C string in the
  request buffer.
\<close>

definition CACHE_TTL :: int where
  "CACHE_TTL = 3600"

section \<open>State\<close>

text \<open>
  What the handler reads and writes: the coming outcomes of \<open>malloc\<close>, the static cache
  pointer \<open>map\<close> (\<open>None\<close> before the first call), the database connection and the clock.
\<close>

record 's auth_state =
  allocs :: mem
  auth_cache :: "int hashmap option"
  db_conn :: 's
  now :: int

section \<open>The token and the credentials\<close>

text \<open>The bytes \<open>extract_basic_auth_b64\<close> copies, if the request has a token.\<close>

definition basic_auth_bytes :: "string \<Rightarrow> string option" where
  "basic_auth_bytes request =
     (let auth_header =
        (case strstr request ''Proxy-Authorization:'' of
           Some p \<Rightarrow> Some (drop (length ''Proxy-Authorization:'') p)
         | None \<Rightarrow>
             (case strstr request ''Authorization:'' of
                Some p \<Rightarrow> Some (drop (length ''Authorization:'') p)
              | None \<Rightarrow> None))
      in case auth_header of
           None \<Rightarrow> None
         | Some h \<Rightarrow>
             (let h = dropWhile isspace h in
              if \<not> starts_with ''Basic '' h then None
              else
                (let b64_start = drop 6 h;
                     the_end = (case strstr b64_start [CR, LF] of
                         Some e \<Rightarrow> e
                       | None \<Rightarrow> (case strchr b64_start LF of Some e \<Rightarrow> e | None \<Rightarrow> []));
                     len = length b64_start - length the_end
                 in Some (take len b64_start))))"

definition extract_basic_auth_b64 :: "string \<Rightarrow> mem \<Rightarrow> string option \<times> mem" where
  "extract_basic_auth_b64 request m =
     (case basic_auth_bytes request of
        None \<Rightarrow> (None, m)
      | Some bytes \<Rightarrow> (let (ok, m) = malloc_ok m in if \<not> ok then (None, m) else (Some bytes, m)))"

definition get_user_from_b64 :: "string \<Rightarrow> mem \<Rightarrow> (user option \<times> mem) result" where
  "get_user_from_b64 base64 m =
     bindR (base64_decode base64 m) (\<lambda>(decoded, m).
       (case decoded of
          None \<Rightarrow> Inr (None, m)
        | Some d \<Rightarrow>
            (let (ok_u, m) = malloc_ok m;
                 (ok_p, m) = malloc_ok m
             in if \<not> ok_u \<or> \<not> ok_p then Inr (None, m)
                else
                  (case sscanf_colon_pair (cstr d) of
                     [u, p] \<Rightarrow>
                       (let (ok, m) = malloc_ok m in
                        if \<not> ok then Inr (None, m)
                        else Inr (Some \<lparr>username = u, password = p\<rparr>, m))
                   | _ \<Rightarrow> Inr (None, m)))))"

section \<open>The check\<close>

text \<open>The part after the cache: decode, query, compare, remember.\<close>

definition check_database ::
    "'s mysql \<Rightarrow> string \<Rightarrow> int hashmap \<Rightarrow> ('s, 'z) auth_state_scheme
     \<Rightarrow> (bool \<times> ('s, 'z) auth_state_scheme) result" where
  "check_database my auth_b64 hm st =
     bindR (get_user_from_b64 auth_b64 (allocs st)) (\<lambda>(request_user, m).
       (case request_user of
          None \<Rightarrow> Inr (False, st\<lparr>allocs := m\<rparr>)
        | Some ru \<Rightarrow>
            (let (query, m) = db_user_get (username ru) m in
             case query of
               None \<Rightarrow> Inr (False, st\<lparr>allocs := m\<rparr>)
             | Some q \<Rightarrow>
                 (let (res, conn) = db_execute my (db_conn st) q;
                      st = st\<lparr>db_conn := conn\<rparr>
                  in if res = DbNull \<or> res = DbDone then Inr (False, st\<lparr>allocs := m\<rparr>)
                     else
                       bindR (db_user_get_from_result res m) (\<lambda>(valid_user, m).
                         (case valid_user of
                            None \<Rightarrow> Inr (False, st\<lparr>allocs := m\<rparr>)
                          | Some vu \<Rightarrow>
                              (let valid = (password ru = password vu);
                                   cache = (if valid
                                     then hashmap_add_mem hm auth_b64 (now st + CACHE_TTL) 8 m
                                     else Inr (hm, m))
                               in bindR cache (\<lambda>(hm, m).
                                    Inr (valid, st\<lparr>allocs := m, auth_cache := Some hm\<rparr>)))))))))"

text \<open>\<open>if (!map) map = hashmap_create();\<close> for the static \<open>map\<close>, and the rest of the function.\<close>

definition static_map :: "('s, 'z) auth_state_scheme \<Rightarrow> (int hashmap \<times> ('s, 'z) auth_state_scheme) result" where
  "static_map st =
     (case auth_cache st of
        None \<Rightarrow> bindR (hashmap_create_mem (allocs st)) (\<lambda>(hm, m). Inr (hm, st\<lparr>auth_cache := Some hm, allocs := m\<rparr>))
      | Some hm \<Rightarrow> Inr (hm, st))"

definition check_request ::
    "'s mysql \<Rightarrow> string \<Rightarrow> int hashmap \<Rightarrow> ('s, 'z) auth_state_scheme
     \<Rightarrow> (bool \<times> ('s, 'z) auth_state_scheme) result" where
  "check_request my request hm st =
     (let (auth_b64, m) = extract_basic_auth_b64 request (allocs st);
          st = st\<lparr>allocs := m\<rparr>
      in case auth_b64 of
           None \<Rightarrow> Inr (False, st)
         | Some token \<Rightarrow>
             (case hashmap_get hm token of
                Some ttl \<Rightarrow>
                  if ttl > now st then Inr (True, st)
                  else
                    (let hm = hashmap_remove hm token
                     in check_database my token hm (st\<lparr>auth_cache := Some hm\<rparr>))
              | None \<Rightarrow> check_database my token hm st))"

definition has_valid_auth ::
    "'s mysql \<Rightarrow> string \<Rightarrow> ('s, 'z) auth_state_scheme
     \<Rightarrow> (bool \<times> ('s, 'z) auth_state_scheme) result" where
  "has_valid_auth my request st = bindR (static_map st) (\<lambda>(hm, st). check_request my request hm st)"

section \<open>The token\<close>

definition basic_header :: string where
  "basic_header = ''Proxy-Authorization: Basic ''"

lemma extract_token:
  assumes "pre = [] \<or> last pre = LF" and "\<not> sublist ''Proxy-Authorization:'' pre"
    and "CR \<notin> set tok"
  shows "basic_auth_bytes (pre @ basic_header @ tok @ CR # LF # rest) = Some tok"
proof -
  let ?t = "basic_header @ tok @ CR # LF # rest"
  have "strstr (pre @ ?t) ''Proxy-Authorization:'' = Some ?t"
    using assms by (intro strstr_header) (auto simp: basic_header_def)
  moreover have "drop (length ''Proxy-Authorization:'') ?t = '' Basic '' @ tok @ CR # LF # rest"
    by (simp add: basic_header_def)
  ultimately show ?thesis
    using strstr_crlf [OF assms(3), of rest]
    by (simp add: basic_auth_bytes_def isspace_def starts_with_def)
qed

text \<open>A failed allocation can only make the answers negative.\<close>

lemma extract_SomeD: "extract_basic_auth_b64 r m = (Some tok, m') \<Longrightarrow> basic_auth_bytes r = Some tok"
  by (auto simp: extract_basic_auth_b64_def split: option.splits prod.splits if_splits)

lemma extract_Nil [simp]: "extract_basic_auth_b64 r [] = (basic_auth_bytes r, [])"
  by (simp add: extract_basic_auth_b64_def split: option.split)

lemma decode_allocs: "base64_decode s m = Inr (Some d, m') \<Longrightarrow> base64_decode s [] = Inr (Some d, [])"
  by (auto simp: base64_decode_def Let_def res_simps split: prod.splits if_splits)

lemma get_user_SomeD:
  assumes "get_user_from_b64 s m = Inr (Some u, m')"
  shows "\<exists>d. base64_decode s [] = Inr (Some d, []) \<and> sscanf_colon_pair (cstr d) = [username u, password u]"
proof -
  from assms obtain d m1 where d: "base64_decode s m = Inr (Some d, m1)"
    by (auto simp: get_user_from_b64_def bindR_eq_Inr split: option.splits)
  have "sscanf_colon_pair (cstr d) = [username u, password u]"
  proof (cases "sscanf_colon_pair (cstr d)" rule: remdups_adj.cases)
    case 1
    then show ?thesis using assms by (simp add: get_user_from_b64_def d split: prod.splits if_splits)
  next
    case (2 x)
    then show ?thesis using assms by (simp add: get_user_from_b64_def d split: prod.splits if_splits)
  next
    case (3 x y xs)
    then show ?thesis using assms
      by (cases xs) (auto simp: get_user_from_b64_def d split: prod.splits if_splits)
  qed
  then show ?thesis using decode_allocs [OF d] by blast
qed

lemma get_user_Nil:
  "base64_decode s [] = Inr (Some d, []) \<Longrightarrow> sscanf_colon_pair (cstr d) = [a, b] \<Longrightarrow>
    get_user_from_b64 s [] = Inr (Some \<lparr>username = a, password = b\<rparr>, [])"
  by (simp add: get_user_from_b64_def)

lemma get_user_allocs: "get_user_from_b64 s m = Inr (Some u, m') \<Longrightarrow> get_user_from_b64 s [] = Inr (Some u, [])"
  using get_user_SomeD [of s m u m'] by (auto simp: get_user_Nil)

section \<open>The credentials\<close>

definition cred_ok :: "string \<Rightarrow> string \<Rightarrow> bool" where
  "cred_ok u p \<longleftrightarrow> c_string u \<and> c_string p \<and> u \<noteq> [] \<and> p \<noteq> [] \<and> length u \<le> 255 \<and> length p \<le> 255
     \<and> CHR '':'' \<notin> set u \<and> list_all (\<lambda>c. \<not> isspace c) p"

lemma sscanf_pair: "cred_ok u p \<Longrightarrow> sscanf_colon_pair (u @ CHR '':'' # p) = [u, p]"
proof -
  assume ok: "cred_ok u p"
  then have "takeWhile (\<lambda>c. c \<noteq> CHR '':'') (u @ CHR '':'' # p) = u"
    by (intro takeWhile_append_stop) (auto simp: cred_ok_def)
  moreover have "dropWhile isspace p = p" "takeWhile (\<lambda>x. \<not> isspace x) p = p"
    using ok by (cases p; auto simp: cred_ok_def list_all_iff)+
  ultimately show ?thesis using ok by (simp add: sscanf_colon_pair_def Let_def cred_ok_def)
qed

lemma get_user_rfc4648:
  assumes "cred_ok u p"
  shows "get_user_from_b64 (rfc4648 (u @ CHR '':'' # p)) [] =
    (if length (u @ CHR '':'' # p) mod 3 = 1 then Inl HeapOverflow
     else Inr (Some \<lparr>username = u, password = p\<rparr>, []))"
proof -
  have "c_string (u @ CHR '':'' # p)" using assms by (simp add: cred_ok_def)
  then show ?thesis
    unfolding get_user_from_b64_def decode_standard using sscanf_pair [OF assms]
    by (simp del: length_append)
qed
section \<open>What is decided\<close>

definition creds_of :: "string \<Rightarrow> (string \<times> string) option" where
  "creds_of tok = (case get_user_from_b64 tok [] of
       Inr (Some u, _) \<Rightarrow> Some (username u, password u) | _ \<Rightarrow> None)"

definition user_query :: "string \<Rightarrow> string" where
  "user_query name = snprintf_buf 1024
     (''SELECT username, password FROM `'' @ TABLE_NAME @ ''` WHERE username = '' @ [QUOTE] @ name @
      [QUOTE] @ '' LIMIT 1;'')"

text \<open>The password column of the first row the database answers for a user name.\<close>

definition db_password :: "'s mysql \<Rightarrow> 's \<Rightarrow> string \<Rightarrow> string option" where
  "db_password my conn name =
     (case fst (db_execute my conn (user_query name)) of
        DbRows ((Some u # Some p # cols) # rows) \<Rightarrow> Some p
      | _ \<Rightarrow> None)"

text \<open>The map that is used, and the rest of the function run on it.\<close>

definition cache_map :: "('s, 'z) auth_state_scheme \<Rightarrow> int hashmap" where
  "cache_map st = (case auth_cache st of None \<Rightarrow> hashmap_create | Some hm \<Rightarrow> hm)"

definition auth_rest ::
    "'s mysql \<Rightarrow> string \<Rightarrow> ('s, 'z) auth_state_scheme \<Rightarrow> (bool \<times> ('s, 'z) auth_state_scheme) result" where
  "auth_rest my request st = check_request my request (cache_map st) (st\<lparr>auth_cache := Some (cache_map st)\<rparr>)"

lemmas auth_rest_defs = auth_rest_def check_request_def

definition cached :: "('s, 'z) auth_state_scheme \<Rightarrow> string \<Rightarrow> bool" where
  "cached st tok = (case hashmap_get (cache_map st) tok of None \<Rightarrow> False | Some ttl \<Rightarrow> now st < ttl)"

definition cache_inv :: "('s, 'z) auth_state_scheme \<Rightarrow> bool" where
  "cache_inv st = hm_inv (cache_map st)"

lemma cache_map_update [simp]: "auth_cache st = Some hm \<Longrightarrow> cache_map st = hm"
  by (simp add: cache_map_def)

lemma db_user_get_query: "db_user_get name m = (Some q, m') \<Longrightarrow> q = user_query name"
  by (auto simp: db_user_get_def user_query_def Let_def split: prod.splits if_splits)

lemma db_user_get_Nil [simp]: "db_user_get name [] = (Some (user_query name), [])"
  by (simp add: db_user_get_def user_query_def)

lemma from_result_SomeD:
  assumes "db_user_get_from_result res m = Inr (Some vu, m')"
  shows "\<exists>u cols rows. res = DbRows ((Some u # Some (password vu) # cols) # rows)"
proof -
  obtain row rows where res: "res = DbRows (row # rows)"
    using assms by (auto simp: db_user_get_from_result_def split: db_result.splits list.splits)
  obtain u p cols where row: "row = u # p # cols"
    using assms by (cases row rule: remdups_adj.cases)
      (auto simp: db_user_get_from_result_def res row_col_def)
  show ?thesis
    using assms unfolding res row
    by (auto simp: db_user_get_from_result_def row_col_def split: option.splits prod.splits if_splits)
qed

lemma from_result_Nil:
  "db_user_get_from_result (DbRows ((Some u # Some p # cols) # rows)) [] =
    Inr (Some \<lparr>username = u, password = p\<rparr>, [])"
  by (simp add: db_user_get_from_result_def row_col_def)

lemma check_database_True:
  assumes "check_database my tok hm st = Inr (True, st')"
  shows "\<exists>u p conn m. creds_of tok = Some (u, p) \<and> db_password my (db_conn st) u = Some p \<and>
    st' = st\<lparr>db_conn := conn, allocs := m,
             auth_cache := Some (hashmap_add hm tok (now st + CACHE_TTL) 8)\<rparr>"
proof -
  obtain ru m1 where ru: "get_user_from_b64 tok (allocs st) = Inr (Some ru, m1)"
    using assms by (auto simp: check_database_def bindR_eq_Inr split: option.splits)
  obtain q m2 where q: "db_user_get (username ru) m1 = (Some q, m2)"
    using assms by (auto simp: check_database_def ru split: option.splits prod.splits)
  obtain res conn where res: "db_execute my (db_conn st) q = (res, conn)" by fastforce
  obtain vu m3 where vu: "db_user_get_from_result res m2 = Inr (Some vu, m3)"
    using assms by (auto simp: check_database_def ru q res bindR_eq_Inr Let_def split: option.splits if_splits)
  have eq: "password ru = password vu" and "\<exists>m. st' = st\<lparr>db_conn := conn, allocs := m,
      auth_cache := Some (hashmap_add hm tok (now st + CACHE_TTL) 8)\<rparr>"
    using assms by (auto simp: check_database_def ru q res vu Let_def bindR_eq_Inr dest!: hashmap_mem_Inr(2) split: if_splits)
  then obtain m4 where st': "st' = st\<lparr>db_conn := conn, allocs := m4,
      auth_cache := Some (hashmap_add hm tok (now st + CACHE_TTL) 8)\<rparr>" by blast
  have "creds_of tok = Some (username ru, password ru)"
    using get_user_allocs [OF ru] by (simp add: creds_of_def)
  moreover have "db_password my (db_conn st) (username ru) = Some (password ru)"
    using from_result_SomeD [OF vu] res eq db_user_get_query [OF q] by (auto simp: db_password_def)
  ultimately show ?thesis using st' by blast
qed

lemma creds_SomeD: "creds_of tok = Some (u, p) \<Longrightarrow>
   get_user_from_b64 tok [] = Inr (Some \<lparr>username = u, password = p\<rparr>, [])"
proof -
  assume "creds_of tok = Some (u, p)"
  then obtain ru m where "get_user_from_b64 tok [] = Inr (Some ru, m)" "username ru = u" "password ru = p"
    by (auto simp: creds_of_def split: sum.splits prod.splits option.splits)
  then show ?thesis using get_user_allocs [of tok "[]" ru m] by auto
qed

lemma db_password_SomeD:
  assumes "db_password my conn n = Some p"
  obtains u cols rows conn' where
    "db_execute my conn (user_query n) = (DbRows ((Some u # Some p # cols) # rows), conn')"
proof -
  obtain res conn' where r: "db_execute my conn (user_query n) = (res, conn')" by fastforce
  with assms have "\<exists>u cols rows. res = DbRows ((Some u # Some p # cols) # rows)"
    by (auto simp: db_password_def split: db_result.splits list.splits option.splits)
  with r that show thesis by blast
qed

lemma check_database_accepts:
  assumes "allocs st = []" and "creds_of tok = Some (u, p)"
    and "db_password my (db_conn st) u = Some p"
  shows "\<exists>conn. check_database my tok hm st = Inr (True, st\<lparr>db_conn := conn, allocs := [],
    auth_cache := Some (hashmap_add hm tok (now st + CACHE_TTL) 8)\<rparr>)"
proof -
  obtain n cols rows conn where
    "db_execute my (db_conn st) (user_query u) = (DbRows ((Some n # Some p # cols) # rows), conn)"
    using db_password_SomeD [OF assms(3)] .
  then have "check_database my tok hm st = Inr (True, st\<lparr>db_conn := conn, allocs := [],
    auth_cache := Some (hashmap_add hm tok (now st + CACHE_TTL) 8)\<rparr>)"
    using creds_SomeD [OF assms(2)] assms(1) by (simp add: check_database_def from_result_Nil Let_def)
  then show ?thesis by blast
qed

lemma auth_cache_upd_idem: "auth_cache st = Some hm \<Longrightarrow> st\<lparr>auth_cache := Some hm\<rparr> = st"
  by (cases st) simp

lemma auth_rest_True:
  assumes "auth_rest my req st = Inr (True, st')"
  shows "\<exists>tok. basic_auth_bytes req = Some tok \<and>
    (cached st tok \<or> (\<exists>u p. creds_of tok = Some (u, p) \<and> db_password my (db_conn st) u = Some p))"
proof -
  obtain tok m where tok: "extract_basic_auth_b64 req (allocs st) = (Some tok, m)"
    using assms by (auto simp: auth_rest_defs Let_def split: prod.splits option.splits)
  show ?thesis
  proof (cases "cached st tok")
    case True
    then show ?thesis using extract_SomeD [OF tok] by blast
  next
    case False
    then obtain hm st1 where "check_database my tok hm st1 = Inr (True, st')" "db_conn st1 = db_conn st"
      using assms that
      by (auto simp: auth_rest_defs tok cached_def Let_def
          split: option.splits if_splits)
    then show ?thesis using check_database_True extract_SomeD [OF tok] by metis
  qed
qed

lemma auth_rest_accepts:
  assumes "allocs st = []" and "basic_auth_bytes req = Some tok"
    and "cached st tok \<or> (\<exists>u p. creds_of tok = Some (u, p) \<and> db_password my (db_conn st) u = Some p)"
  shows "\<exists>st'. auth_rest my req st = Inr (True, st')"
proof (cases "cached st tok")
  case True
  then show ?thesis
    using assms(1,2) by (auto simp: auth_rest_defs cached_def split: option.splits)
next
  case False
  with assms(3) obtain u p where "creds_of tok = Some (u, p)" "db_password my (db_conn st) u = Some p"
    by blast
  then have acc: "\<exists>s'. check_database my tok hm s = Inr (True, s')"
    if "allocs s = []" "db_conn s = db_conn st" for hm s
    using check_database_accepts [of s tok u p my hm] that by auto
  show ?thesis
    using assms(1,2) False
    by (auto simp: auth_rest_defs cached_def Let_def intro!: acc split: option.splits)
qed
section \<open>What the check changes\<close>

definition auth_frame :: "('s, 'z) auth_state_scheme \<Rightarrow> ('s, 'z) auth_state_scheme \<Rightarrow> bool" where
  "auth_frame st st' \<longleftrightarrow> now st' = now st \<and> auth_state.more st' = auth_state.more st"

lemma auth_frame_simps [simp]:
  "auth_frame st st"
  "auth_frame st (st'\<lparr>allocs := m\<rparr>) = auth_frame st st'"
  "auth_frame st (st'\<lparr>db_conn := d\<rparr>) = auth_frame st st'"
  "auth_frame st (st'\<lparr>auth_cache := c\<rparr>) = auth_frame st st'"
  "auth_frame (st\<lparr>allocs := m\<rparr>) st' = auth_frame st st'"
  "auth_frame (st\<lparr>auth_cache := c\<rparr>) st' = auth_frame st st'"
  by (simp_all add: auth_frame_def)

lemma check_database_cases:
  assumes "check_database my tok hm st = Inr (b, st')"
  shows "auth_frame st st' \<and>
    (auth_cache st' \<in> {auth_cache st, Some hm} \<or> b \<and> auth_cache st' = Some (hashmap_add hm tok (now st + CACHE_TTL) 8))"
proof -
  obtain ru m1 where ru: "get_user_from_b64 tok (allocs st) = Inr (ru, m1)"
    using assms by (auto simp: check_database_def bindR_eq_Inr)
  show ?thesis
  proof (cases ru)
    case None
    then show ?thesis using assms by (auto simp: check_database_def ru)
  next
    case (Some u)
    obtain q m2 where q: "db_user_get (username u) m1 = (q, m2)" by fastforce
    show ?thesis
    proof (cases q)
      case None
      then show ?thesis using assms by (auto simp: check_database_def ru Some q)
    next
      case (Some t)
      obtain res conn where "db_execute my (db_conn st) t = (res, conn)" by fastforce
      note defs = check_database_def ru \<open>ru = _\<close> q Some this Let_def
      show ?thesis
      proof (cases "res = DbNull \<or> res = DbDone")
        case False
        then obtain vu m3 where vu: "db_user_get_from_result res m2 = Inr (vu, m3)"
          using assms by (auto simp: defs bindR_eq_Inr)
        show ?thesis
        proof (cases "\<exists>v. vu = Some v \<and> password u = password v")
          case True
          then show ?thesis using assms False by (auto simp: defs vu bindR_eq_Inr dest!: hashmap_mem_Inr(2))
        qed (use assms False in \<open>auto simp: defs vu split: option.splits\<close>)
      qed (use assms in \<open>auto simp: defs\<close>)
    qed
  qed
qed

text \<open>The cache without a dead entry for the token, and the path taken on a cache miss.\<close>

definition purged :: "('s, 'z) auth_state_scheme \<Rightarrow> string \<Rightarrow> int hashmap" where
  "purged st tok = (if hashmap_get (cache_map st) tok = None then cache_map st
     else hashmap_remove (cache_map st) tok)"

lemma auth_rest_miss:
  assumes tok: "extract_basic_auth_b64 req (allocs st) = (Some tok, m)" and "\<not> cached st tok"
  obtains s where "auth_frame st s" and "auth_cache s = Some (purged st tok)"
    and "db_conn s = db_conn st" and "allocs s = m"
    and "auth_rest my req st = check_database my tok (purged st tok) s"
proof (cases "hashmap_get (cache_map st) tok")
  case None
  then show thesis
    by (intro that [of "st\<lparr>auth_cache := Some (cache_map st), allocs := m\<rparr>"])
       (simp_all add: purged_def auth_rest_defs tok Let_def)
next
  case (Some ttl)
  then show thesis using assms(2)
    by (intro that [of "st\<lparr>allocs := m, auth_cache := Some (hashmap_remove (cache_map st) tok)\<rparr>"])
       (simp_all add: purged_def auth_rest_defs tok cached_def Let_def)
qed

lemma auth_rest_cases:
  assumes "auth_rest my req st = Inr (b, st')"
  shows "auth_frame st st' \<and> (auth_cache st' = Some (cache_map st) \<or>
    (\<exists>tok hm s. basic_auth_bytes req = Some tok \<and> auth_frame st s \<and> auth_cache s = Some hm \<and>
      hm = purged st tok \<and> check_database my tok hm s = Inr (b, st')))"
proof -
  obtain tok m where tok: "extract_basic_auth_b64 req (allocs st) = (tok, m)" by fastforce
  show ?thesis
  proof (cases tok)
    case None
    then show ?thesis using assms by (auto simp: auth_rest_defs tok)
  next
    case (Some t)
    then have t: "basic_auth_bytes req = Some t" using tok extract_SomeD by blast
    show ?thesis
    proof (cases "cached st t")
      case True
      then show ?thesis
        using assms by (auto simp: auth_rest_defs tok Some cached_def Let_def split: option.splits)
    next
      case False
      then obtain s where s: "auth_frame st s" "auth_cache s = Some (purged st t)"
        "check_database my t (purged st t) s = Inr (b, st')"
        using auth_rest_miss [of req st t m] tok Some assms by metis
      moreover have "auth_frame st st'"
        using check_database_cases [OF s(3)] s(1) by (simp add: auth_frame_def)
      ultimately show ?thesis using t by blast
    qed
  qed
qed

lemma auth_rest_cache_inv:
  assumes "auth_rest my req st = Inr (b, st')" and "cache_inv st"
  shows "cache_inv st'"
proof -
  have inv: "cache_inv s" if "auth_cache s = Some hm" "hm_inv hm" for s :: "('a, 'b) auth_state_scheme" and hm
    using that by (simp add: cache_inv_def)
  from assms(2) have m: "hm_inv (cache_map st)" by (simp add: cache_inv_def)
  from auth_rest_cases [OF assms(1)] show ?thesis
    using m by (auto intro: inv hashmap_add_inv hashmap_remove_inv simp: purged_def split: if_splits dest!: check_database_cases)
qed

lemma auth_rest_fresh:
  assumes "auth_rest my req st = Inr (True, st')" and "basic_auth_bytes req = Some tok"
    and "\<not> cached st tok" and "cache_inv st"
  shows "hashmap_get (cache_map st') = (hashmap_get (cache_map st))(tok \<mapsto> now st + CACHE_TTL)"
proof -
  obtain m where tok: "extract_basic_auth_b64 req (allocs st) = (Some tok, m)"
    using assms(1,2) by (auto simp: auth_rest_defs extract_basic_auth_b64_def Let_def
        split: prod.splits option.splits if_splits)
  obtain s1 where s1: "auth_frame st s1" "check_database my tok (purged st tok) s1 = Inr (True, st')"
    using auth_rest_miss [OF tok assms(3)] assms(1) by metis
  then have "cache_map st' = hashmap_add (purged st tok) tok (now st + CACHE_TTL) 8"
    by (auto simp: auth_frame_def dest!: check_database_True)
  then show ?thesis
    using assms(4) by (auto simp: cache_inv_def purged_def hashmap_laws fun_upd_def)
qed

section \<open>How the check can end\<close>

lemma decode_Nil: "base64_decode s [] = Inr (d, m) \<Longrightarrow> m = []"
  by (auto simp: base64_decode_def Let_def res_simps split: if_splits)

lemma get_user_allocs_Nil: "get_user_from_b64 s [] = Inr (u, m) \<Longrightarrow> m = []"
  by (auto simp: get_user_from_b64_def res_simps split: option.splits list.splits dest!: decode_Nil)

lemma from_result_allocs_Nil: "db_user_get_from_result r [] = Inr (u, m) \<Longrightarrow> m = []"
  by (auto simp: db_user_get_from_result_def res_simps split: db_result.splits list.splits option.splits)

lemma decode_loop_ub: "b64_decode_loop room s acc b d = Inl u \<Longrightarrow> u = HeapOverflow"
proof (induction s arbitrary: acc b d)
  case (Cons c s)
  then show ?case unfolding b64_decode_loop.simps Let_def by (simp split: if_splits)
qed simp

lemma get_user_ub:
  assumes "get_user_from_b64 s m = Inl u"
  shows "u = HeapOverflow"
proof (cases "base64_decode s m")
  case (Inl v)
  then have "v = HeapOverflow"
    by (auto simp: base64_decode_def Let_def res_simps split: if_splits prod.splits dest: decode_loop_ub)
  then show ?thesis using assms Inl by (simp add: get_user_from_b64_def)
next
  case (Inr x)
  have "get_user_from_b64 s m \<noteq> Inl u"
    by (simp add: get_user_from_b64_def Inr Let_def split: prod.split option.split list.split)
  then show ?thesis using assms by simp
qed

lemma row_col_ub: "row_col r n = Inl u \<Longrightarrow> u = OutOfBounds"
  by (simp add: row_col_def split: if_splits)

lemma from_result_ub:
  assumes "db_user_get_from_result r m = Inl u"
  shows "u = OutOfBounds"
proof -
  obtain row rows where r: "r = DbRows (row # rows)"
    using assms by (auto simp: db_user_get_from_result_def split: db_result.splits list.splits)
  show ?thesis
  proof (cases "row_col row 0")
    case (Inl v)
    then show ?thesis using assms row_col_ub [OF Inl] by (simp add: db_user_get_from_result_def r)
  next
    case (Inr a)
    show ?thesis
    proof (cases "row_col row 1")
      case (Inl v)
      then show ?thesis using assms row_col_ub [OF Inl] \<open>row_col row 0 = _\<close>
        by (simp add: db_user_get_from_result_def r)
    next
      case (Inr b)
      have "db_user_get_from_result r m \<noteq> Inl u"
        using Inr \<open>row_col row 0 = _\<close>
        by (simp add: db_user_get_from_result_def r Let_def split: prod.split option.split)
      then show ?thesis using assms by simp
    qed
  qed
qed

text \<open>Abnormal ends come from the decoder and from short rows only.\<close>

lemma db_user_get_allocs: "db_user_get n [] = (q, m) \<Longrightarrow> m = []"
  by simp

lemma check_database_out:
  "case check_database my tok hm st of
     Inl u \<Rightarrow> u \<in> {HeapOverflow, OutOfBounds, Exited}
   | Inr (b, st') \<Rightarrow> allocs st = [] \<longrightarrow> allocs st' = []"
proof (cases "get_user_from_b64 tok (allocs st)")
  case (Inl u)
  then show ?thesis using get_user_ub [OF Inl] by (simp add: check_database_def)
next
  case (Inr x)
  obtain ru m1 where ru: "get_user_from_b64 tok (allocs st) = Inr (ru, m1)" using Inr by (cases x) auto
  have m1: "m1 = []" if "allocs st = []" using ru get_user_allocs_Nil that by metis
  show ?thesis
  proof (cases ru)
    case None
    then show ?thesis using m1 by (simp add: check_database_def ru)
  next
    case (Some u)
    obtain q m2 where q: "db_user_get (username u) m1 = (q, m2)" by fastforce
    have m2: "m2 = []" if "allocs st = []" using q m1 [OF that] db_user_get_allocs by blast
    show ?thesis
    proof (cases q)
      case None
      then show ?thesis using m2 by (simp add: check_database_def ru Some q)
    next
      case (Some t)
      obtain res conn where res: "db_execute my (db_conn st) t = (res, conn)" by fastforce
      note defs = check_database_def ru \<open>ru = _\<close> q Some res Let_def
      show ?thesis
      proof (cases "db_user_get_from_result res m2")
        case (Inl u)
        then show ?thesis using from_result_ub [OF Inl] m2 by (simp add: defs)
      next
        case (Inr y)
        then obtain vu m3 where vu: "db_user_get_from_result res m2 = Inr (vu, m3)" by (cases y) auto
        have m3: "m3 = []" if "allocs st = []" using vu m2 [OF that] from_result_allocs_Nil by blast
        note add = hashmap_add_mem_cases [where hm = hm and key = tok and v = "now st + CACHE_TTL" and n = 8 and m = m3]
        show ?thesis
          by (cases "hashmap_add_mem hm tok (now st + CACHE_TTL) 8 m3")
            (use m2 m3 vu add in \<open>auto simp: defs split: option.split\<close>)
      qed
    qed
  qed
qed

lemma extract_allocs: "extract_basic_auth_b64 r [] = (t, m) \<Longrightarrow> m = []"
  by simp

lemma auth_rest_out:
  "case auth_rest my req st of
     Inl u \<Rightarrow> u \<in> {HeapOverflow, OutOfBounds, Exited}
   | Inr (b, st') \<Rightarrow> allocs st = [] \<longrightarrow> allocs st' = []"
proof -
  obtain tok m where tok: "extract_basic_auth_b64 req (allocs st) = (tok, m)" by fastforce
  have m: "m = []" if "allocs st = []" using tok extract_allocs that by metis
  show ?thesis
  proof (cases "tok = None \<or> (\<exists>t. tok = Some t \<and> cached st t)")
    case True
    then show ?thesis using m
      by (auto simp: auth_rest_defs tok cached_def Let_def split: option.splits)
  next
    case False
    then obtain t where t: "tok = Some t" "\<not> cached st t" by auto
    obtain s where s: "allocs s = m"
      "auth_rest my req st = check_database my t (purged st t) s"
      using auth_rest_miss [of req st t m] tok t by metis
    show ?thesis unfolding s(2) using check_database_out [where my = my and tok = t and hm = "purged st t" and st = s] m
      by (auto simp: s(1) split: sum.splits)
  qed
qed

lemma auth_rest_allocs: "auth_rest my req st = Inr (b, st') \<Longrightarrow> allocs st = [] \<Longrightarrow> allocs st' = []"
  using auth_rest_out [where my = my and req = req and st = st] by simp

lemma auth_rest_ub: "auth_rest my req st = Inl u \<Longrightarrow> u \<in> {HeapOverflow, OutOfBounds, Exited}"
  using auth_rest_out [where my = my and req = req and st = st] by simp

section \<open>The function itself\<close>

text \<open>
  Its first call makes the map; after that it is \<open>auth_rest\<close>, on the memory that is left.
\<close>

lemma static_map_cases:
  "case static_map st of Inl u \<Rightarrow> u = Exited \<and> allocs st \<noteq> []
   | Inr (hm, st1) \<Rightarrow> hm = cache_map st \<and>
      (\<exists>m. st1 = st\<lparr>allocs := m, auth_cache := Some (cache_map st)\<rparr> \<and> (allocs st = [] \<longrightarrow> m = []))"
proof (cases "auth_cache st")
  case None
  show ?thesis
  proof (cases "hashmap_create_mem (allocs st) :: (int hashmap \<times> mem) result")
    case (Inl u)
    then show ?thesis using hashmap_create_mem_cases [where ?'a = int and m = "allocs st"] None by (simp add: static_map_def)
  next
    case (Inr x)
    then obtain m where x: "x = (hashmap_create, m)" "allocs st = [] \<longrightarrow> m = []" using hashmap_mem_Inr(1) by (cases x) blast
    have "st\<lparr>auth_cache := Some hashmap_create, allocs := m\<rparr> = st\<lparr>allocs := m, auth_cache := Some hashmap_create\<rparr>" by simp
    then show ?thesis using None Inr x by (auto simp: static_map_def cache_map_def intro!: exI [of _ m])
  qed
next
  case (Some hm)
  then have "st\<lparr>allocs := allocs st, auth_cache := Some (cache_map st)\<rparr> = st" by (cases st) simp
  then show ?thesis using Some by (auto simp: static_map_def intro: exI [of _ "allocs st"])
qed

lemma has_valid_auth_rest:
  "has_valid_auth my req st = Inl Exited \<and> allocs st \<noteq> [] \<or>
   (\<exists>m. has_valid_auth my req st = auth_rest my req (st\<lparr>allocs := m\<rparr>) \<and> (allocs st = [] \<longrightarrow> m = []))"
proof (cases "static_map st")
  case (Inl u)
  then show ?thesis using static_map_cases [of st] by (simp add: has_valid_auth_def)
next
  case (Inr x)
  then obtain m where "x = (cache_map st, st\<lparr>allocs := m, auth_cache := Some (cache_map st)\<rparr>)" and m: "allocs st = [] \<longrightarrow> m = []"
    using static_map_cases [of st] by (cases x) auto
  then have "has_valid_auth my req st = auth_rest my req (st\<lparr>allocs := m\<rparr>)"
    using Inr by (simp add: has_valid_auth_def auth_rest_def cache_map_def)
  then show ?thesis using m by blast
qed

lemma has_valid_auth_Inr:
  assumes "has_valid_auth my req st = Inr r"
  obtains m where "auth_rest my req (st\<lparr>allocs := m\<rparr>) = Inr r" and "allocs st = [] \<longrightarrow> m = []"
  using has_valid_auth_rest [of my req st] assms by auto

lemma has_valid_auth_Nil: "allocs st = [] \<Longrightarrow> has_valid_auth my req st = auth_rest my req st"
  using has_valid_auth_rest [of my req st] by (cases st) auto

lemma allocs_irrelevant [simp]:
  "cache_map (st\<lparr>allocs := m\<rparr>) = cache_map st" "cached (st\<lparr>allocs := m\<rparr>) tok = cached st tok"
  "purged (st\<lparr>allocs := m\<rparr>) tok = purged st tok" "cache_inv (st\<lparr>allocs := m\<rparr>) = cache_inv st"
  by (simp_all add: cache_map_def cached_def purged_def cache_inv_def cong: option.case_cong)

lemma has_valid_auth_True:
  assumes "has_valid_auth my req st = Inr (True, st')"
  shows "\<exists>tok. basic_auth_bytes req = Some tok \<and>
    (cached st tok \<or> (\<exists>u p. creds_of tok = Some (u, p) \<and> db_password my (db_conn st) u = Some p))"
  using assms by (elim has_valid_auth_Inr) (drule auth_rest_True, simp)

lemma has_valid_auth_accepts:
  assumes "allocs st = []" and "basic_auth_bytes req = Some tok"
    and "cached st tok \<or> (\<exists>u p. creds_of tok = Some (u, p) \<and> db_password my (db_conn st) u = Some p)"
  shows "\<exists>st'. has_valid_auth my req st = Inr (True, st')"
  using auth_rest_accepts [OF assms] has_valid_auth_Nil [OF assms(1)] by simp

lemma has_valid_auth_cases:
  assumes "has_valid_auth my req st = Inr (b, st')"
  shows "auth_frame st st' \<and> (auth_cache st' = Some (cache_map st) \<or>
    (\<exists>tok hm s. basic_auth_bytes req = Some tok \<and> auth_frame st s \<and> auth_cache s = Some hm \<and>
      hm = purged st tok \<and> check_database my tok hm s = Inr (b, st')))"
  using assms by (elim has_valid_auth_Inr) (drule auth_rest_cases, simp)

lemma has_valid_auth_cache_inv:
  "has_valid_auth my req st = Inr (b, st') \<Longrightarrow> cache_inv st \<Longrightarrow> cache_inv st'"
  by (elim has_valid_auth_Inr) (drule auth_rest_cache_inv, simp_all)

lemma has_valid_auth_fresh:
  assumes "has_valid_auth my req st = Inr (True, st')" and "basic_auth_bytes req = Some tok"
    and "\<not> cached st tok" and "cache_inv st"
  shows "hashmap_get (cache_map st') = (hashmap_get (cache_map st))(tok \<mapsto> now st + CACHE_TTL)"
  using assms by (elim has_valid_auth_Inr) (drule auth_rest_fresh, simp_all)

lemma has_valid_auth_allocs: "has_valid_auth my req st = Inr (b, st') \<Longrightarrow> allocs st = [] \<Longrightarrow> allocs st' = []"
  by (elim has_valid_auth_Inr) (drule auth_rest_allocs, simp_all)

lemma has_valid_auth_ub:
  assumes "has_valid_auth my req st = Inl u"
  shows "u \<in> {HeapOverflow, OutOfBounds, Exited}"
proof -
  consider "u = Exited" | m where "auth_rest my req (st\<lparr>allocs := m\<rparr>) = Inl u"
    using has_valid_auth_rest [of my req st] assms by auto
  then show ?thesis using auth_rest_ub by cases blast+
qed

section \<open>Properties\<close>

lemma fresh_cached:
  assumes "has_valid_auth my req st = Inr (True, st')" and "basic_auth_bytes req = Some tok"
    and "\<not> cached st tok" and "cache_inv st"
  shows "cached (st'\<lparr>now := t\<rparr>) tok' \<longleftrightarrow>
    (if tok' = tok then t < now st + CACHE_TTL else cached (st\<lparr>now := t\<rparr>) tok')"
  using has_valid_auth_fresh [OF assms] by (auto simp: cached_def cache_map_def split: option.splits)

text \<open>The rows of the answer to a query have as many columns as it selects.\<close>

definition row_width :: "'s mysql \<Rightarrow> 's \<Rightarrow> string \<Rightarrow> nat \<Rightarrow> bool" where
  "row_width my conn q n = (case fst (db_execute my conn q) of
       DbRows rows \<Rightarrow> list_all (\<lambda>r. length r = n) rows | _ \<Rightarrow> True)"

lemma check_database_decides:
  assumes "allocs s = []" and "get_user_from_b64 tok [] = Inr (Some \<lparr>username = u, password = p\<rparr>, [])"
    and "row_width my (db_conn s) (user_query u) 2"
  shows "\<exists>s'. check_database my tok hm s = Inr (db_password my (db_conn s) u = Some p, s')"
proof -
  obtain res conn where res: "db_execute my (db_conn s) (user_query u) = (res, conn)" by fastforce
  note defs = check_database_def assms(1,2) res db_password_def
  show ?thesis
  proof (cases res)
    case (DbRows rows)
    show ?thesis
    proof (cases rows)
      case (Cons row rest)
      with assms(3) obtain a b where "row = [a, b]"
        by (auto simp: row_width_def res DbRows length_Suc_conv numeral_2_eq_2)
      then show ?thesis
        by (cases a; cases b)
           (auto simp: defs DbRows Cons db_user_get_from_result_def row_col_def Let_def)
    qed (auto simp: defs DbRows db_user_get_from_result_def)
  qed (auto simp: defs)
qed

text \<open>A server that answers every query with the same single row, for the witnesses.\<close>

definition one_row_server :: "row \<Rightarrow> unit mysql" where
  "one_row_server row =
     \<lparr>my_init = Some (), my_connect = (\<lambda>_ _ _ _ _ _. Some ()), my_query = (\<lambda>_ _. (False, ())),
      my_store_result = (\<lambda>_. (Some [row], ())), my_field_count = (\<lambda>_. 2), my_ping = (\<lambda>_. True),
      my_error = (\<lambda>_. [])\<rparr>"

definition fresh_state :: "unit auth_state" where
  "fresh_state = \<lparr>allocs = [], auth_cache = None, db_conn = (), now = 1000\<rparr>"

definition request_with :: "string \<Rightarrow> string" where
  "request_with tok = ''GET http://a/ HTTP/1.1'' @ [CR, LF] @ basic_header @ tok @ [CR, LF, CR, LF]"

lemma request_with_bytes: "CR \<notin> set tok \<Longrightarrow> basic_auth_bytes (request_with tok) = Some tok"
  using extract_token [of "''GET http://a/ HTTP/1.1'' @ [CR, LF]" tok "[CR, LF]"]
  by (simp add: request_with_def flip: strstr_None_iff)

lemma not_cached_fresh [simp]: "\<not> cached fresh_state tok"
  by (simp add: cached_def fresh_state_def cache_map_def hashmap_get_create)

lemma one_row_password [simp]: "db_password (one_row_server [Some u, Some p]) c n = Some p"
  by (simp add: db_password_def db_execute_def one_row_server_def)

lemma b64_table_no_ctl: "n < 64 \<Longrightarrow> sextet n \<noteq> CR"
proof
  assume "n < 64" and "sextet n = CR"
  then have "CR \<in> set b64_table" by (metis length_b64_table nth_mem sextet_def)
  then show False by (simp add: b64_table_def)
qed

lemma rfc4648_no_cr: "CR \<notin> set (rfc4648 bs)"
  by (induction bs rule: rfc4648.induct) (auto simp: b64_table_no_ctl [symmetric])

text \<open>
  C11: the proxy never lets a request through without credentials: whatever the state of
  memory, cache and database, if \<open>has_valid_auth\<close> answers 1 then the request carries a
  Basic token which is in the cache and not expired, or which decodes to a user name and a
  password such that the database holds exactly this password for this name.
\<close>

theorem auth_sound:
  "has_valid_auth my req st = Inr (True, st') \<Longrightarrow>
     \<exists>tok. basic_auth_bytes req = Some tok \<and>
       (cached st tok \<or> (\<exists>u p. creds_of tok = Some (u, p) \<and> db_password my (db_conn st) u = Some p))"
  by (rule has_valid_auth_True)

text \<open>
  And it does let them through: with memory available, a request with such a token is
  accepted.
\<close>

theorem auth_complete:
  "allocs st = [] \<Longrightarrow> basic_auth_bytes req = Some tok \<Longrightarrow>
     cached st tok \<or> (\<exists>u p. creds_of tok = Some (u, p) \<and> db_password my (db_conn st) u = Some p) \<Longrightarrow>
     \<exists>st'. has_valid_auth my req st = Inr (True, st')"
  by (rule has_valid_auth_accepts)

text \<open>
  A token accepted against the database at time \<open>t0\<close> is cached for exactly one hour,
  until \<open>t0 + 3600\<close> and no longer, whether or not it had an expired entry before, and the
  entry of no other token is touched.
\<close>

theorem auth_cache_lifetime:
  assumes "has_valid_auth my req st = Inr (True, st')" and "basic_auth_bytes req = Some tok"
    and "\<not> cached st tok" and "cache_inv st"
  shows "cached (st'\<lparr>now := t\<rparr>) tok' \<longleftrightarrow>
    (if tok' = tok then t < now st + 3600 else cached (st\<lparr>now := t\<rparr>) tok')"
  using fresh_cached [OF assms] by (simp add: CACHE_TTL_def)

text \<open>
  While a token is cached the database is not consulted: the request is accepted
  without touching the connection, even after the user has been removed or the password
  changed.
\<close>

theorem auth_cached_skips_database:
  assumes "basic_auth_bytes req = Some tok" and "cached st tok" and "fst (malloc_ok (allocs st))"
  shows "has_valid_auth my req st = Inr (True, st\<lparr>allocs := snd (malloc_ok (allocs st))\<rparr>)"
proof -
  obtain hm where hm: "auth_cache st = Some hm"
    using assms(2) by (cases "auth_cache st") (auto simp: cached_def cache_map_def hashmap_laws)
  then show ?thesis
    using assms by (auto simp: has_valid_auth_def static_map_def check_request_def extract_basic_auth_b64_def cached_def Let_def
        split: option.splits prod.splits)
qed


section \<open>Witnesses\<close>

definition bob_server :: "unit mysql" where
  "bob_server = one_row_server [Some ''bob'', Some ''pw'']"

definition bob_token :: string where
  "bob_token = rfc4648 ''bob:pw''"

definition bob_request :: string where
  "bob_request = request_with bob_token"

lemma bob_bytes: "basic_auth_bytes bob_request = Some bob_token"
  unfolding bob_request_def bob_token_def by (rule request_with_bytes [OF rfc4648_no_cr])

lemma bob_cred: "cred_ok ''bob'' ''pw''"
  by (simp add: cred_ok_def isspace_def)

lemma bob_creds: "creds_of bob_token = Some (''bob'', ''pw'')"
  using get_user_rfc4648 [OF bob_cred] by (simp add: creds_of_def bob_token_def)

lemma bob_password: "db_password bob_server c n = Some ''pw''"
  by (simp add: bob_server_def)

lemma fresh_inv: "cache_inv fresh_state"
  by (simp add: cache_inv_def cache_map_def fresh_state_def hashmap_create_inv)

lemma bob_accepted: "\<exists>st'. has_valid_auth bob_server bob_request fresh_state = Inr (True, st')"
  using bob_creds bob_password
  by (intro has_valid_auth_accepts [OF _ bob_bytes]) (auto simp: fresh_state_def)

theorem auth_sound_witness:
  "\<exists>tok. basic_auth_bytes bob_request = Some tok \<and>
     (cached fresh_state tok \<or> (\<exists>u p. creds_of tok = Some (u, p) \<and>
        db_password bob_server (db_conn fresh_state) u = Some p))"
proof -
  obtain st' where "has_valid_auth bob_server bob_request fresh_state = Inr (True, st')"
    using bob_accepted by blast
  then show ?thesis by (rule auth_sound)
qed

theorem auth_complete_witness:
  "\<exists>st'. has_valid_auth bob_server bob_request fresh_state = Inr (True, st')"
proof (rule auth_complete [OF _ bob_bytes])
  show "allocs fresh_state = []" by (simp add: fresh_state_def)
  show "cached fresh_state bob_token \<or> (\<exists>u p. creds_of bob_token = Some (u, p) \<and>
      db_password bob_server (db_conn fresh_state) u = Some p)"
    using bob_creds bob_password by blast
qed

theorem auth_cache_lifetime_witness:
  "\<exists>st'. has_valid_auth bob_server bob_request fresh_state = Inr (True, st') \<and>
     cached (st'\<lparr>now := 4599\<rparr>) bob_token \<and> \<not> cached (st'\<lparr>now := 4600\<rparr>) bob_token"
proof -
  obtain st' where st': "has_valid_auth bob_server bob_request fresh_state = Inr (True, st')"
    using bob_accepted by blast
  have "now fresh_state = 1000" by (simp add: fresh_state_def)
  then show ?thesis
    using auth_cache_lifetime [OF st' bob_bytes not_cached_fresh fresh_inv] st' by auto
qed

definition warm_state :: "unit auth_state" where
  "warm_state = fresh_state\<lparr>auth_cache := Some (hashmap_add hashmap_create bob_token 2000 8)\<rparr>"

theorem auth_cached_skips_database_witness:
  "has_valid_auth (one_row_server []) bob_request warm_state = Inr (True, warm_state)"
proof -
  have "cached warm_state bob_token"
    by (simp add: cached_def warm_state_def fresh_state_def cache_map_def hashmap_laws)
  moreover have "fst (malloc_ok (allocs warm_state))" by (simp add: warm_state_def fresh_state_def)
  ultimately show ?thesis
    using auth_cached_skips_database [OF bob_bytes, of warm_state "one_row_server []"]
    by (simp add: warm_state_def fresh_state_def cache_map_def)
qed


section \<open>Queries and SQL\<close>

text \<open>
  A user name of at most 255 bytes without quote and backslash stays inside its string
  literal: what the server reads outside of literals is the same whatever the name.
\<close>

theorem user_query_skeleton:
  "literal_safe n \<Longrightarrow> length n \<le> 255 \<Longrightarrow>
     sql_skeleton False (user_query n) = ''SELECT username, password FROM `users` WHERE username =  LIMIT 1;''"
proof -
  assume n: "literal_safe n" "length n \<le> 255"
  let ?q = "''SELECT username, password FROM `'' @ TABLE_NAME @ ''` WHERE username = ''"
  have "user_query n = ?q @ QUOTE # n @ QUOTE # '' LIMIT 1;''"
    using n(2) by (simp add: user_query_def snprintf_buf_def TABLE_NAME_def)
  moreover have "sql_skeleton False (?q @ QUOTE # n @ QUOTE # '' LIMIT 1;'') =
      ?q @ sql_skeleton False (QUOTE # n @ QUOTE # '' LIMIT 1;'')"
    by (rule skeleton_plain) (simp add: TABLE_NAME_def)
  ultimately show ?thesis
    using skeleton_literal [OF n(1), of "'' LIMIT 1;''"] by (simp add: TABLE_NAME_def)
qed

theorem user_query_skeleton_witness:
  "sql_skeleton False (user_query ''bob'') = ''SELECT username, password FROM `users` WHERE username =  LIMIT 1;''"
  by (rule user_query_skeleton) (simp_all add: literal_safe_def)

text \<open>
  A user name that closes the literal, and a server with an empty table of users that
  evaluates the query it is sent: the union contributes one row of constants.
\<close>

definition injected_name :: string where
  "injected_name = ''x'' @ [QUOTE] @ '' UNION SELECT '' @ [QUOTE] @ ''a'' @ [QUOTE, CHR '','', QUOTE] @ ''b''"

definition union_skeleton :: string where
  "union_skeleton = ''SELECT username, password FROM `users` WHERE username =  UNION SELECT , LIMIT 1;''"

definition empty_table_server :: "string mysql" where
  "empty_table_server =
     \<lparr>my_init = Some [], my_connect = (\<lambda>_ _ _ _ _ _. Some []), my_query = (\<lambda>_ q. (False, q)),
      my_store_result = (\<lambda>q. (Some (if sql_skeleton False q = union_skeleton
        then [[Some ''a'', Some ''b'']] else []), q)),
      my_field_count = (\<lambda>_. 2), my_ping = (\<lambda>_. True),
      my_error = (\<lambda>_. [])\<rparr>"

definition empty_table_state :: "string auth_state" where
  "empty_table_state = \<lparr>allocs = [], auth_cache = None, db_conn = [], now = 1000\<rparr>"


end
