(* ===== verification/Os.thy ===== *)
theory Os
  imports Auth "HOL-Library.AList"
begin

text \<open>
  The kernel as the proxy uses it: file descriptors, sockets, name resolution and one epoll
  instance. What other processes and the network do is not part of the program, so every
  call that depends on them reads its coming outcomes from a script in the state; what the
  calls do to the descriptors follows the POSIX and Linux documentation.
\<close>

section \<open>State\<close>

text \<open>
  What \<open>recv\<close> and \<open>send\<close> on a socket will meet. \<open>Bytes b\<close> is data waiting to be read,
  \<open>RxFin\<close> the orderly shutdown by the peer; \<open>Accept n\<close> is room for \<open>n\<close> bytes, \<open>TxPipe\<close> a
  peer that has reset the connection. At the end of a script \<open>recv\<close> would block and \<open>send\<close>
  takes everything.
\<close>

datatype rx = Bytes string | RxAgain | RxFin | RxErr

datatype tx = Accept nat | TxAgain | TxErr | TxPipe

datatype conn = ConnNow | ConnInProgress | ConnRefused

record sock =
  rx :: "rx list"
  tx :: "tx list"
  sent :: string
  peer :: "(string \<times> nat) option"
  nonblocking :: bool

text \<open>
  \<open>fds\<close> is the table of open descriptors; \<open>interest\<close> maps the descriptors registered with
  the epoll instance to their event mask and data pointer. \<open>ctl_fails\<close> lists the coming
  \<open>epoll_ctl\<close> calls that fail for want of kernel memory, \<open>accepts\<close> the connections that
  wait (\<open>None\<close> for an error other than \<open>EAGAIN\<close>), \<open>sockets\<close> the outcomes of \<open>socket\<close>,
  \<open>so_errors\<close> those of \<open>getsockopt(SO_ERROR)\<close> (\<open>None\<close> when the call fails), \<open>sys_fails\<close>
  the failures of the calls that only succeed or fail (\<open>setsockopt\<close>, \<open>bind\<close>, \<open>listen\<close>,
  \<open>epoll_create1\<close> and those on the timer) and \<open>timer_reads\<close> whether a read of the timer
  returns its eight bytes. \<open>listening\<close> is the descriptor that was made to listen last, with its
  port and its backlog.
\<close>

record 's os = "'s auth_state" +
  fds :: "sock option list"
  interest :: "int \<rightharpoonup> 32 word \<times> nat"
  ctl_fails :: "bool list"
  accepts :: "sock option list"
  sockets :: "sock option list"
  connects :: "conn list"
  so_errors :: "int option list"
  dns :: "string \<Rightarrow> string option"
  sys_fails :: "bool list"
  timer_reads :: "bool list"
  listening :: "(int \<times> nat \<times> nat) option"

definition EPOLLIN :: "32 word" where "EPOLLIN = 1"
definition EPOLLOUT :: "32 word" where "EPOLLOUT = 4"
definition EPOLL_ALWAYS :: "32 word" where "EPOLL_ALWAYS = 24"

section \<open>Descriptors\<close>

definition sock_of :: "('s, 'z) os_scheme \<Rightarrow> int \<Rightarrow> sock option" where
  "sock_of st fd = (if 0 \<le> fd \<and> nat fd < length (fds st) then fds st ! nat fd else None)"

definition set_sock :: "int \<Rightarrow> sock \<Rightarrow> ('s, 'z) os_scheme \<Rightarrow> ('s, 'z) os_scheme" where
  "set_sock fd s st = (if sock_of st fd = None then st else st\<lparr>fds := (fds st)[nat fd := Some s]\<rparr>)"

text \<open>A new descriptor is the lowest one that is not open.\<close>

definition fresh_fd :: "sock option list \<Rightarrow> nat" where
  "fresh_fd fs = length (takeWhile (\<lambda>s. s \<noteq> None) fs)"

definition open_fd :: "sock \<Rightarrow> ('s, 'z) os_scheme \<Rightarrow> int \<times> ('s, 'z) os_scheme" where
  "open_fd s st =
     (let n = fresh_fd (fds st)
      in (int n, st\<lparr>fds := take n (fds st) @ Some s # drop (Suc n) (fds st)\<rparr>))"

text \<open>Closing the only descriptor of a socket also removes it from the epoll instance.\<close>

definition close_fd :: "int \<Rightarrow> ('s, 'z) os_scheme \<Rightarrow> ('s, 'z) os_scheme" where
  "close_fd fd st =
     (if sock_of st fd = None then st
      else st\<lparr>fds := (fds st)[nat fd := None], interest := (interest st)(fd := None)\<rparr>)"

definition set_nonblocking :: "int \<Rightarrow> ('s, 'z) os_scheme \<Rightarrow> ('s, 'z) os_scheme" where
  "set_nonblocking fd st =
     (case sock_of st fd of None \<Rightarrow> st | Some s \<Rightarrow> set_sock fd (s\<lparr>nonblocking := True\<rparr>) st)"

section \<open>Reading and writing\<close>

datatype recv_result = Got string | Zero | WouldBlock | Failed

text \<open>
  A read into no room at all returns zero while data is waiting, which \<open>recv\<close> documents as
  one of the two meanings of zero.
\<close>

definition recv :: "int \<Rightarrow> nat \<Rightarrow> ('s, 'z) os_scheme \<Rightarrow> recv_result \<times> ('s, 'z) os_scheme" where
  "recv fd room st =
     (case sock_of st fd of
        None \<Rightarrow> (Failed, st)
      | Some s \<Rightarrow>
          (case rx s of
             [] \<Rightarrow> (WouldBlock, st)
           | Bytes b # r \<Rightarrow>
               if b = [] then (WouldBlock, set_sock fd (s\<lparr>rx := r\<rparr>) st)
               else if room = 0 then (Zero, st)
               else (Got (take room b),
                     set_sock fd (s\<lparr>rx := (if length b \<le> room then r else Bytes (drop room b) # r)\<rparr>) st)
           | RxAgain # r \<Rightarrow> (WouldBlock, set_sock fd (s\<lparr>rx := r\<rparr>) st)
           | RxFin # r \<Rightarrow> (Zero, st)
           | RxErr # r \<Rightarrow> (Failed, set_sock fd (s\<lparr>rx := r\<rparr>) st)))"

datatype send_result = Sent nat | SendBlock | SendFailed

text \<open>\<open>send\<close> with or without \<open>MSG_NOSIGNAL\<close>; the process has no handler for \<open>SIGPIPE\<close>.\<close>

definition send ::
    "bool \<Rightarrow> int \<Rightarrow> string \<Rightarrow> ('s, 'z) os_scheme \<Rightarrow> (send_result \<times> ('s, 'z) os_scheme) result" where
  "send nosignal fd bytes st =
     (case sock_of st fd of
        None \<Rightarrow> Inr (SendFailed, st)
      | Some s \<Rightarrow>
          (case tx s of
             [] \<Rightarrow> Inr (Sent (length bytes), set_sock fd (s\<lparr>sent := sent s @ bytes\<rparr>) st)
           | Accept n # r \<Rightarrow>
               Inr (Sent (min n (length bytes)),
                    set_sock fd (s\<lparr>tx := r, sent := sent s @ take n bytes\<rparr>) st)
           | TxAgain # r \<Rightarrow> Inr (SendBlock, set_sock fd (s\<lparr>tx := r\<rparr>) st)
           | TxErr # r \<Rightarrow> Inr (SendFailed, set_sock fd (s\<lparr>tx := r\<rparr>) st)
           | TxPipe # r \<Rightarrow> if nosignal then Inr (SendFailed, st) else Inl Killed))"

section \<open>Connections\<close>

definition socket :: "('s, 'z) os_scheme \<Rightarrow> int \<times> ('s, 'z) os_scheme" where
  "socket st =
     (case sockets st of
        Some s # r \<Rightarrow> open_fd s (st\<lparr>sockets := r\<rparr>)
      | None # r \<Rightarrow> (- 1, st\<lparr>sockets := r\<rparr>)
      | [] \<Rightarrow> (- 1, st))"

definition connect ::
    "int \<Rightarrow> string \<Rightarrow> nat \<Rightarrow> ('s, 'z) os_scheme \<Rightarrow> conn \<times> ('s, 'z) os_scheme" where
  "connect fd addr port st =
     (case sock_of st fd of
        None \<Rightarrow> (ConnRefused, st)
      | Some s \<Rightarrow>
          (let st = set_sock fd (s\<lparr>peer := Some (addr, port)\<rparr>) st in
           case connects st of
             [] \<Rightarrow> (ConnInProgress, st)
           | c # r \<Rightarrow> (c, st\<lparr>connects := r\<rparr>)))"

text \<open>\<open>getsockopt(fd, SOL_SOCKET, SO_ERROR, ...)\<close>: the pending error, \<open>Some 0\<close> for none.\<close>

definition so_error :: "int \<Rightarrow> ('s, 'z) os_scheme \<Rightarrow> int option \<times> ('s, 'z) os_scheme" where
  "so_error fd st =
     (if sock_of st fd = None then (None, st)
      else (case so_errors st of [] \<Rightarrow> (Some 0, st) | e # r \<Rightarrow> (e, st\<lparr>so_errors := r\<rparr>)))"

text \<open>\<open>accept\<close> on the listening socket: \<open>Some fd\<close>, or no connection (\<open>EAGAIN\<close> or an error).\<close>

definition accept_connection :: "('s, 'z) os_scheme \<Rightarrow> int option \<times> ('s, 'z) os_scheme" where
  "accept_connection st =
     (case accepts st of
        [] \<Rightarrow> (None, st)
      | None # r \<Rightarrow> (None, st\<lparr>accepts := r\<rparr>)
      | Some s # r \<Rightarrow> (let (fd, st) = open_fd s (st\<lparr>accepts := r\<rparr>) in (Some fd, st)))"

definition htons :: "int \<Rightarrow> nat" where
  "htons p = nat (p mod 65536)"

definition sys_ok :: "('s, 'z) os_scheme \<Rightarrow> bool \<times> ('s, 'z) os_scheme" where
  "sys_ok st = (case sys_fails st of [] \<Rightarrow> (True, st) | b # r \<Rightarrow> (\<not> b, st\<lparr>sys_fails := r\<rparr>))"

definition timer_read :: "('s, 'z) os_scheme \<Rightarrow> bool \<times> ('s, 'z) os_scheme" where
  "timer_read st = (case timer_reads st of [] \<Rightarrow> (True, st) | b # r \<Rightarrow> (b, st\<lparr>timer_reads := r\<rparr>))"

definition plain_sock :: sock where
  "plain_sock = \<lparr>rx = [], tx = [], sent = [], peer = None, nonblocking = False\<rparr>"

section \<open>epoll\<close>

definition ctl_ok :: "('s, 'z) os_scheme \<Rightarrow> bool \<times> ('s, 'z) os_scheme" where
  "ctl_ok st = (case ctl_fails st of [] \<Rightarrow> (True, st) | b # r \<Rightarrow> (\<not> b, st\<lparr>ctl_fails := r\<rparr>))"

definition epoll_add_fd ::
    "int \<Rightarrow> 32 word \<Rightarrow> nat \<Rightarrow> ('s, 'z) os_scheme \<Rightarrow> bool \<times> ('s, 'z) os_scheme" where
  "epoll_add_fd fd events data st =
     (let (ok, st) = ctl_ok st in
      if ok \<and> sock_of st fd \<noteq> None \<and> interest st fd = None
      then (True, st\<lparr>interest := (interest st)(fd \<mapsto> (events, data))\<rparr>) else (False, st))"

definition epoll_mod_fd ::
    "int \<Rightarrow> 32 word \<Rightarrow> nat \<Rightarrow> ('s, 'z) os_scheme \<Rightarrow> bool \<times> ('s, 'z) os_scheme" where
  "epoll_mod_fd fd events data st =
     (let (ok, st) = ctl_ok st in
      if ok \<and> sock_of st fd \<noteq> None \<and> interest st fd \<noteq> None
      then (True, st\<lparr>interest := (interest st)(fd \<mapsto> (events, data))\<rparr>) else (False, st))"

text \<open>\<open>True\<close> for the return value 0, which includes a descriptor that is not registered.\<close>

definition epoll_del_fd :: "int \<Rightarrow> ('s, 'z) os_scheme \<Rightarrow> bool \<times> ('s, 'z) os_scheme" where
  "epoll_del_fd fd st =
     (let (ok, st) = ctl_ok st in
      if sock_of st fd = None then (False, st)
      else if interest st fd = None then (True, st)
      else if ok then (True, st\<lparr>interest := (interest st)(fd := None)\<rparr>) else (False, st))"

text \<open>
  \<open>epoll_wait\<close> for the descriptors \<open>ready\<close>: each is reported once, with the data pointer it is
  registered with, for the events asked for; errors and hang-ups are always reported.
\<close>

definition epoll_wait :: "(int \<times> 32 word) list \<Rightarrow> ('s, 'z) os_scheme \<Rightarrow> (nat \<times> 32 word) list" where
  "epoll_wait ready st =
     concat (map (\<lambda>(fd, ev). case interest st fd of
         None \<Rightarrow> []
       | Some (asked, d) \<Rightarrow>
           (let ev = and ev (or asked EPOLL_ALWAYS) in if ev = 0 then [] else [(d, ev)]))
       (AList.clearjunk ready))"

section \<open>Laws of the descriptor table\<close>

lemma sock_of_bounds: "sock_of st fd \<noteq> None \<Longrightarrow> 0 \<le> fd \<and> nat fd < length (fds st)"
  by (auto simp: sock_of_def split: if_splits)

lemma sock_of_set_sock [simp]:
  "sock_of (set_sock fd s st) fd' =
     (if fd' = fd \<and> sock_of st fd \<noteq> None then Some s else sock_of st fd')"
proof (cases "sock_of st fd = None")
  case True
  then show ?thesis by (simp add: set_sock_def)
next
  case False
  then have "0 \<le> fd" "nat fd < length (fds st)" using sock_of_bounds by blast+
  with False show ?thesis by (auto simp: set_sock_def sock_of_def eq_nat_nat_iff)
qed

section \<open>What a call leaves alone\<close>

text \<open>
  Most calls change neither the set of open descriptors nor what epoll watches, and nothing
  of the process memory that extends the kernel state.
\<close>

definition quiet :: "('s, 'z) os_scheme \<Rightarrow> ('s, 'z) os_scheme \<Rightarrow> bool" where
  "quiet st st' \<longleftrightarrow> os.more st' = os.more st \<and> interest st' = interest st \<and>
     accepts st' = accepts st \<and> now st' = now st \<and> dns st' = dns st \<and>
     (\<forall>fd. sock_of st' fd = None \<longleftrightarrow> sock_of st fd = None) \<and> (allocs st = [] \<longrightarrow> allocs st' = [])"

lemma quiet_refl [simp, inv_intros]: "quiet st st"
  by (simp add: quiet_def)

lemma quiet_trans: "quiet st st' \<Longrightarrow> quiet st' st'' \<Longrightarrow> quiet st st''"
  by (simp add: quiet_def)

lemma set_sock_quiet: "quiet st (set_sock fd s st)"
  by (auto simp: quiet_def) (simp_all add: set_sock_def)

lemma recv_quiet: "recv fd n st = (r, st') \<Longrightarrow> quiet st st'"
  by (auto simp: recv_def set_sock_quiet split: option.splits list.splits rx.splits if_splits)

lemma send_quiet: "send f fd b st = Inr (r, st') \<Longrightarrow> quiet st st'"
  by (auto simp: send_def set_sock_quiet split: option.splits list.splits tx.splits if_splits)

lemma sock_of_scripts [simp]:
  "sock_of (st\<lparr>connects := x\<rparr>) fd = sock_of st fd"
  "sock_of (st\<lparr>so_errors := y\<rparr>) fd = sock_of st fd"
  "sock_of (st\<lparr>ctl_fails := z\<rparr>) fd = sock_of st fd"
  "sock_of (st\<lparr>interest := i\<rparr>) fd = sock_of st fd"
  "sock_of (st\<lparr>sockets := s\<rparr>) fd = sock_of st fd"
  "sock_of (st\<lparr>accepts := a\<rparr>) fd = sock_of st fd"
  "sock_of (st\<lparr>sys_fails := b\<rparr>) fd = sock_of st fd"
  "sock_of (st\<lparr>timer_reads := b\<rparr>) fd = sock_of st fd"
  "sock_of (st\<lparr>allocs := m\<rparr>) fd = sock_of st fd"
  "sock_of (st\<lparr>now := t\<rparr>) fd = sock_of st fd"
  by (simp_all add: sock_of_def)

lemma set_nonblocking_quiet: "quiet st (set_nonblocking fd st)"
  by (simp add: set_nonblocking_def set_sock_quiet split: option.split)

lemma quiet_script: "quiet st st' \<Longrightarrow> quiet st (st'\<lparr>connects := x\<rparr>)"
  by (simp add: quiet_def)

lemma connect_quiet: "connect fd a p st = (r, st') \<Longrightarrow> quiet st st'"
  by (auto simp: connect_def Let_def set_sock_quiet quiet_script split: option.splits list.splits)

lemma so_error_quiet: "so_error fd st = (r, st') \<Longrightarrow> quiet st st'"
  by (auto simp: so_error_def quiet_def split: if_splits list.splits)

lemma sys_ok_quiet: "sys_ok st = (r, st') \<Longrightarrow> quiet st st'"
  by (auto simp: sys_ok_def quiet_def split: list.splits)

lemma timer_read_quiet: "timer_read st = (r, st') \<Longrightarrow> quiet st st'"
  by (auto simp: timer_read_def quiet_def split: list.splits)

lemma auth_frame_os:
  fixes st st' :: "('s, 'z) os_scheme"
  assumes "auth_frame st st'"
  shows "fds st' = fds st" "interest st' = interest st" "accepts st' = accepts st"
    "dns st' = dns st" "os.more st' = os.more st" "sockets st' = sockets st"
    "now st' = now st"
  using assms by (cases st; cases st'; simp add: auth_frame_def)+

lemma has_valid_auth_quiet:
  fixes st :: "('s, 'z) os_scheme"
  assumes "has_valid_auth my req st = Inr (b, st')"
  shows "quiet st st' \<and> fds st' = fds st \<and> sockets st' = sockets st"
  using auth_frame_os [of st st'] has_valid_auth_cases [OF assms] has_valid_auth_allocs [OF assms]
  by (simp add: quiet_def sock_of_def)

lemma fresh_fd_bounds:
  "fresh_fd fs \<le> length fs \<and> (\<forall>i < fresh_fd fs. fs ! i \<noteq> None) \<and>
     (fresh_fd fs < length fs \<longrightarrow> fs ! fresh_fd fs = None)"
proof (induction fs)
  case (Cons x fs)
  have "fs ! (i - 1) \<noteq> None" if "x \<noteq> None" "0 < i" "i < fresh_fd (x # fs)" for i
    using that Cons by (auto simp: fresh_fd_def)
  then show ?case using Cons by (auto simp: fresh_fd_def nth_Cons')
qed (simp add: fresh_fd_def)

lemma sock_of_open:
  assumes "open_fd s st = (fd, st')"
  shows "0 \<le> fd" and "sock_of st fd = None" and "sock_of st' = (sock_of st)(fd := Some s)"
    and "(\<forall>fd'. 0 \<le> fd' \<and> fd' < fd \<longrightarrow> sock_of st fd' \<noteq> None)"
    and "interest st' = interest st \<and> os.more st' = os.more st \<and> accepts st' = accepts st \<and>
      now st' = now st \<and> dns st' = dns st \<and> allocs st' = allocs st"
proof -
  let ?n = "fresh_fd (fds st)"
  have fd: "fd = int ?n" and st': "st' = st\<lparr>fds := take ?n (fds st) @ Some s # drop (Suc ?n) (fds st)\<rparr>"
    using assms by (auto simp: open_fd_def Let_def)
  show "0 \<le> fd" and "sock_of st fd = None"
    and "interest st' = interest st \<and> os.more st' = os.more st \<and> accepts st' = accepts st \<and>
      now st' = now st \<and> dns st' = dns st \<and> allocs st' = allocs st"
    and "(\<forall>fd'. 0 \<le> fd' \<and> fd' < fd \<longrightarrow> sock_of st fd' \<noteq> None)"
    using fresh_fd_bounds [of "fds st"] by (auto simp: fd st' sock_of_def)
  show "sock_of st' = (sock_of st)(fd := Some s)"
  proof
    fix x
    have "nat x = ?n" if "0 \<le> x" "x = int ?n" using that by simp
    then show "sock_of st' x = ((sock_of st)(fd := Some s)) x"
      using fresh_fd_bounds [of "fds st"]
      by (auto simp: fd st' sock_of_def nth_append min_def nth_Cons' Suc_diff_Suc)
  qed
qed

lemma sock_of_close [simp]: "sock_of (close_fd fd st) = (sock_of st)(fd := None)"
proof (cases "sock_of st fd = None")
  case True
  then show ?thesis by (auto simp: close_fd_def)
next
  case False
  then have "0 \<le> fd" "nat fd < length (fds st)" using sock_of_bounds by blast+
  then show ?thesis using False
    by (auto simp: close_fd_def sock_of_def fun_eq_iff eq_nat_nat_iff nth_list_update)
qed

lemma interest_close:
  "interest (close_fd fd st) = (if sock_of st fd = None then interest st else (interest st)(fd := None))"
  by (simp add: close_fd_def)

lemma close_fd_keeps [simp]:
  "os.more (close_fd fd st) = os.more st"
  "accepts (close_fd fd st) = accepts st"
  "now (close_fd fd st) = now st"
  "dns (close_fd fd st) = dns st"
  "allocs (close_fd fd st) = allocs st"
  by (simp_all add: close_fd_def)

text \<open>What \<open>epoll_ctl\<close> changes is the entry of one descriptor.\<close>

lemma epoll_add_cases:
  assumes "epoll_add_fd fd ev d st = (ok, st')"
  shows "(ok \<and> sock_of st fd \<noteq> None \<and> interest st fd = None \<and>
      interest st' = (interest st)(fd \<mapsto> (ev, d)) \<or> \<not> ok \<and> interest st' = interest st) \<and>
    sock_of st' = sock_of st \<and> os.more st' = os.more st \<and> accepts st' = accepts st \<and>
    now st' = now st \<and> dns st' = dns st \<and> allocs st' = allocs st"
  using assms by (auto simp: epoll_add_fd_def ctl_ok_def fun_eq_iff split: list.splits if_splits)

lemma epoll_mod_cases:
  assumes "epoll_mod_fd fd ev d st = (ok, st')"
  shows "(ok \<and> sock_of st fd \<noteq> None \<and> interest st fd \<noteq> None \<and>
      interest st' = (interest st)(fd \<mapsto> (ev, d)) \<or> \<not> ok \<and> interest st' = interest st) \<and>
    sock_of st' = sock_of st \<and> os.more st' = os.more st \<and> accepts st' = accepts st \<and>
    now st' = now st \<and> dns st' = dns st \<and> allocs st' = allocs st"
  using assms by (auto simp: epoll_mod_fd_def ctl_ok_def fun_eq_iff split: list.splits if_splits)

lemma epoll_del_cases:
  assumes "epoll_del_fd fd st = (ok, st')"
  shows "(interest st' = interest st \<or> interest st' = (interest st)(fd := None)) \<and>
    sock_of st' = sock_of st \<and> os.more st' = os.more st \<and> accepts st' = accepts st \<and>
    now st' = now st \<and> dns st' = dns st \<and> allocs st' = allocs st"
  using assms by (auto simp: epoll_del_fd_def ctl_ok_def fun_eq_iff split: list.splits if_splits)

lemma socket_cases:
  assumes "socket st = (fd, st')"
  shows "(fd = - 1 \<and> sock_of st' = sock_of st \<or>
      0 \<le> fd \<and> sock_of st fd = None \<and> (\<exists>s. sock_of st' = (sock_of st)(fd := Some s))) \<and>
    interest st' = interest st \<and> os.more st' = os.more st \<and> accepts st' = accepts st \<and>
    now st' = now st \<and> dns st' = dns st \<and> allocs st' = allocs st"
proof (cases "sockets st")
  case (Cons x r)
  show ?thesis
  proof (cases x)
    case (Some s)
    let ?st = "st\<lparr>sockets := r\<rparr>"
    have o: "open_fd s ?st = (fd, st')" using assms Cons Some by (simp add: socket_def)
    show ?thesis using sock_of_open [OF o] by (auto simp: fun_eq_iff intro!: exI [of _ s])
  qed (use assms Cons in \<open>auto simp: socket_def fun_eq_iff\<close>)
qed (use assms in \<open>auto simp: socket_def\<close>)

end
