(* ===== verification/Registry.thy ===== *)
theory Registry
  imports Prelude
begin

text \<open>
  The table of live clients, \<open>src/main/client_registry.c\<close>: an array of \<open>MAX_CLIENTS\<close>
  pointers, 0 for an empty slot.
\<close>

section \<open>The code\<close>

definition MAX_CLIENTS :: nat where
  "MAX_CLIENTS = 1024"

definition state_registry_init :: "nat list" where
  "state_registry_init = replicate MAX_CLIENTS 0"

fun first_free :: "nat list \<Rightarrow> nat option" where
  "first_free [] = None"
| "first_free (p # ps) = (if p = 0 then Some 0 else map_option Suc (first_free ps))"

text \<open>\<open>None\<close> stands for the return value -1.\<close>

definition state_registry_add :: "nat \<Rightarrow> nat list \<Rightarrow> nat option \<times> nat list" where
  "state_registry_add client clients =
     (case first_free clients of
        Some i \<Rightarrow> (Some i, clients[i := client])
      | None \<Rightarrow> (None, clients))"

definition state_registry_remove :: "nat \<Rightarrow> nat list \<Rightarrow> nat list result" where
  "state_registry_remove slot clients =
     (if slot < length clients then Inr (clients[slot := 0]) else Inl OutOfBounds)"

text \<open>
  The loop of \<open>state_registry_for_each\<close> over the slots \<open>is\<close>: the callback runs on the state
  that holds the table, and the slot is read when its turn comes.
\<close>

fun for_each_slot ::
    "('w \<Rightarrow> nat list) \<Rightarrow> (nat \<Rightarrow> 'w \<Rightarrow> 'w result) \<Rightarrow> nat list \<Rightarrow> 'w \<Rightarrow> 'w result" where
  "for_each_slot clients callback [] w = Inr w"
| "for_each_slot clients callback (i # is) w =
     (if clients w ! i = 0 then for_each_slot clients callback is w
      else bindR (callback (clients w ! i) w) (for_each_slot clients callback is))"

definition state_registry_for_each ::
    "('w \<Rightarrow> nat list) \<Rightarrow> (nat \<Rightarrow> 'w \<Rightarrow> 'w result) \<Rightarrow> 'w \<Rightarrow> 'w result" where
  "state_registry_for_each clients callback = for_each_slot clients callback [0..<MAX_CLIENTS]"

lemma for_each_slot_inv:
  assumes "\<And>i w w'. i \<in> set is \<Longrightarrow> I w \<Longrightarrow> clients w ! i \<noteq> 0 \<Longrightarrow> callback (clients w ! i) w = Inr w' \<Longrightarrow> I w'"
    and "I w" and "for_each_slot clients callback is w = Inr w'"
  shows "I w'"
  using assms
proof (induction "is" arbitrary: w)
  case (Cons i js)
  show ?case
  proof (cases "clients w ! i = 0")
    case True
    then show ?thesis using Cons.prems Cons.IH [of w] by auto
  next
    case False
    then obtain w1 where "callback (clients w ! i) w = Inr w1" "for_each_slot clients callback js w1 = Inr w'"
      using Cons.prems(3) by (auto simp: bindR_eq_Inr)
    then show ?thesis using Cons.prems(1) [of i w w1] Cons.prems(2) False Cons.IH [of w1] Cons.prems(1) by auto
  qed
qed simp

lemma for_each_slot_total:
  assumes "\<And>i w. i \<in> set is \<Longrightarrow> I w \<Longrightarrow> clients w ! i \<noteq> 0 \<Longrightarrow> \<exists>w'. callback (clients w ! i) w = Inr w' \<and> I w'"
    and "I w"
  shows "\<exists>w'. for_each_slot clients callback is w = Inr w' \<and> I w'"
  using assms
proof (induction "is" arbitrary: w)
  case (Cons i js)
  show ?case
  proof (cases "clients w ! i = 0")
    case True
    then show ?thesis using Cons.prems Cons.IH [of w] by auto
  next
    case False
    then obtain w1 where "callback (clients w ! i) w = Inr w1" "I w1"
      using Cons.prems(1) [of i w] Cons.prems(2) by auto
    then show ?thesis using False Cons.IH [of w1] Cons.prems(1) by auto
  qed
qed simp

section \<open>The interface\<close>

text \<open>
  What the event loop relies on: a new pointer goes into the lowest empty slot and changes no
  other one, only a full table refuses it, and removal empties exactly the given slot.
\<close>

locale slot_table =
  fixes slots :: nat
    and get :: "'t \<Rightarrow> nat \<Rightarrow> nat"
    and add :: "nat \<Rightarrow> 't \<Rightarrow> nat option \<times> 't"
    and remove :: "nat \<Rightarrow> 't \<Rightarrow> 't result"
    and inv :: "'t \<Rightarrow> bool"
  assumes add_slot: "inv t \<Longrightarrow> add p t = (Some i, t') \<Longrightarrow>
      i < slots \<and> get t i = 0 \<and> (\<forall>j < i. get t j \<noteq> 0) \<and> inv t' \<and> get t' = (get t)(i := p)"
    and add_full: "inv t \<Longrightarrow> add p t = (None, t') \<Longrightarrow> t' = t \<and> (\<forall>i < slots. get t i \<noteq> 0)"
    and remove_slot: "inv t \<Longrightarrow> i < slots \<Longrightarrow>
      \<exists>t'. remove i t = Inr t' \<and> inv t' \<and> get t' = (get t)(i := 0)"
begin

definition members :: "'t \<Rightarrow> nat set" where
  "members t = {p. p \<noteq> 0 \<and> (\<exists>i < slots. get t i = p)}"

definition once :: "'t \<Rightarrow> bool" where
  "once t \<longleftrightarrow> (\<forall>i < slots. \<forall>j < slots. get t i = get t j \<longrightarrow> get t i = 0 \<or> i = j)"

lemma add_members: "inv t \<Longrightarrow> add p t = (Some i, t') \<Longrightarrow> p \<noteq> 0 \<Longrightarrow> members t' = insert p (members t)"
proof -
  assume "inv t" "add p t = (Some i, t')" "p \<noteq> 0"
  with add_slot [of t p i t'] have "i < slots" "get t i = 0" "get t' = (get t)(i := p)" by auto
  with \<open>p \<noteq> 0\<close> show ?thesis
    unfolding members_def by (auto split: if_splits) (metis less_irrefl)
qed

lemma add_once: "inv t \<Longrightarrow> add p t = (Some i, t') \<Longrightarrow> p \<notin> members t \<Longrightarrow> once t \<Longrightarrow> once t'"
  by (frule (1) add_slot) (auto simp: members_def once_def)

lemma remove_members:
  "inv t \<Longrightarrow> i < slots \<Longrightarrow> once t \<Longrightarrow> remove i t = Inr t' \<Longrightarrow>
     once t' \<and> members t' = members t - {get t i}"
proof -
  assume t: "inv t" "i < slots" "once t" "remove i t = Inr t'"
  then have g: "get t' = (get t)(i := 0)" using remove_slot [of t i] by auto
  show "once t' \<and> members t' = members t - {get t i}"
    using t(2,3) unfolding members_def once_def g by (auto split: if_splits)
qed

text \<open>A pointer that was added can be added again after its removal: no slot is lost.\<close>

lemma remove_add: "inv t \<Longrightarrow> i < slots \<Longrightarrow> remove i t = Inr t' \<Longrightarrow> \<exists>j t''. add p t' = (Some j, t'') \<and> j \<le> i"
proof -
  assume t: "inv t" "i < slots" "remove i t = Inr t'"
  then have t': "inv t'" "get t' i = 0" using remove_slot [of t i] by auto
  show ?thesis
  proof (cases "add p t'")
    case (Pair r t'')
    show ?thesis
    proof (cases r)
      case None
      then show ?thesis using add_full [of t' p t''] t' t(2) Pair by auto
    next
      case (Some j)
      then have "\<not> i < j" using add_slot [of t' p j t''] t' Pair by auto
      then show ?thesis using Some Pair by auto
    qed
  qed
qed

end

lemma first_free_Some: "first_free t = Some i \<longleftrightarrow> i < length t \<and> t ! i = 0 \<and> (\<forall>j < i. t ! j \<noteq> 0)"
proof (induction t arbitrary: i)
  case (Cons p ps)
  then show ?case by (cases i) (auto simp: All_less_Suc2)
qed simp

lemma first_free_None: "first_free t = None \<longleftrightarrow> (\<forall>i < length t. t ! i \<noteq> 0)"
  by (induction t) (auto simp: All_less_Suc2)

definition registry_get :: "nat list \<Rightarrow> nat \<Rightarrow> nat" where
  "registry_get t i = (if i < length t then t ! i else 0)"

interpretation reg: slot_table MAX_CLIENTS registry_get state_registry_add state_registry_remove
    "\<lambda>t. length t = MAX_CLIENTS"
  by unfold_locales
     (auto simp: state_registry_add_def state_registry_remove_def registry_get_def fun_eq_iff
        first_free_Some first_free_None nth_list_update split: option.splits)

section \<open>Properties\<close>

text \<open>
  Registering a client uses the lowest empty slot, refuses only when all 1024 slots are
  taken, keeps every other entry, and a slot given back by \<open>state_registry_remove\<close> can be
  used again.
\<close>

theorem registry_slots:
  assumes "length t = MAX_CLIENTS"
  shows "case state_registry_add p t of
      (Some i, t') \<Rightarrow> i < MAX_CLIENTS \<and> t ! i = 0 \<and> (\<forall>j < i. t ! j \<noteq> 0) \<and> t' = t[i := p] \<and>
        state_registry_remove i t' = Inr t
    | (None, t') \<Rightarrow> t' = t \<and> (\<forall>i < MAX_CLIENTS. t ! i \<noteq> 0)"
  using assms
  by (auto simp: state_registry_add_def state_registry_remove_def first_free_Some first_free_None
      split: option.splits) (metis list_update_id)

theorem registry_slots_witness:
  "case state_registry_add 7 state_registry_init of
      (Some i, t') \<Rightarrow> i < MAX_CLIENTS \<and> state_registry_init ! i = 0 \<and>
        (\<forall>j < i. state_registry_init ! j \<noteq> 0) \<and> t' = state_registry_init[i := 7] \<and>
        state_registry_remove i t' = Inr state_registry_init
    | (None, t') \<Rightarrow> t' = state_registry_init \<and> (\<forall>i < MAX_CLIENTS. state_registry_init ! i \<noteq> 0)"
  by (rule registry_slots) (simp add: state_registry_init_def)

end
