(* ===== verification/World.thy ===== *)
theory World
  imports Os Registry
begin

text \<open>
  The memory of the proxy process: client states (\<open>src/main/client.c\<close>), the data records
  that epoll carries (\<open>src/main/epoll_util.c\<close>) and the registry of clients, beside the
  kernel. Pointers are numbers, 0 is the null pointer; an allocation takes the next unused
  number, so a use of freed memory is seen as such.
\<close>

section \<open>Data\<close>

definition MAX_BUFFER_SIZE :: nat where
  "MAX_BUFFER_SIZE = 4096"

datatype client_phase =
    READING_REQUEST | AUTHENTICATING | INITIALIZE_CONNECTION | CONNECTING | FORWARDING | CLOSING | CLOSED

datatype fd_type = EPOLL_FD_LISTENER | EPOLL_FD_CLIENT | EPOLL_FD_TARGET | EPOLL_FD_TIMER

text \<open>
  \<open>ClientState\<close>. A buffer is the list of bytes written to it so far, from its start;
  what lies behind them up to the capacity is not initialised.
\<close>

record client =
  client_fd :: int
  target_fd :: int
  client_closed :: bool
  target_closed :: bool
  slot :: nat
  last_active :: int
  expired :: bool
  request_buffer :: string
  request_len :: nat
  request_capacity :: nat
  response_buffer :: string
  response_len :: nat
  response_capacity :: nat
  phase :: client_phase
  host :: string
  port :: int
  is_https :: bool

text \<open>\<open>EpollData\<close>\<close>

record edata =
  client_ptr :: nat
  fd_type :: fd_type

record 's world = "'s os" +
  edatas :: "nat \<rightharpoonup> edata"
  clients :: "nat \<rightharpoonup> client"
  brk :: nat
  registry :: "nat list"

section \<open>Memory\<close>

definition malloc :: "('s, 'z) auth_state_scheme \<Rightarrow> bool \<times> ('s, 'z) auth_state_scheme" where
  "malloc w = (let (ok, m) = malloc_ok (allocs w) in (ok, w\<lparr>allocs := m\<rparr>))"

definition deref :: "(nat \<rightharpoonup> 'a) \<Rightarrow> nat \<Rightarrow> 'a result" where
  "deref h p = (if p = 0 then Inl NullDeref else case h p of None \<Rightarrow> Inl UseAfterFree | Some x \<Rightarrow> Inr x)"

definition put_client :: "nat \<Rightarrow> client \<Rightarrow> 's world \<Rightarrow> 's world" where
  "put_client p c w = w\<lparr>clients := (clients w)(p \<mapsto> c)\<rparr>"

definition free_edata :: "nat \<Rightarrow> 's world \<Rightarrow> 's world result" where
  "free_edata p w =
     (if p = 0 then Inr w
      else if edatas w p = None then Inl InvalidFree
      else Inr (w\<lparr>edatas := (edatas w)(p := None)\<rparr>))"

section \<open>Client states\<close>

definition new_client :: "int \<Rightarrow> int \<Rightarrow> client" where
  "new_client fd time =
     \<lparr>client_fd = fd, target_fd = - 1, client_closed = False, target_closed = False, slot = 0,
      last_active = time, expired = False,
      request_buffer = [], request_len = 0, request_capacity = MAX_BUFFER_SIZE,
      response_buffer = [], response_len = 0, response_capacity = MAX_BUFFER_SIZE,
      phase = READING_REQUEST, host = [], port = 80, is_https = False\<rparr>"

text \<open>The new pointer, 0 when one of the three allocations fails.\<close>

definition create_client_state :: "int \<Rightarrow> 's world \<Rightarrow> nat \<times> 's world" where
  "create_client_state fd w =
     (let (ok, w) = malloc w in
      if \<not> ok then (0, w)
      else
        (let (ok1, w) = malloc w;
             (ok2, w) = malloc w
         in if \<not> ok1 \<or> \<not> ok2 then (0, w)
            else (brk w, w\<lparr>clients := (clients w)(brk w \<mapsto> new_client fd (now w)), brk := brk w + 1\<rparr>)))"

definition free_client_state :: "nat \<Rightarrow> 's world \<Rightarrow> 's world result" where
  "free_client_state p w =
     (if p = 0 then Inr w
      else bindR (deref (clients w) p) (\<lambda>c.
        (let w = (if client_fd c \<noteq> - 1 then close_fd (client_fd c) w else w);
             w = (if target_fd c \<noteq> - 1
                  then close_fd (target_fd c) (snd (epoll_del_fd (target_fd c) w)) else w)
         in Inr (w\<lparr>clients := (clients w)(p := None)\<rparr>))))"

text \<open>The text of the debugging build's \<open>print_client_state\<close>, whose pointer may be null.\<close>

fun state_to_str :: "client_phase \<Rightarrow> string" where
  "state_to_str READING_REQUEST = ''READING_REQUEST''"
| "state_to_str AUTHENTICATING = ''AUTHENTICATING''"
| "state_to_str INITIALIZE_CONNECTION = ''INITIALIZE_CONNECTION''"
| "state_to_str CONNECTING = ''CONNECTING''"
| "state_to_str FORWARDING = ''FORWARDING''"
| "state_to_str CLOSING = ''CLOSING''"
| "state_to_str CLOSED = ''CLOSED''"

definition show_bool :: "bool \<Rightarrow> string" where
  "show_bool b = (if b then ''true'' else ''false'')"

definition print_client_state :: "client option \<Rightarrow> string" where
  "print_client_state state =
     (case state of
        None \<Rightarrow> ''ClientState: NULL'' @ [LF]
      | Some c \<Rightarrow>
          ''=== ClientState ==='' @ [LF] @
          ''client_fd       : '' @ show_int (client_fd c) @ [LF] @
          ''target_fd       : '' @ show_int (target_fd c) @ [LF] @
          ''client_closed   : '' @ show_bool (client_closed c) @ [LF] @
          ''target_closed   : '' @ show_bool (target_closed c) @ [LF] @
          ''expired         : '' @ show_bool (expired c) @ [LF] @
          ''slot            : '' @ show_nat (slot c) @ [LF] @
          ''last_active     : '' @ show_int (last_active c) @ [LF] @
          ''state           : '' @ state_to_str (phase c) @ [LF] @
          ''host            : '' @ host c @ [LF] @
          ''port            : '' @ show_int (port c) @ [LF] @
          ''is_https        : '' @ show_bool (is_https c) @ [LF] @
          ''request_len     : '' @ show_nat (request_len c) @ [LF] @
          ''response_len    : '' @ show_nat (response_len c) @ [LF] @
          ''==================='' @ [LF])"

section \<open>Registration with epoll\<close>

definition epoll_create_data :: "fd_type \<Rightarrow> nat \<Rightarrow> 's world \<Rightarrow> nat \<times> 's world" where
  "epoll_create_data t p w =
     (let (ok, w) = malloc w in
      if \<not> ok then (0, w)
      else (brk w, w\<lparr>edatas := (edatas w)(brk w \<mapsto> \<lparr>client_ptr = p, fd_type = t\<rparr>), brk := brk w + 1\<rparr>))"

text \<open>The pointer to the new client, 0 on failure; every failure path closes the descriptor.\<close>

definition epoll_register_client :: "int \<Rightarrow> 32 word \<Rightarrow> 's world \<Rightarrow> (nat \<times> 's world) result" where
  "epoll_register_client fd events w =
     (let w = set_nonblocking fd w;
          (p, w) = create_client_state fd w
      in if p = 0 then Inr (0, close_fd fd w)
         else
           (let (d, w) = epoll_create_data EPOLL_FD_CLIENT p w in
            if d = 0 then bindR (free_client_state p w) (\<lambda>w. Inr (0, w))
            else
              (let (ok, w) = epoll_add_fd fd events d w in
               if \<not> ok
               then bindR (free_edata d w) (\<lambda>w. bindR (free_client_state p w) (\<lambda>w. Inr (0, w)))
               else Inr (p, w))))"

end
