(* ===== verification/HostPort.thy ===== *)
theory HostPort
  imports CLib
begin

text \<open>
  The target of a request, \<open>parse_host_port\<close> of \<open>src/main/util.c\<close>: the value of the
  \<open>Host\<close> header, cut to the 255 bytes of the buffer and split at its first colon. The
  result is \<open>None\<close> for the return value -1.
\<close>

definition host_header :: "string \<Rightarrow> string option" where
  "host_header request =
     (case strstr request (LF # ''Host:'') of
        Some h \<Rightarrow> Some h
      | None \<Rightarrow> strstr request (LF # ''host:''))"

text \<open>\<open>end - host_header\<close>\<close>

definition value_len :: "string \<Rightarrow> nat" where
  "value_len h =
     length h - length (case strchr h CR of
         Some e \<Rightarrow> e
       | None \<Rightarrow> (case strchr h LF of Some e \<Rightarrow> e | None \<Rightarrow> []))"

definition split_port :: "string \<Rightarrow> string \<times> int" where
  "split_port host_port =
     (case strchr host_port (CHR '':'') of
        Some colon \<Rightarrow> (take (length host_port - length colon) host_port, atoi (drop 1 colon))
      | None \<Rightarrow> (host_port, 80))"

definition parse_host_port :: "string \<Rightarrow> (string \<times> int) option" where
  "parse_host_port request =
     (case host_header request of
        None \<Rightarrow> None
      | Some h \<Rightarrow>
          (let h = dropWhile (\<lambda>c. c = CHR '' '' \<or> c = TAB) (drop 6 h);
               len = (if value_len h \<ge> 256 then 255 else value_len h)
           in Some (split_port (take len h))))"

section \<open>The header is found\<close>

lemma strstr_line:
  assumes "\<not> sublist (LF # n) pre" and "LF \<notin> set n"
  shows "strstr (pre @ LF # n @ r) (LF # n) = Some (LF # n @ r)"
proof (rule strstr_first)
  fix q assume q: "suffix q pre" "q \<noteq> []"
  show "\<not> prefix (LF # n) (q @ LF # n @ r)"
  proof
    assume "prefix (LF # n) (q @ LF # n @ r)"
    then consider "prefix (LF # n) q" | z where "LF # n = q @ z" "prefix z (LF # n @ r)"
      by (auto simp: prefix_append)
    then show False
    proof cases
      case 1
      then show False using assms(1) q(1)
        by (meson prefix_imp_sublist suffix_imp_sublist sublist_order.order_trans)
    next
      case 2
      then obtain q' where q': "q = LF # q'" using q(2) by (cases q) auto
      show False
      proof (cases z)
        case Nil
        then show False using 2 assms(1) q(1) by (auto dest: suffix_imp_sublist)
      next
        case (Cons c z')
        then show False using 2 q' assms(2) by auto
      qed
    qed
  qed
qed simp_all

lemma find_host:
  "\<not> sublist (LF # ''Host:'') pre \<Longrightarrow>
     host_header (pre @ LF # ''Host:'' @ r) = Some (LF # ''Host:'' @ r)"
  using strstr_line [of "''Host:''" pre r] by (simp add: host_header_def)

lemma host_port_line:
  assumes "\<not> sublist (LF # ''Host:'') pre" and "list_all (\<lambda>c. c = CHR '' '' \<or> c = TAB) sp"
    and "CR \<notin> set v" and "v \<noteq> []" and "hd v \<noteq> CHR '' ''" and "hd v \<noteq> TAB"
  shows "parse_host_port (pre @ LF # ''Host:'' @ sp @ v @ CR # rest) = Some (split_port (take 255 v))"
proof -
  obtain c v' where v: "v = c # v'" using assms(4) by (cases v) auto
  have "dropWhile (\<lambda>c. c = CHR '' '' \<or> c = TAB) (sp @ v @ CR # rest) = v @ CR # rest"
    using assms(2,5,6) unfolding v
    by (simp add: list_all_iff dropWhile_append3 dropWhile_append2)
  then have d: "dropWhile (\<lambda>c. c = CHR '' '' \<or> c = TAB)
      (drop 6 (LF # ''Host:'' @ sp @ v @ CR # rest)) = v @ CR # rest" by simp
  have "value_len (v @ CR # rest) = length v"
    using assms(3) by (simp add: value_len_def)
  then show ?thesis
    unfolding parse_host_port_def find_host [OF assms(1)] option.case(2) Let_def d by simp
qed

lemma split_portD:
  "split_port v = (h, p) \<Longrightarrow>
     (\<exists>t. v = h @ t) \<and> CHR '':'' \<notin> set h \<and> - (2 ^ 31) \<le> p \<and> p < 2 ^ 31"
  using atoi_bounds
  by (auto simp: split_port_def strchr_None_iff split: option.splits elim!: strchr_SomeE)

lemma split_port_pair:
  "CHR '':'' \<notin> set h \<Longrightarrow> split_port (h @ CHR '':'' # s) = (h, atoi s)"
  by (simp add: split_port_def)

section \<open>Properties\<close>

lemma parsed_bounds:
  "parse_host_port request = Some (h, p) \<Longrightarrow>
     length h \<le> 255 \<and> CHR '':'' \<notin> set h \<and> (c_string request \<longrightarrow> c_string h) \<and>
     - (2 ^ 31) \<le> p \<and> p < 2 ^ 31"
proof -
  assume "parse_host_port request = Some (h, p)"
  then obtain line where line: "host_header request = Some line"
    and r: "(let h = dropWhile (\<lambda>c. c = CHR '' '' \<or> c = TAB) (drop 6 line);
                 len = (if value_len h \<ge> 256 then 255 else value_len h)
             in split_port (take len h)) = (h, p)"
    by (auto simp: parse_host_port_def Let_def split: option.splits)
  obtain n where n: "n \<le> 255"
    and hp: "split_port (take n (dropWhile (\<lambda>c. c = CHR '' '' \<or> c = TAB) (drop 6 line))) = (h, p)"
    by (rule that [OF _ r [unfolded Let_def]]) simp
  from split_portD [OF hp] obtain t where
    t: "take n (dropWhile (\<lambda>c. c = CHR '' '' \<or> c = TAB) (drop 6 line)) = h @ t" by blast
  then have "length h \<le> 255" using n by (metis length_append length_take le_add1 min.cobounded2 le_trans)
  moreover have "set h \<subseteq> set line"
  proof
    fix c assume "c \<in> set h"
    then have "c \<in> set (take n (dropWhile (\<lambda>c. c = CHR '' '' \<or> c = TAB) (drop 6 line)))" by (simp add: t)
    then show "c \<in> set line" by (meson in_set_dropD in_set_takeD set_dropWhileD)
  qed
  moreover have "set line \<subseteq> set request"
    using line by (auto simp: host_header_def suffix_def split: option.splits dest!: strstr_SomeD)
  ultimately show ?thesis using split_portD [OF hp] by (auto simp: c_string_def)
qed

text \<open>
  Whatever the request, a host name that \<open>parse_host_port\<close> returns is at most 255 bytes
  long, so that with its terminator it fits \<open>host[256]\<close> of the client state; it holds no
  colon and, for a C string, no NUL byte, and the port fits an \<open>int\<close>.
\<close>

theorem host_port_bounds:
  "parse_host_port request = Some (h, p) \<Longrightarrow>
     length h \<le> 255 \<and> CHR '':'' \<notin> set h \<and> (c_string request \<longrightarrow> c_string h) \<and>
     - (2 ^ 31) \<le> p \<and> p < 2 ^ 31"
  by (rule parsed_bounds)

text \<open>
  C35: round trip with the header a client writes: after a request line, the first \<open>Host\<close>
  header \<open>h:port\<close> of at most 255 bytes gives back exactly \<open>h\<close> and \<open>port\<close>.
\<close>

theorem host_port_round_trip:
  assumes "\<not> sublist (LF # ''Host:'') pre"
    and "h \<noteq> []" and "hd h \<noteq> CHR '' ''" and "hd h \<noteq> TAB" and "CR \<notin> set h" and "CHR '':'' \<notin> set h"
    and "length (h @ CHR '':'' # show_int port) \<le> 255" and "0 \<le> port" and "port < 2 ^ 31"
  shows "parse_host_port (pre @ LF # ''Host:'' @ '' '' @ (h @ CHR '':'' # show_int port) @ CR # rest) =
    Some (h, port)"
proof -
  let ?v = "h @ CHR '':'' # show_int port"
  have "CR \<notin> set ?v"
    using assms(5) show_int_chars by (fastforce simp: isdigit_def code_def)
  moreover have "hd ?v = hd h" using assms(2) by simp
  ultimately have "parse_host_port (pre @ LF # ''Host:'' @ '' '' @ ?v @ CR # rest) =
      Some (split_port (take 255 ?v))"
    using assms by (intro host_port_line) auto
  moreover have "take 255 ?v = ?v" using assms(7) by simp
  ultimately show ?thesis
    using assms(6,8,9) atoi_show_int [of port] split_port_pair by simp
qed

theorem host_port_round_trip_witness:
  "parse_host_port (''CONNECT example.org:443 HTTP/1.1'' @ [CR] @ LF # ''Host:'' @ '' '' @
     (''example.org'' @ CHR '':'' # show_int 443) @ CR # [LF, CR, LF]) = Some (''example.org'', 443)"
proof -
  have "parse_host_port ((''CONNECT example.org:443 HTTP/1.1'' @ [CR]) @ LF # ''Host:'' @ '' '' @
     (''example.org'' @ CHR '':'' # show_int 443) @ CR # [LF, CR, LF]) = Some (''example.org'', 443)"
    by (rule host_port_round_trip)
       (simp_all add: show_int_def show_nat.simps flip: strstr_None_iff)
  then show ?thesis by simp
qed

theorem host_port_bounds_witness:
  "parse_host_port (LF # ''host: a'') = Some (''a'', 80) \<and> length ''a'' \<le> 255"
proof -
  have "parse_host_port (LF # ''host: a'') = Some (''a'', 80)"
    by (simp add: parse_host_port_def host_header_def value_len_def split_port_def strchr_def)
  then show ?thesis using host_port_bounds [of "LF # ''host: a''" "''a''" 80] by blast
qed

end
