(* ===== verification/Connection.thy ===== *)
theory Connection
  imports World HostPort
begin

text \<open>
  Moving bytes, \<open>src/main/connection.c\<close>: connecting to the target, and the relay between
  the two sockets of a client through its two buffers. Functions that take a
  \<open>ClientState *\<close> take and return the record; the caller stores it back.
\<close>

section \<open>Buffers\<close>

text \<open>A write of \<open>bytes\<close> at offset \<open>off\<close> of a block of \<open>cap\<close> bytes.\<close>

definition buf_write :: "nat \<Rightarrow> string \<Rightarrow> nat \<Rightarrow> string \<Rightarrow> string result" where
  "buf_write cap buf off bytes =
     (if off + length bytes \<le> cap
      then Inr (take off buf @ bytes @ drop (off + length bytes) buf) else Inl HeapOverflow)"

text \<open>\<open>memmove(buffer, buffer + s, len - s)\<close>\<close>

definition buf_shift :: "nat \<Rightarrow> nat \<Rightarrow> string \<Rightarrow> string" where
  "buf_shift s len buf = take (len - s) (drop s buf) @ drop (len - s) buf"

text \<open>The difference of two values of type \<open>size_t\<close>.\<close>

definition size_diff :: "nat \<Rightarrow> nat \<Rightarrow> nat" where
  "size_diff a b = (if b \<le> a then a - b else 2 ^ 64 + a - b)"

section \<open>Receiving until nothing is left\<close>

fun rx_weight :: "rx list \<Rightarrow> nat" where
  "rx_weight [] = 0"
| "rx_weight (Bytes b # r) = Suc (length b) + rx_weight r"
| "rx_weight (RxAgain # r) = Suc (rx_weight r)"
| "rx_weight (RxFin # r) = Suc (rx_weight r)"
| "rx_weight (RxErr # r) = Suc (rx_weight r)"

definition rx_left :: "('s, 'z) os_scheme \<Rightarrow> int \<Rightarrow> nat" where
  "rx_left st fd = (case sock_of st fd of None \<Rightarrow> 0 | Some s \<Rightarrow> rx_weight (rx s))"

lemma recv_Got_decreases: "recv fd room st = (Got d, st') \<Longrightarrow> rx_left st' fd < rx_left st fd"
  by (auto simp: recv_def rx_left_def sock_of_set_sock split: option.splits list.splits rx.splits if_splits)

text \<open>Bytes received in total, or -2 for a closed and -1 for a broken connection.\<close>

function recv_loop ::
    "int \<Rightarrow> nat \<Rightarrow> int \<Rightarrow> string \<Rightarrow> nat \<Rightarrow> ('s, 'z) os_scheme
     \<Rightarrow> (int \<times> string \<times> nat \<times> ('s, 'z) os_scheme) result" where
  "recv_loop fd cap tot buf len st =
     (case recv fd (size_diff cap len) st of
        (Got d, st) \<Rightarrow>
          bindR (buf_write cap buf len d) (\<lambda>buf.
            recv_loop fd cap (tot + int (length d)) buf (len + length d) st)
      | (Zero, st) \<Rightarrow> Inr (if tot > 0 then tot else - 2, buf, len, st)
      | (WouldBlock, st) \<Rightarrow> Inr (tot, buf, len, st)
      | (Failed, st) \<Rightarrow> Inr (- 1, buf, len, st))"
  by pat_completeness auto
termination
  by (relation "measure (\<lambda>(fd, cap, tot, buf, len, st). rx_left st fd)")
     (auto dest!: recv_Got_decreases [OF sym])

definition recv_into_buffer ::
    "int \<Rightarrow> string \<Rightarrow> nat \<Rightarrow> nat \<Rightarrow> ('s, 'z) os_scheme
     \<Rightarrow> (int \<times> string \<times> nat \<times> ('s, 'z) os_scheme) result" where
  "recv_into_buffer fd buf len cap st = recv_loop fd cap 0 buf len st"

section \<open>Sending until nothing is left\<close>

function send_loop ::
    "int \<Rightarrow> int \<Rightarrow> string \<Rightarrow> nat \<Rightarrow> ('s, 'z) os_scheme
     \<Rightarrow> (int \<times> string \<times> nat \<times> ('s, 'z) os_scheme) result" where
  "send_loop fd tot buf len st =
     (if len = 0 then Inr (tot, buf, len, st)
      else
        (case send True fd (take len buf) st of
           Inl u \<Rightarrow> Inl u
         | Inr (Sent s, st) \<Rightarrow>
             if 0 < s then send_loop fd (tot + int s) (buf_shift s len buf) (len - s) st
             else Inr (- 1, buf, len, st)
         | Inr (SendBlock, st) \<Rightarrow> Inr (tot, buf, len, st)
         | Inr (SendFailed, st) \<Rightarrow> Inr (- 1, buf, len, st)))"
  by pat_completeness auto
termination
  by (relation "measure (\<lambda>(fd, tot, buf, len, st). len)") auto

definition send_from_buffer ::
    "int \<Rightarrow> string \<Rightarrow> nat \<Rightarrow> ('s, 'z) os_scheme
     \<Rightarrow> (int \<times> string \<times> nat \<times> ('s, 'z) os_scheme) result" where
  "send_from_buffer fd buf len st = send_loop fd 0 buf len st"

declare recv_loop.simps [simp del] send_loop.simps [simp del]

section \<open>Connecting\<close>

definition established :: string where
  "established = ''HTTP/1.1 200 Connection Established'' @ [CR, LF, CR, LF]"

definition send_https_established :: "int \<Rightarrow> ('s, 'z) os_scheme \<Rightarrow> ('s, 'z) os_scheme result" where
  "send_https_established fd st = bindR (send False fd established st) (\<lambda>(_, st). Inr st)"

definition connection_connect ::
    "client \<Rightarrow> ('s, 'z) os_scheme \<Rightarrow> (int \<times> client \<times> ('s, 'z) os_scheme) result" where
  "connection_connect c st =
     (case dns st (host c) of
        None \<Rightarrow> Inr (- 1, c, st)
      | Some addr \<Rightarrow>
          (let (fd, st) = socket st;
               c = c\<lparr>target_fd := fd\<rparr>
           in if fd < 0 then Inr (- 1, c, st)
              else
                (let st = set_nonblocking fd st in
                 case connect fd addr (htons (port c)) st of
                   (ConnInProgress, st) \<Rightarrow> Inr (0, c, st)
                 | (ConnRefused, st) \<Rightarrow> Inr (- 1, c\<lparr>target_fd := - 1\<rparr>, close_fd fd st)
                 | (ConnNow, st) \<Rightarrow>
                     if is_https c
                     then bindR (send_https_established (client_fd c) st)
                            (\<lambda>st. Inr (1, c\<lparr>request_len := 0\<rparr>, st))
                     else Inr (1, c, st))))"

section \<open>The relay\<close>

definition forward_recv_client :: "client \<Rightarrow> ('s, 'z) os_scheme \<Rightarrow> (client \<times> ('s, 'z) os_scheme) result" where
  "forward_recv_client c st =
     bindR (recv_into_buffer (client_fd c) (request_buffer c) (request_len c) (request_capacity c) st)
       (\<lambda>(r, buf, len, st).
         (let c = c\<lparr>request_buffer := buf, request_len := len\<rparr>;
              c = (if r < 0 then c\<lparr>client_closed := True\<rparr> else c);
              c = (if r > 0 then c\<lparr>last_active := now st\<rparr> else c)
          in Inr (c, st)))"

definition forward_send_target :: "client \<Rightarrow> ('s, 'z) os_scheme \<Rightarrow> (client \<times> ('s, 'z) os_scheme) result" where
  "forward_send_target c st =
     bindR (send_from_buffer (target_fd c) (request_buffer c) (request_len c) st)
       (\<lambda>(s, buf, len, st).
         (let c = c\<lparr>request_buffer := buf, request_len := len\<rparr>;
              c = (if s < 0 then c\<lparr>target_closed := True\<rparr> else c);
              c = (if s > 0 then c\<lparr>last_active := now st\<rparr> else c)
          in Inr (c, st)))"

definition forward_recv_target :: "client \<Rightarrow> ('s, 'z) os_scheme \<Rightarrow> (client \<times> ('s, 'z) os_scheme) result" where
  "forward_recv_target c st =
     bindR (recv_into_buffer (target_fd c) (response_buffer c) (response_len c) (response_capacity c) st)
       (\<lambda>(r, buf, len, st).
         (let c = c\<lparr>response_buffer := buf, response_len := len\<rparr>;
              c = (if r < 0 then c\<lparr>target_closed := True\<rparr> else c);
              c = (if r > 0 then c\<lparr>last_active := now st\<rparr> else c)
          in Inr (c, st)))"

definition forward_send_client :: "client \<Rightarrow> ('s, 'z) os_scheme \<Rightarrow> (client \<times> ('s, 'z) os_scheme) result" where
  "forward_send_client c st =
     bindR (send_from_buffer (client_fd c) (response_buffer c) (response_len c) st)
       (\<lambda>(s, buf, len, st).
         (let c = c\<lparr>response_buffer := buf, response_len := len\<rparr>;
              c = (if s < 0 then c\<lparr>client_closed := True\<rparr> else c);
              c = (if s > 0 then c\<lparr>last_active := now st\<rparr> else c)
          in Inr (c, st)))"

definition do_if :: "bool \<Rightarrow> ('a \<Rightarrow> 'b \<Rightarrow> ('a \<times> 'b) result) \<Rightarrow> 'a \<times> 'b \<Rightarrow> ('a \<times> 'b) result" where
  "do_if b f = (\<lambda>(x, y). if b then f x y else Inr (x, y))"

definition connection_forward ::
    "fd_type \<Rightarrow> 32 word \<Rightarrow> client \<Rightarrow> ('s, 'z) os_scheme \<Rightarrow> (int \<times> client \<times> ('s, 'z) os_scheme) result" where
  "connection_forward t ev c st =
     (let is_client = (t = EPOLL_FD_CLIENT);
          is_target = (t = EPOLL_FD_TARGET);
          write_fd = (((request_len c > 0 \<and> is_target) \<or> (response_len c > 0 \<and> is_client)) \<and>
                      and ev EPOLLOUT \<noteq> 0);
          read_fd = (and ev EPOLLIN \<noteq> 0)
      in bindR (do_if (is_client \<and> read_fd) forward_recv_client (c, st)) (\<lambda>x.
         bindR (do_if (is_target \<and> write_fd) forward_send_target x) (\<lambda>x.
         bindR (do_if (is_target \<and> read_fd) forward_recv_target x) (\<lambda>x.
         bindR (do_if (is_client \<and> write_fd) forward_send_client x) (\<lambda>(c, st).
           Inr (if client_closed c \<and> target_closed c then - 1 else 0, c, st))))))"

section \<open>What the two loops do\<close>

fun rx_bytes :: "rx list \<Rightarrow> string" where
  "rx_bytes [] = []"
| "rx_bytes (Bytes b # r) = b @ rx_bytes r"
| "rx_bytes (RxAgain # r) = rx_bytes r"
| "rx_bytes (RxFin # r) = rx_bytes r"
| "rx_bytes (RxErr # r) = rx_bytes r"

text \<open>The bytes the peer of a descriptor has sent that are not read yet, and the bytes sent to it.\<close>

definition unread :: "('s, 'z) os_scheme \<Rightarrow> int \<Rightarrow> string" where
  "unread st fd = (case sock_of st fd of None \<Rightarrow> [] | Some s \<Rightarrow> rx_bytes (rx s))"

definition sent_to :: "('s, 'z) os_scheme \<Rightarrow> int \<Rightarrow> string" where
  "sent_to st fd = (case sock_of st fd of None \<Rightarrow> [] | Some s \<Rightarrow> sent s)"

text \<open>No descriptor but \<open>fd\<close> changes.\<close>

definition only_fd :: "int \<Rightarrow> ('s, 'z) os_scheme \<Rightarrow> ('s, 'z) os_scheme \<Rightarrow> bool" where
  "only_fd fd st st' \<longleftrightarrow> quiet st st' \<and> (\<forall>fd'. fd' \<noteq> fd \<longrightarrow> sock_of st' fd' = sock_of st fd')"

lemma only_fd_refl [simp]: "only_fd fd st st"
  by (simp add: only_fd_def)

lemma only_fd_trans: "only_fd fd st st' \<Longrightarrow> only_fd fd st' st'' \<Longrightarrow> only_fd fd st st''"
  by (auto simp: only_fd_def intro: quiet_trans)

lemma only_fd_sock: "only_fd fd st st' \<Longrightarrow> fd' \<noteq> fd \<Longrightarrow> sock_of st' fd' = sock_of st fd'"
  by (simp add: only_fd_def)

lemma only_fd_set_sock: "only_fd fd st (set_sock fd s st)"
  by (simp add: only_fd_def set_sock_quiet)

lemma recv_only: "recv fd n st = (r, st') \<Longrightarrow> only_fd fd st st'"
  by (auto simp: recv_def only_fd_set_sock split: option.splits list.splits rx.splits if_splits)

lemma send_only: "send f fd b st = Inr (r, st') \<Longrightarrow> only_fd fd st st'"
  by (auto simp: send_def only_fd_set_sock split: option.splits list.splits tx.splits if_splits)

lemma recv_stream:
  "recv fd n st = (r, st') \<Longrightarrow>
     sent_to st' fd = sent_to st fd \<and>
     (case r of Got d \<Rightarrow> d \<noteq> [] \<and> length d \<le> n \<and> unread st fd = d @ unread st' fd
      | _ \<Rightarrow> unread st' fd = unread st fd)"
  by (auto simp: recv_def unread_def sent_to_def split: option.splits list.splits rx.splits if_splits)

lemma send_stream:
  "send f fd b st = Inr (r, st') \<Longrightarrow>
     unread st' fd = unread st fd \<and>
     (case r of Sent n \<Rightarrow> n \<le> length b \<and> sent_to st' fd = sent_to st fd @ take n b
      | _ \<Rightarrow> sent_to st' fd = sent_to st fd)"
  by (auto simp: send_def unread_def sent_to_def min_def split: option.splits list.splits tx.splits if_splits)

lemma send_nosignal: "\<exists>x. send True fd b st = Inr x"
  by (simp add: send_def split: option.split list.split tx.split)

lemma size_diff_le [simp]: "b \<le> a \<Longrightarrow> size_diff a b = a - b"
  by (simp add: size_diff_def)

text \<open>A buffer that is used within its block.\<close>

definition buf_ok :: "string \<Rightarrow> nat \<Rightarrow> nat \<Rightarrow> bool" where
  "buf_ok buf len cap \<longleftrightarrow> len \<le> length buf \<and> length buf \<le> cap"

lemma buf_write_ok:
  "buf_ok buf len cap \<Longrightarrow> length d \<le> cap - len \<Longrightarrow>
     \<exists>buf'. buf_write cap buf len d = Inr buf' \<and> buf_ok buf' (len + length d) cap \<and>
       take (len + length d) buf' = take len buf @ d"
  by (auto simp: buf_ok_def buf_write_def)

lemma recv_loop_spec:
  assumes "buf_ok buf len cap"
  shows "\<exists>r buf' len' st' d. recv_loop fd cap tot buf len st = Inr (r, buf', len', st') \<and>
    buf_ok buf' len' cap \<and> only_fd fd st st' \<and> sent_to st' fd = sent_to st fd \<and>
    len' = len + length d \<and> take len' buf' = take len buf @ d \<and> unread st fd = d @ unread st' fd \<and>
    (r = tot + int (length d) \<or> r = - 1 \<or> r = - 2)"
  using assms
proof (induction fd cap tot buf len st rule: recv_loop.induct)
  case (1 fd cap tot buf len st)
  obtain res st1 where r: "recv fd (cap - len) st = (res, st1)" by fastforce
  have le: "len \<le> cap" using "1.prems" by (simp add: buf_ok_def)
  note str = recv_stream [OF r] and o1 = recv_only [OF r]
  show ?case
  proof (cases res)
    case (Got d)
    then have d: "d \<noteq> []" "length d \<le> cap - len" "unread st fd = d @ unread st1 fd"
      "sent_to st1 fd = sent_to st fd"
      using str by auto
    obtain buf1 where b: "buf_write cap buf len d = Inr buf1" "buf_ok buf1 (len + length d) cap"
      "take (len + length d) buf1 = take len buf @ d"
      using buf_write_ok [OF "1.prems" d(2)] by blast
    obtain r' buf' len' st' d' where IH:
      "recv_loop fd cap (tot + int (length d)) buf1 (len + length d) st1 = Inr (r', buf', len', st')"
      "buf_ok buf' len' cap" "only_fd fd st1 st'" "sent_to st' fd = sent_to st1 fd"
      "len' = len + length d + length d'" "take len' buf' = take (len + length d) buf1 @ d'"
      "unread st1 fd = d' @ unread st' fd"
      "r' = tot + int (length d) + int (length d') \<or> r' = - 1 \<or> r' = - 2"
      using "1.IH" [of "Got d" st1 d] r le b(2) unfolding Got by (metis size_diff_le)
    have "recv_loop fd cap tot buf len st = Inr (r', buf', len', st')"
      by (subst recv_loop.simps) (simp add: le r Got b(1) IH(1))
    then show ?thesis
      using IH d b o1 by (intro exI [of _ r'] exI [of _ buf'] exI [of _ len'] exI [of _ st'] exI [of _ "d @ d'"])
        (auto intro: only_fd_trans)
  next
    case Zero
    then show ?thesis using "1.prems" str o1 by (subst recv_loop.simps) (auto simp: le r)
  next
    case WouldBlock
    then show ?thesis using "1.prems" str o1 by (subst recv_loop.simps) (auto simp: le r)
  next
    case Failed
    then show ?thesis using "1.prems" str o1 by (subst recv_loop.simps) (auto simp: le r)
  qed
qed

lemma send_loop_spec:
  assumes "buf_ok buf len cap"
  shows "\<exists>r buf' len' st' d. send_loop fd tot buf len st = Inr (r, buf', len', st') \<and>
    buf_ok buf' len' cap \<and> only_fd fd st st' \<and> unread st' fd = unread st fd \<and>
    len = length d + len' \<and> take len buf = d @ take len' buf' \<and> sent_to st' fd = sent_to st fd @ d \<and>
    (r = tot + int (length d) \<or> r = - 1)"
  using assms
proof (induction fd tot buf len st rule: send_loop.induct)
  case (1 fd tot buf len st)
  show ?case
  proof (cases "len = 0")
    case True
    then show ?thesis using "1.prems" by (subst send_loop.simps) auto
  next
    case False
    obtain res st1 where r: "send True fd (take len buf) st = Inr (res, st1)"
      using send_nosignal by (metis surj_pair)
    have len: "length (take len buf) = len" using "1.prems" by (simp add: buf_ok_def)
    note str = send_stream [OF r] and o1 = send_only [OF r]
    show ?thesis
    proof (cases "\<exists>s. res = Sent s \<and> 0 < s")
      case True
      then obtain s where s: "res = Sent s" "0 < s" by blast
      let ?buf = "buf_shift s len buf"
      have le: "s \<le> len" "s \<le> length buf" and st1: "sent_to st1 fd = sent_to st fd @ take s buf"
        "unread st1 fd = unread st fd"
        using str len s(1) "1.prems" by (auto simp: buf_ok_def min_def)
      have b: "buf_ok ?buf (len - s) cap" "take (len - s) ?buf = drop s (take len buf)"
        using "1.prems" le by (auto simp: buf_ok_def buf_shift_def take_drop)
      obtain r' buf' len' st' d where IH:
        "send_loop fd (tot + int s) ?buf (len - s) st1 = Inr (r', buf', len', st')"
        "buf_ok buf' len' cap" "only_fd fd st1 st'" "unread st' fd = unread st1 fd"
        "len - s = length d + len'" "take (len - s) ?buf = d @ take len' buf'"
        "sent_to st' fd = sent_to st1 fd @ d" "r' = tot + int s + int (length d) \<or> r' = - 1"
        using "1.IH" [of "(res, st1)" res st1 s] False r s b(1) by auto
      have "send_loop fd tot buf len st = Inr (r', buf', len', st')"
        by (subst send_loop.simps) (simp add: False r s IH(1))
      moreover have "take len buf = (take s buf @ d) @ take len' buf'"
        using IH(6) b(2) le by (metis append.assoc append_take_drop_id min.absorb1 take_take)
      ultimately show ?thesis
        using IH st1 o1 le
        by (intro exI [of _ r'] exI [of _ buf'] exI [of _ len'] exI [of _ st'] exI [of _ "take s buf @ d"])
           (auto intro: only_fd_trans)
    next
      case False
      then show ?thesis using "1.prems" str o1 \<open>len \<noteq> 0\<close>
        by (subst send_loop.simps) (cases res; auto simp: r)
    qed
  qed
qed

section \<open>One direction of the relay\<close>

text \<open>
  A relay holds the bytes it has read from its source and not yet written to its
  destination. Its two operations take bytes from the source to the end of the queue and
  from the front of the queue to the destination.
\<close>

locale relay =
  fixes pending :: "client \<Rightarrow> string"
    and src :: "client \<Rightarrow> int"
    and dst :: "client \<Rightarrow> int"
    and good :: "client \<Rightarrow> bool"
    and fetch :: "client \<Rightarrow> ('s, 'z) os_scheme \<Rightarrow> (client \<times> ('s, 'z) os_scheme) result"
    and push :: "client \<Rightarrow> ('s, 'z) os_scheme \<Rightarrow> (client \<times> ('s, 'z) os_scheme) result"
  assumes fetch_law: "good c \<Longrightarrow> \<exists>c' st' d. fetch c st = Inr (c', st') \<and> good c' \<and>
      src c' = src c \<and> dst c' = dst c \<and> only_fd (src c) st st' \<and>
      sent_to st' (src c) = sent_to st (src c) \<and>
      pending c' = pending c @ d \<and> unread st (src c) = d @ unread st' (src c)"
    and push_law: "good c \<Longrightarrow> \<exists>c' st' d. push c st = Inr (c', st') \<and> good c' \<and>
      src c' = src c \<and> dst c' = dst c \<and> only_fd (dst c) st st' \<and>
      unread st' (dst c) = unread st (dst c) \<and>
      pending c = d @ pending c' \<and> sent_to st' (dst c) = sent_to st (dst c) @ d"
begin

definition flow :: "client \<Rightarrow> ('s, 'z) os_scheme \<Rightarrow> string" where
  "flow c st = sent_to st (dst c) @ pending c @ unread st (src c)"

lemma fetch_flow:
  assumes "good c" and "src c \<noteq> dst c"
  shows "\<exists>c' st'. fetch c st = Inr (c', st') \<and> good c' \<and> src c' = src c \<and> dst c' = dst c \<and>
    only_fd (src c) st st' \<and> flow c' st' = flow c st \<and> sent_to st' (src c) = sent_to st (src c)"
proof -
  obtain c' st' d where f: "fetch c st = Inr (c', st')" "good c'" "src c' = src c" "dst c' = dst c"
    "only_fd (src c) st st'" "sent_to st' (src c) = sent_to st (src c)"
    "pending c' = pending c @ d" "unread st (src c) = d @ unread st' (src c)"
    using fetch_law [OF assms(1)] by blast
  moreover have "sent_to st' (dst c) = sent_to st (dst c)"
    using only_fd_sock [OF f(5), of "dst c"] assms(2) by (simp add: sent_to_def)
  ultimately show ?thesis by (auto simp: flow_def)
qed

lemma push_flow:
  assumes "good c" and "src c \<noteq> dst c"
  shows "\<exists>c' st'. push c st = Inr (c', st') \<and> good c' \<and> src c' = src c \<and> dst c' = dst c \<and>
    only_fd (dst c) st st' \<and> flow c' st' = flow c st \<and> unread st' (dst c) = unread st (dst c)"
proof -
  obtain c' st' d where f: "push c st = Inr (c', st')" "good c'" "src c' = src c" "dst c' = dst c"
    "only_fd (dst c) st st'" "unread st' (dst c) = unread st (dst c)"
    "pending c = d @ pending c'" "sent_to st' (dst c) = sent_to st (dst c) @ d"
    using push_law [OF assms(1)] by blast
  moreover have "unread st' (src c) = unread st (src c)"
    using only_fd_sock [OF f(5), of "src c"] assms(2) by (simp add: unread_def)
  ultimately show ?thesis by (auto simp: flow_def)
qed

end

text \<open>Two relays in opposite directions over the same two descriptors, with separate queues.\<close>

locale duplex =
  up: relay pending_up a b good fetch_a push_b + down: relay pending_down b a good fetch_b push_a
  for pending_up pending_down a b good
    and fetch_a push_b fetch_b push_a ::
      "client \<Rightarrow> ('s, 'z) os_scheme \<Rightarrow> (client \<times> ('s, 'z) os_scheme) result" +
  assumes fetch_a_down: "fetch_a c st = Inr (c', st') \<Longrightarrow> pending_down c' = pending_down c"
    and push_b_down: "push_b c st = Inr (c', st') \<Longrightarrow> pending_down c' = pending_down c"
    and fetch_b_up: "fetch_b c st = Inr (c', st') \<Longrightarrow> pending_up c' = pending_up c"
    and push_a_up: "push_a c st = Inr (c', st') \<Longrightarrow> pending_up c' = pending_up c"
begin

text \<open>One of the four operations ran: both streams are what they were.\<close>

definition kept :: "client \<Rightarrow> ('s, 'z) os_scheme \<Rightarrow> client \<Rightarrow> ('s, 'z) os_scheme \<Rightarrow> bool" where
  "kept c st c' st' \<longleftrightarrow> good c' \<and> a c' = a c \<and> b c' = b c \<and> quiet st st' \<and>
     (\<forall>fd. fd \<noteq> a c \<and> fd \<noteq> b c \<longrightarrow> sock_of st' fd = sock_of st fd) \<and>
     up.flow c' st' = up.flow c st \<and> down.flow c' st' = down.flow c st"

lemma kept_refl: "good c \<Longrightarrow> kept c st c st"
  by (simp add: kept_def)

lemma kept_trans: "kept c st c' st' \<Longrightarrow> kept c' st' c'' st'' \<Longrightarrow> kept c st c'' st''"
  by (auto simp: kept_def intro: quiet_trans)

lemma fetch_a_kept: "good c \<Longrightarrow> a c \<noteq> b c \<Longrightarrow> \<exists>c' st'. fetch_a c st = Inr (c', st') \<and> kept c st c' st'"
  using up.fetch_flow [of c st]
  by (auto simp: kept_def only_fd_def down.flow_def unread_def dest: fetch_a_down)

lemma fetch_b_kept: "good c \<Longrightarrow> a c \<noteq> b c \<Longrightarrow> \<exists>c' st'. fetch_b c st = Inr (c', st') \<and> kept c st c' st'"
  using down.fetch_flow [of c st]
  by (auto simp: kept_def only_fd_def up.flow_def unread_def dest: fetch_b_up)

lemma push_a_kept: "good c \<Longrightarrow> a c \<noteq> b c \<Longrightarrow> \<exists>c' st'. push_a c st = Inr (c', st') \<and> kept c st c' st'"
  using down.push_flow [of c st]
  by (auto simp: kept_def only_fd_def up.flow_def sent_to_def dest: push_a_up)

lemma push_b_kept: "good c \<Longrightarrow> a c \<noteq> b c \<Longrightarrow> \<exists>c' st'. push_b c st = Inr (c', st') \<and> kept c st c' st'"
  using up.push_flow [of c st]
  by (auto simp: kept_def only_fd_def down.flow_def sent_to_def dest: push_b_down)

lemma do_if_kept:
  assumes "\<And>c st. good c \<Longrightarrow> a c \<noteq> b c \<Longrightarrow> \<exists>c' st'. f c st = Inr (c', st') \<and> kept c st c' st'"
    and "good c" and "a c \<noteq> b c"
  shows "\<exists>c' st'. do_if t f (c, st) = Inr (c', st') \<and> kept c st c' st'"
  using assms by (auto simp: do_if_def kept_refl)

end

definition pending_up :: "client \<Rightarrow> string" where
  "pending_up c = take (request_len c) (request_buffer c)"

definition pending_down :: "client \<Rightarrow> string" where
  "pending_down c = take (response_len c) (response_buffer c)"

definition bufs_ok :: "client \<Rightarrow> bool" where
  "bufs_ok c \<longleftrightarrow> buf_ok (request_buffer c) (request_len c) (request_capacity c) \<and>
     buf_ok (response_buffer c) (response_len c) (response_capacity c)"

lemma recv_client_law:
  assumes "bufs_ok c"
  shows "\<exists>c' st' d. forward_recv_client c st = Inr (c', st') \<and> bufs_ok c' \<and>
      client_fd c' = client_fd c \<and> target_fd c' = target_fd c \<and> only_fd (client_fd c) st st' \<and>
      sent_to st' (client_fd c) = sent_to st (client_fd c) \<and>
      pending_up c' = pending_up c @ d \<and> unread st (client_fd c) = d @ unread st' (client_fd c)"
  using recv_loop_spec [of "request_buffer c" "request_len c" "request_capacity c" "client_fd c" 0 st] assms
  by (auto simp: forward_recv_client_def recv_into_buffer_def bufs_ok_def pending_up_def Let_def)

lemma recv_target_law:
  assumes "bufs_ok c"
  shows "\<exists>c' st' d. forward_recv_target c st = Inr (c', st') \<and> bufs_ok c' \<and>
      target_fd c' = target_fd c \<and> client_fd c' = client_fd c \<and> only_fd (target_fd c) st st' \<and>
      sent_to st' (target_fd c) = sent_to st (target_fd c) \<and>
      pending_down c' = pending_down c @ d \<and> unread st (target_fd c) = d @ unread st' (target_fd c)"
  using recv_loop_spec [of "response_buffer c" "response_len c" "response_capacity c" "target_fd c" 0 st] assms
  by (auto simp: forward_recv_target_def recv_into_buffer_def bufs_ok_def pending_down_def Let_def)

lemma send_target_law:
  assumes "bufs_ok c"
  shows "\<exists>c' st' d. forward_send_target c st = Inr (c', st') \<and> bufs_ok c' \<and>
      client_fd c' = client_fd c \<and> target_fd c' = target_fd c \<and> only_fd (target_fd c) st st' \<and>
      unread st' (target_fd c) = unread st (target_fd c) \<and>
      pending_up c = d @ pending_up c' \<and> sent_to st' (target_fd c) = sent_to st (target_fd c) @ d"
  using send_loop_spec [of "request_buffer c" "request_len c" "request_capacity c" "target_fd c" 0 st] assms
  by (auto simp: forward_send_target_def send_from_buffer_def bufs_ok_def pending_up_def Let_def)

lemma send_client_law:
  assumes "bufs_ok c"
  shows "\<exists>c' st' d. forward_send_client c st = Inr (c', st') \<and> bufs_ok c' \<and>
      target_fd c' = target_fd c \<and> client_fd c' = client_fd c \<and> only_fd (client_fd c) st st' \<and>
      unread st' (client_fd c) = unread st (client_fd c) \<and>
      pending_down c = d @ pending_down c' \<and> sent_to st' (client_fd c) = sent_to st (client_fd c) @ d"
  using send_loop_spec [of "response_buffer c" "response_len c" "response_capacity c" "client_fd c" 0 st] assms
  by (auto simp: forward_send_client_def send_from_buffer_def bufs_ok_def pending_down_def Let_def)

interpretation dup: duplex pending_up pending_down client_fd target_fd bufs_ok
    forward_recv_client forward_send_target forward_recv_target forward_send_client
  by unfold_locales
    ((rule recv_client_law send_target_law recv_target_law send_client_law, assumption) |
     (auto simp: forward_recv_client_def forward_send_target_def forward_recv_target_def
       forward_send_client_def pending_up_def pending_down_def res_simps Let_def)[1])+

lemma connection_forward_kept:
  fixes st :: "('s, 'z) os_scheme"
  assumes "bufs_ok c" and "client_fd c \<noteq> target_fd c"
  shows "\<exists>c' st'. connection_forward t ev c st =
      Inr (if client_closed c' \<and> target_closed c' then - 1 else 0, c', st') \<and> dup.kept c st c' st'"
proof -
  have step: "\<exists>c' st'. do_if b f (c1, st1) = Inr (c', st') \<and> dup.kept c st c' st'"
    if k: "dup.kept c st c1 st1"
      and f: "f \<in> {forward_recv_client, forward_send_target, forward_recv_target, forward_send_client}"
    for b f c1 and st1 :: "('s, 'z) os_scheme"
  proof -
    have good: "bufs_ok c1" "client_fd c1 \<noteq> target_fd c1" using k assms(2) by (auto simp: dup.kept_def)
    have "\<exists>c' st'. do_if b f (c1, st1) = Inr (c', st') \<and> dup.kept c1 st1 c' st'"
      using f good dup.fetch_a_kept dup.fetch_b_kept dup.push_a_kept dup.push_b_kept
      by (intro dup.do_if_kept) auto
    then show ?thesis using dup.kept_trans [OF k] by blast
  qed
  let ?it = "t = EPOLL_FD_CLIENT" and ?tt = "t = EPOLL_FD_TARGET"
  let ?r = "and ev EPOLLIN \<noteq> 0"
  let ?w = "((request_len c > 0 \<and> ?tt) \<or> (response_len c > 0 \<and> ?it)) \<and> and ev EPOLLOUT \<noteq> 0"
  obtain c1 st1 where 1: "do_if (?it \<and> ?r) forward_recv_client (c, st) = Inr (c1, st1)" "dup.kept c st c1 st1"
    using step [OF dup.kept_refl [OF assms(1)], of forward_recv_client] by blast
  obtain c2 st2 where 2: "do_if (?tt \<and> ?w) forward_send_target (c1, st1) = Inr (c2, st2)" "dup.kept c st c2 st2"
    using step [OF 1(2), of forward_send_target] by blast
  obtain c3 st3 where 3: "do_if (?tt \<and> ?r) forward_recv_target (c2, st2) = Inr (c3, st3)" "dup.kept c st c3 st3"
    using step [OF 2(2), of forward_recv_target] by blast
  obtain c4 st4 where 4: "do_if (?it \<and> ?w) forward_send_client (c3, st3) = Inr (c4, st4)" "dup.kept c st c4 st4"
    using step [OF 3(2), of forward_send_client] by blast
  show ?thesis
    using 4(2) unfolding connection_forward_def Let_def 1(1) bindR_Inr 2(1) 3(1) 4(1) by auto
qed

section \<open>Delivery\<close>

lemma recv_bytes:
  assumes "sock_of st fd = Some s" and "rx s = Bytes b # r" and "b \<noteq> []" and "length b \<le> n"
  shows "recv fd n st = (Got b, set_sock fd (s\<lparr>rx := r\<rparr>) st)"
  using assms by (cases b) (auto simp: recv_def)

lemma recv_all:
  assumes "sock_of st fd = Some s" and "rx s = map Bytes bs" and "[] \<notin> set bs"
    and "len + length (concat bs) \<le> cap" and "buf_ok buf len cap"
  shows "\<exists>buf' st'. recv_loop fd cap tot buf len st =
      Inr (tot + int (length (concat bs)), buf', len + length (concat bs), st') \<and> unread st' fd = []"
  using assms
proof (induction bs arbitrary: st s tot buf len)
  case Nil
  then have "recv fd (size_diff cap len) st = (WouldBlock, st)" by (simp add: recv_def)
  then show ?case using Nil by (subst recv_loop.simps) (simp add: unread_def)
next
  case (Cons b bs)
  let ?st = "set_sock fd (s\<lparr>rx := map Bytes bs\<rparr>) st"
  have len: "size_diff cap len = cap - len" "length b \<le> cap - len" using Cons.prems(4) by auto
  have r: "recv fd (size_diff cap len) st = (Got b, ?st)"
    using Cons.prems len by (intro recv_bytes) auto
  obtain buf1 where b: "buf_write cap buf len b = Inr buf1" "buf_ok buf1 (len + length b) cap"
    using buf_write_ok [OF Cons.prems(5) len(2)] by blast
  have "\<exists>buf' st'. recv_loop fd cap (tot + int (length b)) buf1 (len + length b) ?st =
      Inr (tot + int (length b) + int (length (concat bs)), buf', len + length b + length (concat bs), st') \<and>
      unread st' fd = []"
    using Cons.prems b(2) by (intro Cons.IH) (auto simp: add.assoc)
  then show ?case by (subst recv_loop.simps) (auto simp: r b(1) algebra_simps)
qed

lemma send_all:
  assumes "sock_of st fd = Some s" and "tx s = []" and "0 < len" and "buf_ok buf len cap"
  shows "\<exists>buf' st'. send_loop fd tot buf len st = Inr (tot + int len, buf', 0, st')"
proof -
  have len: "length (take len buf) = len" using assms(4) by (simp add: buf_ok_def)
  have "send True fd (take len buf) st =
      Inr (Sent len, set_sock fd (s\<lparr>sent := sent s @ take len buf\<rparr>) st)"
    using assms(1,2) len by (simp add: send_def)
  then show ?thesis using assms(3)
    by (subst send_loop.simps, subst send_loop.simps) auto
qed

section \<open>Connecting\<close>

lemma set_nonblocking_sock [simp]:
  "sock_of (set_nonblocking fd st) =
     (\<lambda>fd'. if fd' = fd then map_option (\<lambda>s. s\<lparr>nonblocking := True\<rparr>) (sock_of st fd) else sock_of st fd')"
  by (auto simp: set_nonblocking_def split: option.split)

lemma connect_sock:
  "sock_of st fd = Some s \<Longrightarrow> connect fd a p st = (r, st') \<Longrightarrow>
     sock_of st' = (sock_of st)(fd \<mapsto> s\<lparr>peer := Some (a, p)\<rparr>)"
  by (auto simp: connect_def Let_def fun_eq_iff split: list.splits)

lemma send_established_only: "send_https_established fd st = Inr st' \<Longrightarrow> only_fd fd st st'"
  by (auto simp: send_https_established_def res_simps dest: send_only)

definition same_rest :: "('s, 'z) os_scheme \<Rightarrow> ('s, 'z) os_scheme \<Rightarrow> bool" where
  "same_rest st st' \<longleftrightarrow> os.more st' = os.more st \<and>
     accepts st' = accepts st \<and> now st' = now st \<and> dns st' = dns st \<and>
     (allocs st = [] \<longrightarrow> allocs st' = [])"

lemma quiet_same_rest: "quiet st st' \<Longrightarrow> same_rest st st'"
  by (simp add: quiet_def same_rest_def)

lemma same_rest_trans: "same_rest st st' \<Longrightarrow> same_rest st' st'' \<Longrightarrow> same_rest st st''"
  by (simp add: same_rest_def)

text \<open>
  The whole of \<open>connection_connect\<close>: on failure no descriptor is left behind, otherwise one
  new descriptor is open, whose peer is what the name resolves to.
\<close>

lemma connection_connect_cases:
  assumes "connection_connect c st = Inr (r, c', st')"
  shows "(r = - 1 \<and> target_fd c' \<in> {target_fd c, - 1} \<and> sock_of st' = sock_of st \<and>
        (interest st' = interest st \<or>
         (\<exists>fd. sock_of st fd = None \<and> interest st' = (interest st)(fd := None))) \<or>
      r \<in> {0, 1} \<and> interest st' = interest st \<and> 0 \<le> target_fd c' \<and> sock_of st (target_fd c') = None \<and>
      (\<exists>addr s. dns st (host c) = Some addr \<and> sock_of st' (target_fd c') = Some s \<and>
        (target_fd c' = client_fd c \<or> peer s = Some (addr, htons (port c)) \<and> nonblocking s)) \<and>
      (\<forall>fd. fd \<noteq> target_fd c' \<longrightarrow> (sock_of st' fd = None \<longleftrightarrow> sock_of st fd = None)) \<and>
      (\<forall>fd. fd \<noteq> target_fd c' \<and> fd \<noteq> client_fd c \<longrightarrow> sock_of st' fd = sock_of st fd)) \<and>
    c' = c\<lparr>target_fd := target_fd c', request_len := request_len c'\<rparr> \<and>
    (request_len c' = request_len c \<or> is_https c \<and> request_len c' = 0) \<and>
    same_rest st st'"
proof (cases "dns st (host c)")
  case None
  then show ?thesis using assms by (auto simp: connection_connect_def same_rest_def)
next
  case (Some addr)
  obtain fd st1 where so: "socket st = (fd, st1)" by fastforce
  note sc = socket_cases [OF so]
  have r1: "same_rest st st1" using sc by (auto simp: same_rest_def)
  show ?thesis
  proof (cases "fd < 0")
    case True
    then show ?thesis using assms sc r1 Some so by (auto simp: connection_connect_def same_rest_def)
  next
    case False
    then obtain s where s: "0 \<le> fd" "sock_of st fd = None" "sock_of st1 = (sock_of st)(fd := Some s)"
      using sc by auto
    let ?st2 = "set_nonblocking fd st1"
    obtain x st3 where co: "connect fd addr (htons (port c)) ?st2 = (x, st3)" by fastforce
    let ?s = "s\<lparr>nonblocking := True, peer := Some (addr, htons (port c))\<rparr>"
    have sock3: "sock_of st3 = (sock_of st)(fd \<mapsto> ?s)"
      using connect_sock [OF _ co, of "s\<lparr>nonblocking := True\<rparr>"] s by (auto simp: fun_eq_iff)
    have i3: "interest st3 = interest st"
      using sc connect_quiet [OF co] set_nonblocking_quiet [of st1 fd] by (simp add: quiet_def)
    have r3: "same_rest st st3"
      using same_rest_trans [OF r1 quiet_same_rest [OF set_nonblocking_quiet]]
        same_rest_trans quiet_same_rest [OF connect_quiet [OF co]] by blast
    have e: "connection_connect c st =
      (let c = c\<lparr>target_fd := fd\<rparr> in case x of
          ConnInProgress \<Rightarrow> Inr (0, c, st3)
        | ConnRefused \<Rightarrow> Inr (- 1, c\<lparr>target_fd := - 1\<rparr>, close_fd fd st3)
        | ConnNow \<Rightarrow> if is_https c then bindR (send_https_established (client_fd c) st3)
            (\<lambda>st. Inr (1, c\<lparr>request_len := 0\<rparr>, st)) else Inr (1, c, st3))"
      using False by (simp add: connection_connect_def Some so co Let_def split: conn.split)
    show ?thesis
    proof (cases x)
      case ConnInProgress
      then show ?thesis using assms s sock3 r3 i3 Some unfolding e by auto
    next
      case ConnRefused
      moreover have "interest (close_fd fd st3) = (interest st)(fd := None)"
        using sock3 i3 by (simp add: interest_close)
      ultimately show ?thesis using assms s sock3 r3 unfolding e
        by (auto simp: fun_eq_iff same_rest_def)
    next
      case ConnNow
      show ?thesis
      proof (cases "is_https c")
        case False
        then show ?thesis using assms ConnNow s sock3 r3 i3 Some unfolding e by auto
      next
        case True
        then obtain st4 where st4: "send_https_established (client_fd c) st3 = Inr st4"
          "r = 1" "c' = c\<lparr>target_fd := fd, request_len := 0\<rparr>" "st' = st4"
          using assms ConnNow unfolding e by (auto simp: res_simps)
        have o: "only_fd (client_fd c) st3 st4" using send_established_only [OF st4(1)] .
        have r4: "same_rest st st4"
          using same_rest_trans [OF r3] quiet_same_rest o by (auto simp: only_fd_def)
        have i4: "interest st4 = interest st" using o i3 by (simp add: only_fd_def quiet_def)
        have n: "sock_of st4 x = None \<longleftrightarrow> sock_of st3 x = None" for x
          using o by (simp add: only_fd_def quiet_def)
        have "\<exists>s4. sock_of st4 fd = Some s4" using n [of fd] sock3 by auto
        moreover have "sock_of st4 x = sock_of st3 x" if "x \<noteq> client_fd c" for x
          using only_fd_sock [OF o that] .
        ultimately show ?thesis
          using st4 r4 i4 s sock3 Some True n by (auto split: if_splits)
      qed
    qed
  qed
qed

section \<open>Properties\<close>

lemma masks [simp, c_simps]:
  "EPOLLIN \<noteq> 0" "EPOLLOUT \<noteq> 0" "and EPOLLIN EPOLLOUT = 0" "and EPOLLOUT EPOLLIN = 0"
  by (simp_all add: EPOLLIN_def EPOLLOUT_def)

text \<open>A client with some bytes in flight in both directions.\<close>

definition pipe_sock :: "string list \<Rightarrow> sock" where
  "pipe_sock bs = plain_sock\<lparr>rx := map Bytes bs\<rparr>"

definition pipe_os :: "unit os" where
  "pipe_os =
     \<lparr>allocs = [], auth_cache = None, db_conn = (), now = 1000,
      fds = [None, None, None, Some (pipe_sock [''GET /'', ''abc'']), Some (pipe_sock [''ok''])],
      interest = Map.empty, ctl_fails = [], accepts = [], sockets = [Some plain_sock], connects = [],
      so_errors = [], dns = (\<lambda>h. Some ''10.0.0.1''), sys_fails = [], timer_reads = [], listening = None\<rparr>"

definition pipe_client :: client where
  "pipe_client = (new_client 3 0)\<lparr>target_fd := 4, phase := FORWARDING, host := ''a.b'', port := 70000\<rparr>"

lemma pipe_socks [simp]:
  "sock_of pipe_os 3 = Some (pipe_sock [''GET /'', ''abc''])"
  "sock_of pipe_os 4 = Some (pipe_sock [''ok''])"
  by (simp_all add: sock_of_def pipe_os_def)

lemma pipe_client_simps [simp]:
  "bufs_ok pipe_client" "client_fd pipe_client = 3" "target_fd pipe_client = 4"
  "request_len pipe_client = 0" "request_capacity pipe_client = 4096" "pending_up pipe_client = []"
  by (simp_all add: pipe_client_def new_client_def bufs_ok_def buf_ok_def MAX_BUFFER_SIZE_def pending_up_def)

text \<open>
  C15: the relay is a pair of byte queues. For a client whose buffers are within their
  blocks, \<open>connection_forward\<close> handles every event without undefined behaviour, and whatever
  the two sockets do, short reads and writes included, no byte is lost, duplicated or
  reordered in either direction: what was written to the one side, what is buffered and
  what is not read yet from the other side stay, put together, the same sequence. No other
  descriptor is touched.
\<close>

theorem connection_forward_fifo:
  assumes "bufs_ok c" and "client_fd c \<noteq> target_fd c"
  shows "\<exists>c' st'. connection_forward t ev c st =
      Inr (if client_closed c' \<and> target_closed c' then - 1 else 0, c', st') \<and> bufs_ok c' \<and>
    sent_to st' (target_fd c) @ pending_up c' @ unread st' (client_fd c) =
      sent_to st (target_fd c) @ pending_up c @ unread st (client_fd c) \<and>
    sent_to st' (client_fd c) @ pending_down c' @ unread st' (target_fd c) =
      sent_to st (client_fd c) @ pending_down c @ unread st (target_fd c) \<and>
    (\<forall>fd. fd \<noteq> client_fd c \<and> fd \<noteq> target_fd c \<longrightarrow> sock_of st' fd = sock_of st fd)"
  using connection_forward_kept [OF assms, of t ev st]
  by (fastforce simp: dup.kept_def dup.up.flow_def dup.down.flow_def)

theorem connection_forward_fifo_witness:
  "\<exists>c' st'. connection_forward EPOLL_FD_CLIENT EPOLLIN pipe_client pipe_os =
      Inr (if client_closed c' \<and> target_closed c' then - 1 else 0, c', st') \<and>
    sent_to st' 4 @ pending_up c' @ unread st' 3 = ''GET /abc''"
proof -
  have "sent_to pipe_os 4 @ pending_up pipe_client @ unread pipe_os 3 = ''GET /abc''"
    by (simp add: sent_to_def unread_def pipe_sock_def plain_sock_def)
  then show ?thesis
    using connection_forward_fifo [of pipe_client EPOLL_FD_CLIENT EPOLLIN pipe_os] by auto
qed

lemma forward_client_in:
  assumes "forward_recv_client c st = Inr (c', st')"
  shows "connection_forward EPOLL_FD_CLIENT EPOLLIN c st =
    Inr (if client_closed c' \<and> target_closed c' then - 1 else 0, c', st')"
  using assms by (simp add: connection_forward_def do_if_def Let_def)

lemma forward_target_out:
  "connection_forward EPOLL_FD_TARGET EPOLLOUT c st =
     (if request_len c = 0 then Inr (if client_closed c \<and> target_closed c then - 1 else 0, c, st)
      else bindR (forward_send_target c st)
        (\<lambda>(c', st'). Inr (if client_closed c' \<and> target_closed c' then - 1 else 0, c', st')))"
  by (simp add: connection_forward_def do_if_def Let_def)



text \<open>
  A full request buffer: when the client has more to send while the buffer is full, the
  read of no bytes is taken for the end of the connection and the client is marked closed,
  although it is not; nothing is read.
\<close>

theorem forward_full_buffer:
  assumes "sock_of st (client_fd c) = Some s" and "rx s = Bytes (b # bs) # r"
    and "request_len c = request_capacity c"
  shows "forward_recv_client c st = Inr (c\<lparr>client_closed := True\<rparr>, st)"
proof -
  have "recv_loop (client_fd c) (request_capacity c) 0 (request_buffer c) (request_len c) st =
      Inr (- 2, request_buffer c, request_len c, st)"
    using assms by (subst recv_loop.simps) (simp add: recv_def)
  then show ?thesis by (simp add: forward_recv_client_def recv_into_buffer_def Let_def)
qed

theorem forward_full_buffer_witness:
  "forward_recv_client (pipe_client\<lparr>request_len := 4096\<rparr>) pipe_os =
     Inr (pipe_client\<lparr>request_len := 4096, client_closed := True\<rparr>, pipe_os)"
  using forward_full_buffer [of pipe_os "pipe_client\<lparr>request_len := 4096\<rparr>"]
  by (simp add: pipe_sock_def)

text \<open>
  \<open>connection_connect\<close> connects a new, non-blocking socket to the address the client's
  host resolves to, with the port reduced to 16 bits; when it fails it leaves no descriptor
  open that was not open before.
\<close>

theorem connection_connect_target:
  assumes "connection_connect c st = Inr (r, c', st')" and "sock_of st (client_fd c) \<noteq> None"
  shows "if r = - 1 then sock_of st' = sock_of st
    else sock_of st (target_fd c') = None \<and>
      (\<exists>addr s. dns st (host c) = Some addr \<and> sock_of st' (target_fd c') = Some s \<and>
        peer s = Some (addr, htons (port c)) \<and> nonblocking s)"
  using connection_connect_cases [OF assms(1)] assms(2) by auto

theorem connection_connect_target_witness:
  "\<exists>c' st' s. connection_connect pipe_client pipe_os = Inr (0, c', st') \<and>
     sock_of st' (target_fd c') = Some s \<and> peer s = Some (''10.0.0.1'', 4464)"
proof -
  obtain c' st' where c: "connection_connect pipe_client pipe_os = Inr (0, c', st')"
    by (auto simp: connection_connect_def pipe_os_def pipe_client_def new_client_def socket_def
        open_fd_def fresh_fd_def Let_def connect_def sock_of_def set_nonblocking_def set_sock_def)
  have "htons (port pipe_client) = 4464" "dns pipe_os (host pipe_client) = Some ''10.0.0.1''"
    by (simp_all add: htons_def pipe_client_def pipe_os_def)
  then show ?thesis using connection_connect_target [OF c] c by auto
qed

end
