(* ===== verification/Proxy.thy ===== *)
theory Proxy
  imports Connection
begin

text \<open>
  The per-client state machine of \<open>src/main/proxy.c\<close>. A handler is called for an event,
  which carries a data pointer and an event mask; it loads the client the data points to,
  and may call \<open>handle_client\<close> again after a change of phase.
\<close>

section \<open>Reading the request\<close>

text \<open>The doubling of the request buffer; \<open>realloc\<close> keeps its contents.\<close>

definition grow_request ::
    "client \<Rightarrow> ('s, 'z) os_scheme \<Rightarrow> bool \<times> client \<times> ('s, 'z) os_scheme" where
  "grow_request c st =
     (if request_len c = request_capacity c - 1
      then (let (ok, st) = malloc st in
            if ok then (True, c\<lparr>request_capacity := request_capacity c * 2\<rparr>, st) else (False, c, st))
      else (True, c, st))"

text \<open>1 when the request is complete, 0 when more is to come, -1 on failure.\<close>

definition read_request_nonblocking ::
    "client \<Rightarrow> ('s, 'z) os_scheme \<Rightarrow> (int \<times> client \<times> ('s, 'z) os_scheme) result" where
  "read_request_nonblocking c st =
     (let (grown, c, st) = grow_request c st
      in if \<not> grown then Inr (- 1, c, st)
         else
           (case recv (client_fd c) (size_diff (request_capacity c) (request_len c)) st of
              (Failed, st) \<Rightarrow> Inr (- 1, c, st)
            | (WouldBlock, st) \<Rightarrow> Inr (0, c, st)
            | (Zero, st) \<Rightarrow> Inr (if request_len c = 0 then - 1 else 0, c, st)
            | (Got d, st) \<Rightarrow>
                bindR (buf_write (request_capacity c) (request_buffer c) (request_len c) d) (\<lambda>buf.
                  (let len = request_len c + length d in
                   bindR (buf_write (request_capacity c) buf len [NUL]) (\<lambda>buf.
                     (let c = c\<lparr>request_buffer := buf, request_len := len\<rparr> in
                      Inr (if strstr (cstr buf) [CR, LF, CR, LF] \<noteq> None then 1 else 0, c, st)))))))"

definition auth_required :: string where
  "auth_required =
     ''HTTP/1.1 407 Proxy Authentication Required'' @ [CR, LF] @
     ''Proxy-Authenticate: Basic realm='' @ [CHR 0x22] @ ''Proxy'' @ [CHR 0x22, CR, LF] @
     ''Content-Length: 0'' @ [CR, LF] @
     ''Connection: close'' @ [CR, LF] @
     [CR, LF]"

definition send_proxy_auth_required :: "int \<Rightarrow> ('s, 'z) os_scheme \<Rightarrow> ('s, 'z) os_scheme result" where
  "send_proxy_auth_required fd st = bindR (send False fd auth_required st) (\<lambda>(_, st). Inr st)"

section \<open>Registration of both descriptors\<close>

definition register_forwarding_fds :: "nat \<Rightarrow> client \<Rightarrow> 's world \<Rightarrow> (bool \<times> 's world) result" where
  "register_forwarding_fds p c w =
     (let (cd, w) = epoll_create_data EPOLL_FD_CLIENT p w in
      if cd = 0 then Inr (False, w)
      else
        (let (ok, w) = epoll_mod_fd (client_fd c) (or EPOLLIN EPOLLOUT) cd w in
         if \<not> ok then bindR (free_edata cd w) (\<lambda>w. Inr (False, w))
         else
           (let (td, w) = epoll_create_data EPOLL_FD_TARGET p w in
            if td = 0 then Inr (False, w)
            else
              (let (ok, w) = epoll_mod_fd (target_fd c) (or EPOLLIN EPOLLOUT) td w in
               if \<not> ok then bindR (free_edata td w) (\<lambda>w. Inr (False, w))
               else Inr (True, w)))))"

section \<open>The handlers\<close>

text \<open>
  \<open>again\<close> is the recursive call of \<open>handle_client\<close> on the same event; \<open>d\<close> is its data
  pointer, \<open>p\<close> the client pointer in that data and \<open>c\<close> the client.
\<close>

type_synonym 's cont = "'s world \<Rightarrow> 's world result"

definition handle_reading_request :: "'s cont \<Rightarrow> nat \<Rightarrow> client \<Rightarrow> 's world \<Rightarrow> 's world result" where
  "handle_reading_request again p c w =
     bindR (read_request_nonblocking c w) (\<lambda>(result, c, w).
       if result < 0 then again (put_client p (c\<lparr>phase := CLOSING\<rparr>) w)
       else if result = 1 then again (put_client p (c\<lparr>phase := AUTHENTICATING\<rparr>) w)
       else Inr (put_client p c w))"

definition handle_authenticating ::
    "'s mysql \<Rightarrow> 's cont \<Rightarrow> nat \<Rightarrow> client \<Rightarrow> 's world \<Rightarrow> 's world result" where
  "handle_authenticating my again p c w =
     (let request = cstr (request_buffer c) in
      bindR (has_valid_auth my request w) (\<lambda>(valid, w).
        if valid
        then
          (let c = c\<lparr>is_https := starts_with ''CONNECT '' request\<rparr> in
           case parse_host_port request of
             None \<Rightarrow> Inr (put_client p (c\<lparr>phase := CLOSING\<rparr>) w)
           | Some (h, port_no) \<Rightarrow>
               again (put_client p (c\<lparr>host := h, port := port_no, phase := INITIALIZE_CONNECTION\<rparr>) w))
        else
          bindR (send_proxy_auth_required (client_fd c) w) (\<lambda>w.
            again (put_client p (c\<lparr>phase := CLOSING\<rparr>) w))))"

definition handle_initialize_connection :: "nat \<Rightarrow> client \<Rightarrow> 's world \<Rightarrow> 's world result" where
  "handle_initialize_connection p c w =
     bindR (connection_connect c w) (\<lambda>(result, c, w).
       if result = - 1 then Inr (put_client p (c\<lparr>phase := CLOSING\<rparr>) w)
       else
         (let (td, w) = epoll_create_data EPOLL_FD_TARGET p w;
              (ok, w) = epoll_add_fd (target_fd c) EPOLLOUT td w
          in if \<not> ok
             then Inr (put_client p (c\<lparr>phase := CLOSING\<rparr>) (close_fd (target_fd c) w))
             else Inr (put_client p (c\<lparr>phase := CONNECTING\<rparr>) w)))"

definition handle_connecting :: "'s cont \<Rightarrow> nat \<Rightarrow> client \<Rightarrow> 's world \<Rightarrow> 's world result" where
  "handle_connecting again p c w =
     (let (err, w) = so_error (target_fd c) w in
      if err \<noteq> Some 0
      then again (put_client p (c\<lparr>target_fd := - 1, phase := CLOSING\<rparr>) (close_fd (target_fd c) w))
      else
        bindR (if is_https c
               then bindR (send_https_established (client_fd c) w) (\<lambda>w. Inr (c\<lparr>request_len := 0\<rparr>, w))
               else Inr (c, w))
          (\<lambda>(c, w).
            (let c = c\<lparr>response_len := 0, phase := FORWARDING\<rparr> in
             bindR (register_forwarding_fds p c (put_client p c w)) (\<lambda>(_, w). Inr w))))"

definition handle_forwarding ::
    "fd_type \<Rightarrow> 32 word \<Rightarrow> nat \<Rightarrow> client \<Rightarrow> 's world \<Rightarrow> 's world result" where
  "handle_forwarding t ev p c w =
     bindR (connection_forward t ev c w) (\<lambda>(result, c, w).
       if result \<noteq> 0 then Inr (put_client p (c\<lparr>phase := CLOSING\<rparr>) w) else Inr (put_client p c w))"

definition drop_fd :: "int \<Rightarrow> 's world \<Rightarrow> 's world" where
  "drop_fd fd w = (if fd \<noteq> - 1 then close_fd fd (snd (epoll_del_fd fd w)) else w)"

definition handle_closing :: "nat \<Rightarrow> nat \<Rightarrow> client \<Rightarrow> 's world \<Rightarrow> 's world result" where
  "handle_closing d p c w =
     free_edata d
       (put_client p (c\<lparr>expired := True, client_fd := - 1, target_fd := - 1\<rparr>)
         (drop_fd (target_fd c) (drop_fd (client_fd c) w)))"

section \<open>Dispatch\<close>

text \<open>
  The table of handlers has an entry for every phase but \<open>CLOSED\<close>, the number after its
  last index. The first argument bounds the depth of the recursion.
\<close>

fun handle_client_n :: "nat \<Rightarrow> 's mysql \<Rightarrow> nat \<Rightarrow> 32 word \<Rightarrow> 's world \<Rightarrow> 's world result" where
  "handle_client_n 0 my d ev w = Inl StackExhausted"
| "handle_client_n (Suc n) my d ev w =
     bindR (deref (edatas w) d) (\<lambda>e.
     bindR (deref (clients w) (client_ptr e)) (\<lambda>c.
       if expired c then Inr w
       else
         (case phase c of
            READING_REQUEST \<Rightarrow> handle_reading_request (handle_client_n n my d ev) (client_ptr e) c w
          | AUTHENTICATING \<Rightarrow> handle_authenticating my (handle_client_n n my d ev) (client_ptr e) c w
          | INITIALIZE_CONNECTION \<Rightarrow> handle_initialize_connection (client_ptr e) c w
          | CONNECTING \<Rightarrow> handle_connecting (handle_client_n n my d ev) (client_ptr e) c w
          | FORWARDING \<Rightarrow> handle_forwarding (fd_type e) ev (client_ptr e) c w
          | CLOSING \<Rightarrow> handle_closing d (client_ptr e) c w
          | CLOSED \<Rightarrow> Inr w)))"

definition handle_client :: "'s mysql \<Rightarrow> nat \<Rightarrow> 32 word \<Rightarrow> 's world \<Rightarrow> 's world result" where
  "handle_client = handle_client_n 4"

end
