(* ===== verification/Invariant.thy ===== *)
theory Invariant
  imports Proxy
begin

text \<open>
  The invariant of the process memory: what is registered with epoll stays valid for as long
  as it is registered. One lemma for each way the memory changes, then one for each handler
  of \<open>src/main/proxy.c\<close>.
\<close>

section \<open>The invariant\<close>

definition is_conn :: "fd_type \<Rightarrow> bool" where
  "is_conn t \<longleftrightarrow> t = EPOLL_FD_CLIENT \<or> t = EPOLL_FD_TARGET"

definition fd_of :: "fd_type \<Rightarrow> client \<Rightarrow> int" where
  "fd_of t c = (if t = EPOLL_FD_TARGET then target_fd c else client_fd c)"

text \<open>
  Before the connection to the target is started there is no target descriptor; the buffers
  are within their blocks.
\<close>

definition client_ok :: "client \<Rightarrow> bool" where
  "client_ok c \<longleftrightarrow> bufs_ok c \<and>
     (phase c \<in> {READING_REQUEST, AUTHENTICATING, INITIALIZE_CONNECTION} \<longrightarrow> target_fd c = - 1)"

text \<open>A data record that epoll carries for descriptor \<open>fd\<close>.\<close>

definition data_ok :: "(nat \<rightharpoonup> edata) \<Rightarrow> (nat \<rightharpoonup> client) \<Rightarrow> int \<Rightarrow> nat \<Rightarrow> bool" where
  "data_ok ed cl fd d \<longleftrightarrow>
     (\<exists>e. ed d = Some e \<and>
        (is_conn (fd_type e) \<longrightarrow> (\<exists>c. cl (client_ptr e) = Some c \<and> fd = fd_of (fd_type e) c)))"

text \<open>
  Over the records, the clients, the next address, what epoll watches and the open
  descriptors: everything alive has an address below the next one; a watched descriptor is
  open, and its data pointer, if it is not null, is alive and belongs to a live client which
  owns this descriptor in this role; no two descriptors share a data pointer.
\<close>

definition memory_ok ::
    "(nat \<rightharpoonup> edata) \<Rightarrow> (nat \<rightharpoonup> client) \<Rightarrow> nat \<Rightarrow> (int \<rightharpoonup> 32 word \<times> nat) \<Rightarrow> int set \<Rightarrow> bool" where
  "memory_ok ed cl br it op \<longleftrightarrow>
     0 < br \<and> dom ed \<subseteq> {0<..<br} \<and> dom cl \<subseteq> {0<..<br} \<and> op \<subseteq> {0..} \<and>
     (\<forall>p c. cl p = Some c \<longrightarrow> client_ok c) \<and>
     (\<forall>fd ev d. it fd = Some (ev, d) \<longrightarrow> fd \<in> op \<and> (d \<noteq> 0 \<longrightarrow> data_ok ed cl fd d)) \<and>
     (\<forall>fd fd' ev ev' d. it fd = Some (ev, d) \<longrightarrow> it fd' = Some (ev', d) \<longrightarrow> d \<noteq> 0 \<longrightarrow> fd = fd')"

definition opens :: "('s, 'z) os_scheme \<Rightarrow> int set" where
  "opens st = {fd. sock_of st fd \<noteq> None}"

definition world_inv :: "'s world \<Rightarrow> bool" where
  "world_inv w \<longleftrightarrow> memory_ok (edatas w) (clients w) (brk w) (interest w) (opens w)"

section \<open>How the pieces change\<close>

lemma memory_neg: "memory_ok ed cl br it op \<Longrightarrow> it (- 1) = None"
proof (rule ccontr)
  assume "memory_ok ed cl br it op" "it (- 1) \<noteq> None"
  then have "- 1 \<in> op" "op \<subseteq> {0..}" by (auto simp: memory_ok_def)
  then show False by auto
qed

lemma memory_put:
  assumes m: "memory_ok ed cl br it op" and "cl p = Some c" and "client_ok c'"
    and "client_fd c' = client_fd c \<or> it (client_fd c) = None"
    and "target_fd c' = target_fd c \<or> it (target_fd c) = None"
  shows "memory_ok ed (cl(p \<mapsto> c')) br it op"
proof -
  have "data_ok ed (cl(p \<mapsto> c')) fd d" if i: "it fd = Some (ev, d)" and d: "d \<noteq> 0" for fd ev d
  proof -
    have "data_ok ed cl fd d" using m i d by (auto simp: memory_ok_def)
    then obtain e where e: "ed d = Some e"
      "is_conn (fd_type e) \<longrightarrow> (\<exists>c. cl (client_ptr e) = Some c \<and> fd = fd_of (fd_type e) c)"
      by (auto simp: data_ok_def)
    have "fd = fd_of (fd_type e) c'" if "is_conn (fd_type e)" "client_ptr e = p"
    proof -
      have "fd = fd_of (fd_type e) c" using e(2) that assms(2) by simp
      then show ?thesis using assms(4,5) i by (simp add: fd_of_def split: if_splits)
    qed
    then show ?thesis using e by (auto simp: data_ok_def)
  qed
  then show ?thesis using assms(1-3) unfolding memory_ok_def by (auto simp: dom_def)
qed

lemma memory_new_data:
  assumes "memory_ok ed cl br it op"
  shows "memory_ok (ed(br \<mapsto> e)) cl (Suc br) it op" and "\<And>fd ev. it fd \<noteq> Some (ev, br)" and "br \<noteq> 0"
proof -
  show n: "it fd \<noteq> Some (ev, br)" for fd ev
  proof
    assume "it fd = Some (ev, br)"
    then have "data_ok ed cl fd br" using assms by (auto simp: memory_ok_def)
    then show False using assms by (auto simp: memory_ok_def data_ok_def)
  qed
  have "data_ok (ed(br \<mapsto> e)) cl fd d" if "it fd = Some (ev, d)" "d \<noteq> 0" for fd ev d
  proof -
    have "data_ok ed cl fd d" using assms that by (auto simp: memory_ok_def)
    then show ?thesis using that n by (auto simp: data_ok_def)
  qed
  then show "memory_ok (ed(br \<mapsto> e)) cl (Suc br) it op"
    using assms unfolding memory_ok_def by (auto simp: less_Suc_eq)
  show "br \<noteq> 0" using assms by (simp add: memory_ok_def)
qed

lemma memory_new_client:
  assumes "memory_ok ed cl br it op" and "client_ok c"
  shows "memory_ok ed (cl(br \<mapsto> c)) (Suc br) it op" and "cl br = None" and "br \<noteq> 0"
proof -
  show n: "cl br = None" using assms by (auto simp: memory_ok_def dom_def)
  have "data_ok ed (cl(br \<mapsto> c)) fd d" if "it fd = Some (ev, d)" "d \<noteq> 0" for fd ev d
  proof -
    have "data_ok ed cl fd d" using assms that by (auto simp: memory_ok_def)
    then show ?thesis using n by (auto simp: data_ok_def)
  qed
  then show "memory_ok ed (cl(br \<mapsto> c)) (Suc br) it op"
    using assms unfolding memory_ok_def by (auto simp: less_Suc_eq)
  show "br \<noteq> 0" using assms by (simp add: memory_ok_def)
qed

lemma memory_watch:
  assumes "memory_ok ed cl br it op" and "fd \<in> op"
    and "d \<noteq> 0 \<Longrightarrow> data_ok ed cl fd d \<and> (\<forall>fd' ev'. it fd' \<noteq> Some (ev', d))"
  shows "memory_ok ed cl br (it(fd \<mapsto> (ev, d))) op"
  using assms unfolding memory_ok_def by (auto split: if_splits)

lemma memory_unwatch: "memory_ok ed cl br it op \<Longrightarrow> memory_ok ed cl br (it(fd := None)) op"
  unfolding memory_ok_def by (auto split: if_splits)

lemma memory_close: "memory_ok ed cl br it op \<Longrightarrow> memory_ok ed cl br (it(fd := None)) (op - {fd})"
  unfolding memory_ok_def by (auto split: if_splits)

lemma memory_close_unused: "memory_ok ed cl br it op \<Longrightarrow> fd \<notin> op \<Longrightarrow> it(fd := None) = it"
  unfolding memory_ok_def by (metis fun_upd_triv option.exhaust surj_pair)

lemma memory_open: "memory_ok ed cl br it op \<Longrightarrow> 0 \<le> fd \<Longrightarrow> memory_ok ed cl br it (insert fd op)"
  unfolding memory_ok_def by auto

lemma memory_free_data:
  assumes "memory_ok ed cl br it op" and "\<And>fd ev. it fd \<noteq> Some (ev, d)"
  shows "memory_ok (ed(d := None)) cl br it op"
proof -
  have "data_ok (ed(d := None)) cl fd d'" if "it fd = Some (ev, d')" "d' \<noteq> 0" for fd ev d'
    using assms that by (auto simp: memory_ok_def data_ok_def)
  then show ?thesis using assms unfolding memory_ok_def by (auto split: if_splits)
qed

lemma memory_free_client:
  assumes m: "memory_ok ed cl br it op" and "cl p = Some c"
    and "it (client_fd c) = None" and "it (target_fd c) = None"
  shows "memory_ok ed (cl(p := None)) br it op"
proof -
  have "data_ok ed (cl(p := None)) fd d" if i: "it fd = Some (ev, d)" and "d \<noteq> 0" for fd ev d
  proof -
    have "data_ok ed cl fd d" using that m by (auto simp: memory_ok_def)
    then show ?thesis using assms i by (auto simp: data_ok_def fd_of_def split: if_splits)
  qed
  then show ?thesis using m unfolding memory_ok_def by (auto split: if_splits)
qed


section \<open>Worlds\<close>

lemma os_more_world:
  fixes w w' :: "'s world"
  assumes "os.more w' = os.more w"
  shows "edatas w' = edatas w" "clients w' = clients w" "brk w' = brk w" "registry w' = registry w"
  using assms by (cases w; cases w'; simp)+

lemma sock_of_memory [simp]:
  "sock_of (w\<lparr>edatas := ed\<rparr>) fd = sock_of w fd"
  "sock_of (w\<lparr>clients := cl\<rparr>) fd = sock_of w fd"
  "sock_of (w\<lparr>brk := br\<rparr>) fd = sock_of w fd"
  "sock_of (w\<lparr>registry := t\<rparr>) fd = sock_of w fd"
  by (simp_all add: sock_of_def)

text \<open>
  What an event with data pointer \<open>d\<close> of client \<open>p\<close> leaves alone: every other client and data
  record, the registry and the slots in it.
\<close>

definition stays :: "nat \<Rightarrow> nat \<Rightarrow> 's world \<Rightarrow> 's world \<Rightarrow> bool" where
  "stays d p w w' \<longleftrightarrow> brk w \<le> brk w' \<and> registry w' = registry w \<and>
     (\<forall>q. q \<noteq> p \<longrightarrow> clients w' q = clients w q) \<and>
     map_option slot (clients w' p) = map_option slot (clients w p) \<and>
     (\<forall>d'. d' \<noteq> d \<longrightarrow> d' < brk w \<longrightarrow> edatas w' d' = edatas w d') \<and>
     now w' = now w \<and> accepts w' = accepts w \<and> (allocs w = [] \<longrightarrow> allocs w' = [])"

lemma stays_refl [simp]: "stays d p w w"
  by (simp add: stays_def)

lemma stays_trans: "stays d p w w' \<Longrightarrow> stays d p w' w'' \<Longrightarrow> stays d p w w''"
  unfolding stays_def by (metis order_less_le_trans order_trans)

lemma quiet_world:
  fixes w w' :: "'s world"
  assumes "quiet w w'"
  shows "edatas w' = edatas w" "clients w' = clients w" "brk w' = brk w" "registry w' = registry w"
    "interest w' = interest w" "opens w' = opens w" "stays d p w w'" "world_inv w' = world_inv w"
proof -
  have "os.more w' = os.more w" using assms by (simp add: quiet_def)
  note m = os_more_world [OF this]
  show "edatas w' = edatas w" "clients w' = clients w" "brk w' = brk w" "registry w' = registry w"
    using m by simp_all
  show i: "interest w' = interest w" "opens w' = opens w"
    using assms by (auto simp: quiet_def opens_def)
  show "stays d p w w'" using assms m by (simp add: stays_def quiet_def)
  show "world_inv w' = world_inv w" by (simp add: world_inv_def m i)
qed

lemma put_client_simps [simp]:
  "edatas (put_client p c w) = edatas w" "clients (put_client p c w) = (clients w)(p \<mapsto> c)"
  "brk (put_client p c w) = brk w" "registry (put_client p c w) = registry w"
  "interest (put_client p c w) = interest w" "sock_of (put_client p c w) = sock_of w"
  "opens (put_client p c w) = opens w" "now (put_client p c w) = now w"
  "accepts (put_client p c w) = accepts w" "allocs (put_client p c w) = allocs w"
  "dns (put_client p c w) = dns w"
  by (auto simp: put_client_def sock_of_def opens_def)

lemma stays_put: "clients w p = Some c \<Longrightarrow> slot c' = slot c \<Longrightarrow> stays d p w (put_client p c' w)"
  by (simp add: stays_def)

lemma put_client_inv:
  assumes "world_inv w" and "clients w p = Some c" and "client_ok c'"
    and "client_fd c' = client_fd c" and "target_fd c' = target_fd c \<or> target_fd c = - 1"
  shows "world_inv (put_client p c' w)"
  using assms memory_put [of "edatas w" "clients w" "brk w" "interest w" "opens w" p c c'] memory_neg
  unfolding world_inv_def by (metis put_client_simps(1-3,5,7))

lemma close_world:
  assumes "world_inv w"
  shows "interest (close_fd fd w) = (interest w)(fd := None)" "opens (close_fd fd w) = opens w - {fd}"
    "edatas (close_fd fd w) = edatas w" "clients (close_fd fd w) = clients w"
    "brk (close_fd fd w) = brk w" "registry (close_fd fd w) = registry w"
    "world_inv (close_fd fd w)" "stays d p w (close_fd fd w)"
proof -
  note m = os_more_world [OF close_fd_keeps(1)]
  show "edatas (close_fd fd w) = edatas w" "clients (close_fd fd w) = clients w"
    "brk (close_fd fd w) = brk w" "registry (close_fd fd w) = registry w" by (rule m)+
  have "(interest w)(fd := None) = interest w" if "sock_of w fd = None"
    using memory_close_unused assms that by (simp add: world_inv_def opens_def)
  then show i: "interest (close_fd fd w) = (interest w)(fd := None)" by (simp add: interest_close)
  show o: "opens (close_fd fd w) = opens w - {fd}" by (auto simp: opens_def)
  show "world_inv (close_fd fd w)"
    using memory_close assms by (simp add: world_inv_def m i o)
  show "stays d p w (close_fd fd w)" by (simp add: stays_def m)
qed

lemma drop_world:
  assumes "world_inv w"
  shows "interest (drop_fd fd w) = (interest w)(fd := None)" "opens (drop_fd fd w) = opens w - {fd}"
    "edatas (drop_fd fd w) = edatas w" "clients (drop_fd fd w) = clients w"
    "world_inv (drop_fd fd w)" "stays d p w (drop_fd fd w)"
    "sock_of (drop_fd fd w) = (sock_of w)(fd := None)"
proof -
  obtain ok w1 where e: "epoll_del_fd fd w = (ok, w1)" by fastforce
  note del = epoll_del_cases [OF e]
  then have m1: "os.more w1 = os.more w" by simp
  note m1 = os_more_world [OF m1]
  have o1: "opens w1 = opens w" using del by (simp add: opens_def)
  have w1: "world_inv w1" "stays d p w w1"
    using del assms memory_unwatch by (auto simp: world_inv_def m1 o1 stays_def)
  note c = close_world [OF w1(1)]
  have neg: "interest w (- 1) = None" "- 1 \<notin> opens w" "sock_of w (- 1) = None"
    using assms memory_neg by (auto simp: world_inv_def opens_def sock_of_def)
  show "interest (drop_fd fd w) = (interest w)(fd := None)" "opens (drop_fd fd w) = opens w - {fd}"
    "edatas (drop_fd fd w) = edatas w" "clients (drop_fd fd w) = clients w"
    "world_inv (drop_fd fd w)" "stays d p w (drop_fd fd w)"
    "sock_of (drop_fd fd w) = (sock_of w)(fd := None)"
    using del c neg m1 o1 assms stays_trans [OF w1(2) c(8)]
    by (auto simp: drop_fd_def e fun_eq_iff)
qed

lemma create_data_world:
  assumes "world_inv w" and "epoll_create_data t q w = (d', w')"
  shows "(d' = 0 \<and> edatas w' = edatas w \<and> brk w' = brk w \<or>
      d' = brk w \<and> d' \<noteq> 0 \<and> edatas w' = (edatas w)(d' \<mapsto> \<lparr>client_ptr = q, fd_type = t\<rparr>) \<and> brk w' = Suc (brk w))"
    and "clients w' = clients w" "registry w' = registry w" "interest w' = interest w" "opens w' = opens w"
    "world_inv w'" "stays d p w w'" "\<And>fd ev. d' \<noteq> 0 \<Longrightarrow> interest w' fd \<noteq> Some (ev, d')"
    "allocs w = [] \<Longrightarrow> d' \<noteq> 0" "sock_of w' = sock_of w"
proof -
  obtain ok m where ok: "malloc_ok (allocs w) = (ok, m)" by fastforce
  have m: "allocs w = [] \<Longrightarrow> ok \<and> m = []" using ok by auto
  note new = memory_new_data [OF assms(1) [unfolded world_inv_def]]
  show "(d' = 0 \<and> edatas w' = edatas w \<and> brk w' = brk w \<or>
      d' = brk w \<and> d' \<noteq> 0 \<and> edatas w' = (edatas w)(d' \<mapsto> \<lparr>client_ptr = q, fd_type = t\<rparr>) \<and> brk w' = Suc (brk w))"
    and "clients w' = clients w" "registry w' = registry w" "interest w' = interest w" "opens w' = opens w"
    "world_inv w'" "stays d p w w'" "\<And>fd ev. d' \<noteq> 0 \<Longrightarrow> interest w' fd \<noteq> Some (ev, d')"
    "allocs w = [] \<Longrightarrow> d' \<noteq> 0" "sock_of w' = sock_of w"
    using assms new m
    by (auto simp: epoll_create_data_def malloc_def ok Let_def stays_def world_inv_def opens_def
        fun_eq_iff split: if_splits)
qed

section \<open>The handlers\<close>

text \<open>
  The outcome of a handler: it ends with the invariant in place and the rest of the memory
  untouched, or abnormally in one of the three ways that do not concern epoll's pointers.
\<close>

definition safe :: "nat \<Rightarrow> nat \<Rightarrow> 's world \<Rightarrow> 's world result \<Rightarrow> bool" where
  "safe d p w r \<longleftrightarrow> (case r of
     Inl u \<Rightarrow> u \<in> {HeapOverflow, OutOfBounds, Killed, Exited} | Inr w' \<Rightarrow> world_inv w' \<and> stays d p w w')"

lemma safe_Inr [simp]: "safe d p w (Inr w') \<longleftrightarrow> world_inv w' \<and> stays d p w w'"
  by (simp add: safe_def)

lemma safe_Inl [simp]: "safe d p w (Inl u) \<longleftrightarrow> u \<in> {HeapOverflow, OutOfBounds, Killed, Exited}"
  by (simp add: safe_def)

lemma safe_trans: "stays d p w w1 \<Longrightarrow> safe d p w1 r \<Longrightarrow> safe d p w r"
  by (auto simp: safe_def intro: stays_trans split: sum.splits)

text \<open>The recursive call, for clients in the phases \<open>P\<close>.\<close>

definition safe_again :: "nat \<Rightarrow> nat \<Rightarrow> client_phase set \<Rightarrow> 's cont \<Rightarrow> bool" where
  "safe_again d p P again \<longleftrightarrow> (\<forall>w c e. world_inv w \<longrightarrow> edatas w d = Some e \<longrightarrow> client_ptr e = p \<longrightarrow>
     is_conn (fd_type e) \<longrightarrow> clients w p = Some c \<longrightarrow> phase c \<in> P \<longrightarrow> safe d p w (again w))"

lemma safe_againD:
  assumes "safe_again d p P again" and "world_inv w1" and "stays d p w w1" and "edatas w1 d = Some e"
    and "client_ptr e = p" and "is_conn (fd_type e)" and "clients w1 p = Some c" and "phase c \<in> P"
  shows "safe d p w (again w1)"
  using assms safe_trans unfolding safe_again_def by blast

lemma world_client_ok: "world_inv w \<Longrightarrow> clients w p = Some c \<Longrightarrow> client_ok c"
  by (auto simp: world_inv_def memory_ok_def)

lemma buf_write_cases:
  "buf_ok buf len cap \<Longrightarrow> buf_write cap buf len d = Inr buf' \<Longrightarrow> buf_ok buf' (len + length d) cap"
  by (auto simp: buf_write_def buf_ok_def split: if_splits)

lemma buf_ok_mono: "buf_ok buf len cap \<Longrightarrow> len' \<le> len \<Longrightarrow> cap \<le> cap' \<Longrightarrow> buf_ok buf len' cap'"
  by (simp add: buf_ok_def)

lemma malloc_quiet: "malloc st = (ok, st') \<Longrightarrow> quiet (st :: ('s, 'z) os_scheme) st'"
  by (cases "allocs st") (auto simp: malloc_def malloc_ok_def quiet_def)

definition same_conn :: "client \<Rightarrow> client \<Rightarrow> bool" where
  "same_conn c c' \<longleftrightarrow> client_fd c' = client_fd c \<and> target_fd c' = target_fd c \<and> slot c' = slot c \<and>
     phase c' = phase c \<and> is_https c' = is_https c \<and> expired c' = expired c \<and>
     host c' = host c \<and> port c' = port c"

lemma read_request_cases:
  assumes "read_request_nonblocking c (w :: 's world) = r" and "bufs_ok c"
  shows "case r of Inl u \<Rightarrow> u = HeapOverflow
    | Inr (n, c', w') \<Rightarrow> quiet w w' \<and> bufs_ok c' \<and> n \<in> {- 1, 0, 1} \<and> same_conn c c'"
proof -
  obtain grown c1 w1 where g: "grow_request c w = (grown, c1, w1)" by (rule prod_cases3)
  have grow: "bufs_ok (c\<lparr>request_capacity := request_capacity c * 2\<rparr>)"
    using assms(2) by (simp add: bufs_ok_def buf_ok_def)
  obtain ok wm where ok: "malloc w = (ok, wm)" by fastforce
  note qm = malloc_quiet [OF ok]
  have q1: "quiet w w1" and b1: "bufs_ok c1" and c1: "same_conn c c1"
    using g qm assms(2) grow by (auto simp: grow_request_def ok same_conn_def split: if_splits)
  obtain res w2 where rv: "recv (client_fd c1) (size_diff (request_capacity c1) (request_len c1)) w1 = (res, w2)"
    by fastforce
  have q2: "quiet w w2" using quiet_trans [OF q1] recv_only [OF rv] by (simp add: only_fd_def)
  note defs = read_request_nonblocking_def g Let_def prod.case rv
  show ?thesis
  proof (cases "grown \<and> (\<exists>d. res = Got d)")
    case False
    then show ?thesis
      using assms(1) q1 q2 b1 c1 unfolding defs by (cases res) (auto split: if_splits)
  next
    case True
    then obtain d where d: "grown" "res = Got d" by blast
    show ?thesis
    proof (cases "buf_write (request_capacity c1) (request_buffer c1) (request_len c1) d")
      case (Inl u)
      then show ?thesis using assms(1) d unfolding defs by (auto simp: buf_write_def split: if_splits)
    next
      case (Inr b)
      have bb: "buf_ok b (request_len c1 + length d) (request_capacity c1)"
        using buf_write_cases [OF _ Inr] b1 by (simp add: bufs_ok_def)
      show ?thesis
      proof (cases "buf_write (request_capacity c1) b (request_len c1 + length d) [NUL]")
        case Inl': (Inl u)
        then show ?thesis using assms(1) d Inr unfolding defs by (auto simp: buf_write_def split: if_splits)
      next
        case Inr': (Inr b')
        have "buf_ok b' (request_len c1 + length d) (request_capacity c1)"
          using buf_write_cases [OF bb Inr'] buf_ok_mono by fastforce
        then show ?thesis using assms(1) d Inr Inr' q2 b1 c1 unfolding defs
          by (auto simp: bufs_ok_def same_conn_def split: if_splits)
      qed
    qed
  qed
qed

lemma reading_safe:
  assumes inv: "world_inv w" and e: "edatas w d = Some e" "client_ptr e = p" "is_conn (fd_type e)"
    and c: "clients w p = Some c" "phase c = READING_REQUEST"
    and again: "safe_again d p {AUTHENTICATING, CLOSING} again"
  shows "safe d p w (handle_reading_request again p c w)"
proof (cases "read_request_nonblocking c w")
  case (Inl u)
  then show ?thesis
    using read_request_cases [OF Inl] world_client_ok [OF inv c(1)]
    by (simp add: handle_reading_request_def client_ok_def)
next
  case (Inr x)
  obtain n c1 w1 where r: "read_request_nonblocking c w = Inr (n, c1, w1)" using Inr by (cases x) auto
  have cases: "quiet w w1" "bufs_ok c1" "same_conn c c1"
    using read_request_cases [OF r] world_client_ok [OF inv c(1)] by (simp_all add: client_ok_def)
  note q = quiet_world [OF cases(1)]
  have tfd: "target_fd c = - 1" using world_client_ok [OF inv c(1)] c(2) by (simp add: client_ok_def)
  have put: "world_inv (put_client p c2 w1)" "stays d p w (put_client p c2 w1)"
    if "bufs_ok c2" "same_conn (c\<lparr>phase := s\<rparr>) c2" for c2 s
  proof -
    have "client_ok c2" using that tfd by (simp add: client_ok_def same_conn_def)
    then show "world_inv (put_client p c2 w1)"
      using put_client_inv [of w1 p c c2] q inv c(1) that(2) by (simp add: same_conn_def)
    show "stays d p w (put_client p c2 w1)"
      using stays_trans [OF q(7) stays_put] q c(1) that(2) by (simp add: same_conn_def)
  qed
  have "safe d p w (again (put_client p (c1\<lparr>phase := s\<rparr>) w1))" if "s \<in> {AUTHENTICATING, CLOSING}" for s
    using that cases q e
    by (intro safe_againD [OF again put [of "c1\<lparr>phase := s\<rparr>" s] _ e(2,3), of "c1\<lparr>phase := s\<rparr>"])
       (auto simp: same_conn_def bufs_ok_def)
  moreover have "safe d p w (Inr (put_client p c1 w1))"
    using put [OF cases(2), of READING_REQUEST] cases(3) c(2) by (simp add: same_conn_def)
  ultimately show ?thesis by (simp add: handle_reading_request_def r)
qed

lemma put_safe:
  assumes "world_inv w" and "stays d p w0 w" and "clients w p = Some c" and "client_ok c'"
    and "client_fd c' = client_fd c" and "target_fd c' = target_fd c \<or> target_fd c = - 1" and "slot c' = slot c"
  shows "world_inv (put_client p c' w)" "stays d p w0 (put_client p c' w)"
  using put_client_inv [OF assms(1,3-6)] stays_trans [OF assms(2) stays_put [OF assms(3)]] assms(7)
  by simp_all

lemma send_ub: "send f fd b st = Inl u \<Longrightarrow> u = Killed \<and> \<not> f"
  by (auto simp: send_def split: option.splits list.splits tx.splits if_splits)

lemma auth_required_cases:
  assumes "send_proxy_auth_required fd st = r"
  shows "case r of Inl u \<Rightarrow> u = Killed | Inr st' \<Rightarrow> only_fd fd st st'"
proof (cases "send False fd auth_required st")
  case (Inl u)
  then show ?thesis using assms send_ub [OF Inl] by (auto simp: send_proxy_auth_required_def)
next
  case (Inr x)
  then show ?thesis using assms send_only by (cases x) (auto simp: send_proxy_auth_required_def)
qed

lemma authenticating_safe:
  assumes inv: "world_inv w" and e: "edatas w d = Some e" "client_ptr e = p" "is_conn (fd_type e)"
    and c: "clients w p = Some c" "phase c = AUTHENTICATING"
    and again: "safe_again d p {INITIALIZE_CONNECTION, CLOSING} again"
  shows "safe d p w (handle_authenticating my again p c w)"
proof (cases "has_valid_auth my (cstr (request_buffer c)) w")
  case (Inl u)
  then show ?thesis using has_valid_auth_ub [OF Inl] by (auto simp: handle_authenticating_def)
next
  case (Inr x)
  obtain b w1 where v: "has_valid_auth my (cstr (request_buffer c)) w = Inr (b, w1)" using Inr by (cases x) auto
  have q: "quiet w w1" using has_valid_auth_quiet [OF v] by blast
  have ok: "bufs_ok c" "target_fd c = - 1" using world_client_ok [OF inv c(1)] c(2) by (simp_all add: client_ok_def)
  have put: "world_inv (put_client p c2 w2)" "stays d p w (put_client p c2 w2)"
    if "quiet w w2" "bufs_ok c2" "client_fd c2 = client_fd c" "target_fd c2 = - 1" "slot c2 = slot c"
    for c2 :: client and w2 :: "'a world"
    using that inv c(1) ok quiet_world [OF that(1)]
    by (intro put_safe [of w2 d p w c c2]; simp add: client_ok_def)+
  have run: "safe d p w (again (put_client p c2 w2))"
    if "quiet w w2" "bufs_ok c2" "client_fd c2 = client_fd c" "target_fd c2 = - 1" "slot c2 = slot c"
      "phase c2 \<in> {INITIALIZE_CONNECTION, CLOSING}" for c2 :: client and w2 :: "'a world"
    using that e quiet_world [OF that(1)]
    by (intro safe_againD [OF again put(1) [OF that(1-5)] put(2) [OF that(1-5)] _ e(2,3)]) auto
  show ?thesis
  proof (cases b)
    case True
    show ?thesis
    proof (cases "parse_host_port (cstr (request_buffer c))")
      case None
      then show ?thesis using True put [OF q] ok by (simp add: handle_authenticating_def v bufs_ok_def)
    next
      case (Some hp)
      obtain h pn where "parse_host_port (cstr (request_buffer c)) = Some (h, pn)" using Some by (cases hp) auto
      then show ?thesis using True run [OF q] ok by (simp add: handle_authenticating_def v bufs_ok_def Let_def)
    qed
  next
    case False
    show ?thesis
    proof (cases "send_proxy_auth_required (client_fd c) w1")
      case (Inl u)
      then show ?thesis using auth_required_cases [OF Inl] False by (simp add: handle_authenticating_def v)
    next
      case (Inr w2)
      then have "quiet w w2" using auth_required_cases [OF Inr] quiet_trans [OF q] by (simp add: only_fd_def)
      then show ?thesis using run [of w2] ok False by (simp add: handle_authenticating_def v Inr bufs_ok_def)
    qed
  qed
qed

lemma same_conn_updates [simp]:
  "same_conn c c"
  "same_conn c (c'\<lparr>client_closed := x\<rparr>) = same_conn c c'"
  "same_conn c (c'\<lparr>target_closed := x\<rparr>) = same_conn c c'"
  "same_conn c (c'\<lparr>last_active := t\<rparr>) = same_conn c c'"
  "same_conn c (c'\<lparr>request_buffer := b\<rparr>) = same_conn c c'"
  "same_conn c (c'\<lparr>request_len := n\<rparr>) = same_conn c c'"
  "same_conn c (c'\<lparr>response_buffer := b\<rparr>) = same_conn c c'"
  "same_conn c (c'\<lparr>response_len := n\<rparr>) = same_conn c c'"
  "same_conn c (if y then c' else c'') = (if y then same_conn c c' else same_conn c c'')"
  by (auto simp: same_conn_def)

lemma forward_steps_same:
  "forward_recv_client c st = Inr (c', st') \<Longrightarrow> same_conn c c'"
  "forward_send_target c st = Inr (c', st') \<Longrightarrow> same_conn c c'"
  "forward_recv_target c st = Inr (c', st') \<Longrightarrow> same_conn c c'"
  "forward_send_client c st = Inr (c', st') \<Longrightarrow> same_conn c c'"
  unfolding forward_recv_client_def forward_send_target_def forward_recv_target_def
    forward_send_client_def bindR_eq_Inr Let_def
  by clarsimp+

definition forward_ok :: "client \<Rightarrow> ('s, 'z) os_scheme \<Rightarrow> client \<Rightarrow> ('s, 'z) os_scheme \<Rightarrow> bool" where
  "forward_ok c st c' st' \<longleftrightarrow> bufs_ok c' \<and> quiet st st' \<and> same_conn c c'"

lemma forward_ok_step:
  fixes st1 :: "('s, 'z) os_scheme"
  assumes "forward_ok c st c1 st1"
    and "f \<in> {forward_recv_client, forward_send_target, forward_recv_target, forward_send_client}"
  shows "\<exists>c' st'. do_if b f (c1, st1) = Inr (c', st') \<and> forward_ok c st c' st'"
proof -
  have b1: "bufs_ok c1" using assms(1) by (simp add: forward_ok_def)
  obtain c' st' where f: "f c1 st1 = Inr (c', st')" and b': "bufs_ok c'" and q: "quiet st1 st'"
    using assms(2) recv_client_law [OF b1, of st1] recv_target_law [OF b1, of st1]
      send_target_law [OF b1, of st1] send_client_law [OF b1, of st1] unfolding only_fd_def by blast
  have "same_conn c1 c'" using assms(2) f forward_steps_same by blast
  then have "forward_ok c st c' st'"
    using assms(1) b' q by (auto simp: forward_ok_def same_conn_def intro: quiet_trans)
  then show ?thesis using f assms(1) by (auto simp: do_if_def)
qed

lemma connection_forward_ok:
  fixes st :: "('s, 'z) os_scheme"
  assumes "bufs_ok c"
  shows "\<exists>r c' st'. connection_forward t ev c st = Inr (r, c', st') \<and> forward_ok c st c' st'"
proof -
  let ?it = "t = EPOLL_FD_CLIENT" and ?tt = "t = EPOLL_FD_TARGET"
  let ?r = "and ev EPOLLIN \<noteq> 0"
  let ?w = "((request_len c > 0 \<and> ?tt) \<or> (response_len c > 0 \<and> ?it)) \<and> and ev EPOLLOUT \<noteq> 0"
  have 0: "forward_ok c st c st" using assms by (simp add: forward_ok_def same_conn_def)
  obtain c1 st1 where 1: "do_if (?it \<and> ?r) forward_recv_client (c, st) = Inr (c1, st1)" "forward_ok c st c1 st1"
    using forward_ok_step [OF 0, of forward_recv_client] by blast
  obtain c2 st2 where 2: "do_if (?tt \<and> ?w) forward_send_target (c1, st1) = Inr (c2, st2)" "forward_ok c st c2 st2"
    using forward_ok_step [OF 1(2), of forward_send_target] by blast
  obtain c3 st3 where 3: "do_if (?tt \<and> ?r) forward_recv_target (c2, st2) = Inr (c3, st3)" "forward_ok c st c3 st3"
    using forward_ok_step [OF 2(2), of forward_recv_target] by blast
  obtain c4 st4 where 4: "do_if (?it \<and> ?w) forward_send_client (c3, st3) = Inr (c4, st4)" "forward_ok c st c4 st4"
    using forward_ok_step [OF 3(2), of forward_send_client] by blast
  show ?thesis
    using 4(2) unfolding connection_forward_def Let_def 1(1) bindR_Inr 2(1) 3(1) 4(1) by auto
qed

lemma forwarding_safe:
  assumes inv: "world_inv w" and c: "clients w p = Some c" "phase c = FORWARDING"
  shows "safe d p w (handle_forwarding t ev p c w)"
proof -
  have ok: "bufs_ok c" using world_client_ok [OF inv c(1)] by (simp add: client_ok_def)
  obtain r c' w' where f: "connection_forward t ev c w = Inr (r, c', w')" "forward_ok c w c' w'"
    using connection_forward_ok [OF ok] by blast
  note q = quiet_world [of w w']
  have put: "world_inv (put_client p (c'\<lparr>phase := s\<rparr>) w')" "stays d p w (put_client p (c'\<lparr>phase := s\<rparr>) w')"
    if "s \<in> {FORWARDING, CLOSING}" for s
    using f(2) q inv c(1) that
    by (intro put_safe [of w' d p w c]; auto simp: forward_ok_def same_conn_def client_ok_def bufs_ok_def)+
  have "c'\<lparr>phase := FORWARDING\<rparr> = c'" using f(2) c(2) by (simp add: forward_ok_def same_conn_def)
  then show ?thesis using put [of CLOSING] put [of FORWARDING] by (simp add: handle_forwarding_def f(1))
qed

lemma closing_safe:
  assumes inv: "world_inv w" and e: "edatas w d = Some e" "client_ptr e = p" "is_conn (fd_type e)"
    and c: "clients w p = Some c" and d: "d \<noteq> 0"
  shows "safe d p w (handle_closing d p c w)"
proof -
  let ?w1 = "drop_fd (client_fd c) w" and ?c' = "c\<lparr>expired := True, client_fd := - 1, target_fd := - 1\<rparr>"
  let ?w2 = "drop_fd (target_fd c) ?w1"
  let ?w3 = "put_client p ?c' ?w2"
  note 1 = drop_world [OF inv, where fd = "client_fd c"]
  note 2 = drop_world [OF 1(5), where fd = "target_fd c"]
  have m2: "memory_ok (edatas ?w2) (clients ?w2) (brk ?w2) (interest ?w2) (opens ?w2)"
    using 2(5) by (simp add: world_inv_def)
  have c2: "clients ?w2 p = Some c" using 1(4) 2(4) c by simp
  have ok: "client_ok ?c'" using world_client_ok [OF inv c] by (simp add: client_ok_def bufs_ok_def)
  have m3: "memory_ok (edatas ?w3) (clients ?w3) (brk ?w3) (interest ?w3) (opens ?w3)"
    using memory_put [OF m2 c2 ok] 1(1) 2(1) by simp
  have n: "interest ?w3 fd \<noteq> Some (ev, d)" for fd ev
  proof
    assume i: "interest ?w3 fd = Some (ev, d)"
    then have "data_ok (edatas ?w3) (clients ?w3) fd d" using m3 d by (auto simp: memory_ok_def)
    then have "fd = - 1" using 1(3) 2(3) e by (auto simp: data_ok_def fd_of_def split: if_splits)
    then show False using i memory_neg [OF m3] by simp
  qed
  have "stays d p w ?w3" using stays_trans [OF stays_trans [OF 1(6) 2(6)] stays_put [OF c2]] by simp
  moreover have "world_inv (?w3\<lparr>edatas := (edatas ?w3)(d := None)\<rparr>)"
    using memory_free_data [OF m3 n] by (simp add: world_inv_def opens_def)
  moreover have "edatas ?w3 d \<noteq> None" using 1(3) 2(3) e by simp
  ultimately show ?thesis using d by (auto simp: handle_closing_def free_edata_def stays_def)
qed

lemma connection_connect_ub: "connection_connect c st = Inl u \<Longrightarrow> u = Killed"
  by (auto simp: connection_connect_def send_https_established_def res_simps Let_def
      dest: send_ub split: option.splits prod.splits conn.splits if_splits)

lemma rest_world:
  fixes w w1 :: "'s world"
  assumes "same_rest w w1"
  shows "edatas w1 = edatas w" "clients w1 = clients w" "brk w1 = brk w" "registry w1 = registry w"
    "stays d p w w1"
proof -
  have "os.more w1 = os.more w" using assms by (simp add: same_rest_def)
  note m = os_more_world [OF this]
  show "edatas w1 = edatas w" "clients w1 = clients w" "brk w1 = brk w" "registry w1 = registry w"
    by (rule m)+
  show "stays d p w w1" using assms by (simp add: stays_def m same_rest_def)
qed

lemma add_world:
  fixes w :: "'s world"
  assumes "epoll_add_fd fd ev d' w = (ok, w')"
  shows "edatas w' = edatas w" "clients w' = clients w" "brk w' = brk w" "registry w' = registry w"
    "opens w' = opens w" "stays d p w w'"
    "ok \<and> fd \<in> opens w \<and> interest w' = (interest w)(fd \<mapsto> (ev, d')) \<or> \<not> ok \<and> interest w' = interest w"
proof -
  note a = epoll_add_cases [OF assms]
  then have "os.more w' = os.more w" by simp
  note m = os_more_world [OF this]
  show "edatas w' = edatas w" "clients w' = clients w" "brk w' = brk w" "registry w' = registry w"
    by (rule m)+
  show "opens w' = opens w" using a by (simp add: opens_def)
  show "stays d p w w'" using a by (simp add: stays_def m)
  show "ok \<and> fd \<in> opens w \<and> interest w' = (interest w)(fd \<mapsto> (ev, d')) \<or> \<not> ok \<and> interest w' = interest w"
    using a by (auto simp: opens_def)
qed

lemma mod_world:
  fixes w :: "'s world"
  assumes "epoll_mod_fd fd ev d' w = (ok, w')"
  shows "edatas w' = edatas w" "clients w' = clients w" "brk w' = brk w" "registry w' = registry w"
    "opens w' = opens w" "stays d p w w'"
    "ok \<and> fd \<in> opens w \<and> interest w' = (interest w)(fd \<mapsto> (ev, d')) \<or> \<not> ok \<and> interest w' = interest w"
proof -
  note a = epoll_mod_cases [OF assms]
  then have "os.more w' = os.more w" by simp
  note m = os_more_world [OF this]
  show "edatas w' = edatas w" "clients w' = clients w" "brk w' = brk w" "registry w' = registry w"
    by (rule m)+
  show "opens w' = opens w" using a by (simp add: opens_def)
  show "stays d p w w'" using a by (simp add: stays_def m)
  show "ok \<and> fd \<in> opens w \<and> interest w' = (interest w)(fd \<mapsto> (ev, d')) \<or> \<not> ok \<and> interest w' = interest w"
    using a by (auto simp: opens_def)
qed

lemma initialize_safe:
  fixes w :: "'s world"
  assumes inv: "world_inv w" and c: "clients w p = Some c" "phase c = INITIALIZE_CONNECTION"
  shows "safe d p w (handle_initialize_connection p c w)"
proof (cases "connection_connect c w")
  case (Inl u)
  then show ?thesis using connection_connect_ub [OF Inl] by (simp add: handle_initialize_connection_def)
next
  case (Inr x)
  obtain r c1 w1 where r: "connection_connect c w = Inr (r, c1, w1)" using Inr by (cases x) auto
  note cc = connection_connect_cases [OF r]
  have ok: "bufs_ok c" "target_fd c = - 1" using world_client_ok [OF inv c(1)] c(2) by (simp_all add: client_ok_def)
  note outcome = cc [THEN conjunct1] and upd = cc [THEN conjunct2, THEN conjunct1]
    and len = cc [THEN conjunct2, THEN conjunct2, THEN conjunct1]
    and rest = cc [THEN conjunct2, THEN conjunct2, THEN conjunct2]
  obtain t l where tl: "t = target_fd c1" "l = request_len c1" by blast
  have c1: "c1 = c\<lparr>target_fd := t, request_len := l\<rparr>" unfolding tl by (rule upd)
  have l: "l \<le> request_len c" using len tl(2) by auto
  have ok1: "client_ok (c1\<lparr>phase := s\<rparr>)" if "s \<in> {CLOSING, CONNECTING}" for s
    using ok l that by (auto simp: c1 client_ok_def bufs_ok_def buf_ok_def)
  note m1 = rest_world [OF rest]
  show ?thesis
  proof (cases "r = - 1")
    case True
    then have "sock_of w1 = sock_of w" "interest w1 = interest w"
      using outcome memory_close_unused [OF inv [unfolded world_inv_def]] by (auto simp: opens_def)
    then have "world_inv w1" using inv by (simp add: world_inv_def m1 opens_def)
    then show ?thesis
      using put_safe [of w1 d p w c "c1\<lparr>phase := CLOSING\<rparr>"] m1 c(1) ok1 [of CLOSING] c1 ok(2) True
      by (simp add: handle_initialize_connection_def r)
  next
    case False
    then have t: "0 \<le> t" "interest w1 = interest w" "sock_of w t = None" "sock_of w1 t \<noteq> None"
      and iff: "fd \<noteq> t \<Longrightarrow> sock_of w1 fd = None \<longleftrightarrow> sock_of w fd = None" for fd
      using outcome tl(1) by auto
    have o1: "opens w1 = insert t (opens w)" 
    proof (rule set_eqI)
      fix fd show "fd \<in> opens w1 \<longleftrightarrow> fd \<in> insert t (opens w)"
        using t(4) iff [of fd] by (cases "fd = t") (auto simp: opens_def)
    qed
    have inv1: "world_inv w1" using memory_open [OF inv [unfolded world_inv_def] t(1)]
      by (simp add: world_inv_def m1 t o1)
    obtain td w2 where td: "epoll_create_data EPOLL_FD_TARGET p w1 = (td, w2)" by fastforce
    note cd = create_data_world [OF inv1 td]
    obtain okd w3 where add: "epoll_add_fd t EPOLLOUT td w2 = (okd, w3)" by fastforce
    note a = add_world [OF add]
    have s3: "stays d p w w3" using stays_trans [OF stays_trans [OF m1(5) cd(7)] a(6)] .
    have c3: "clients w3 p = Some c" using m1 cd a c(1) by simp
    show ?thesis
    proof (cases okd)
      case True
      let ?c2 = "c1\<lparr>phase := CONNECTING\<rparr>"
      have "memory_ok (edatas w2) ((clients w2)(p \<mapsto> ?c2)) (brk w2) (interest w2) (opens w2)"
        using cd(6) m1 cd(2) c(1) ok1 [of CONNECTING] c1 ok(2) memory_neg
        by (intro memory_put [where c = c]) (auto simp: world_inv_def)
      then have "memory_ok (edatas w2) ((clients w2)(p \<mapsto> ?c2)) (brk w2) ((interest w2)(t \<mapsto> (EPOLLOUT, td))) (opens w2)"
        using True a(7) cd(1,8) c1
        by (intro memory_watch) (auto simp: data_ok_def fd_of_def)
      then have "world_inv (put_client p ?c2 w3)"
        using True a by (simp add: world_inv_def)
      moreover have "stays d p w (put_client p ?c2 w3)"
        using stays_trans [OF s3 stays_put [OF c3]] c1 by simp
      ultimately show ?thesis using False True c1
        by (simp add: handle_initialize_connection_def r td add Let_def)
    next
      case okd: False
      have inv3: "world_inv w3" using cd(6) a okd by (simp add: world_inv_def)
      note cl = close_world [OF inv3, where fd = t]
      show ?thesis
        using put_safe [of "close_fd t w3" d p w c "c1\<lparr>phase := CLOSING\<rparr>"] cl c3 ok1 [of CLOSING] c1 ok(2)
          stays_trans [OF s3 cl(8)] False okd
        by (simp add: handle_initialize_connection_def r td add Let_def)
    qed
  qed
qed

lemma memory_watch_client:
  assumes "memory_ok ed cl br it op" and "fd \<in> op" and "d \<noteq> 0" and "\<And>fd ev. it fd \<noteq> Some (ev, d)"
    and "ed d = Some \<lparr>client_ptr = p, fd_type = t\<rparr>" and "cl p = Some c" and "fd = fd_of t c"
  shows "memory_ok ed cl br (it(fd \<mapsto> (ev, d))) op"
  using assms by (intro memory_watch) (auto simp: data_ok_def)

text \<open>Registering one of the two descriptors with a fresh data record.\<close>

lemma watch_step:
  fixes w :: "'s world"
  assumes inv: "world_inv w" and c: "clients w p = Some c" and fd: "fd = fd_of t c"
    and new: "epoll_create_data t p w = (d', w1)" and d': "d' \<noteq> 0"
    and md: "epoll_mod_fd fd ev d' w1 = (ok, w2)"
  shows "if ok then world_inv w2 \<and> stays d p w w2 \<and> clients w2 = clients w
    else \<exists>w3. free_edata d' w2 = Inr w3 \<and> world_inv w3 \<and> stays d p w w3"
proof -
  note cd = create_data_world [OF inv new] and m = mod_world [OF md]
  have s2: "stays d p w w2" using stays_trans [OF cd(7) m(6)] .
  have e: "edatas w1 d' = Some \<lparr>client_ptr = p, fd_type = t\<rparr>" and d'w: "d' = brk w" using cd(1) d' by auto
  have cl: "clients w2 = clients w" using m(2) cd(2) by simp
  show ?thesis
  proof (cases ok)
    case True
    have "memory_ok (edatas w1) (clients w1) (brk w1) ((interest w1)(fd \<mapsto> (ev, d'))) (opens w1)"
      using cd(2,6,8) d' e c fd m(7) True
      by (intro memory_watch_client [where p = p and t = t and c = c]) (auto simp: world_inv_def)
    then show ?thesis using True m s2 cl by (simp add: world_inv_def)
  next
    case False
    let ?w3 = "w2\<lparr>edatas := (edatas w2)(d' := None)\<rparr>"
    have "world_inv ?w3"
      using memory_free_data [OF cd(6) [unfolded world_inv_def] cd(8) [OF d']] m False
      by (simp add: world_inv_def opens_def)
    moreover have "stays d p w ?w3" using s2 d'w by (simp add: stays_def)
    moreover have "free_edata d' w2 = Inr ?w3" using d' e m(1) by (simp add: free_edata_def)
    ultimately show ?thesis using False by auto
  qed
qed

lemma register_safe:
  fixes w :: "'s world"
  assumes inv: "world_inv w" and c: "clients w p = Some c"
  shows "\<exists>b w'. register_forwarding_fds p c w = Inr (b, w') \<and> world_inv w' \<and> stays d p w w'"
proof -
  obtain cd w1 where n1: "epoll_create_data EPOLL_FD_CLIENT p w = (cd, w1)" by fastforce
  note cr1 = create_data_world [OF inv n1]
  show ?thesis
  proof (cases "cd = 0")
    case True
    then show ?thesis using cr1(6,7) by (auto simp: register_forwarding_fds_def n1)
  next
    case cd: False
    obtain ok w2 where m1: "epoll_mod_fd (client_fd c) (or EPOLLIN EPOLLOUT) cd w1 = (ok, w2)" by fastforce
    note s1 = watch_step [OF inv c _ n1 cd m1, where d = d]
    show ?thesis
    proof (cases ok)
      case False
      then show ?thesis using s1 cd by (auto simp: register_forwarding_fds_def n1 m1 fd_of_def)
    next
      case True
      then have w2: "world_inv w2" "stays d p w w2" "clients w2 p = Some c" using s1 c by (auto simp: fd_of_def)
      obtain td w3 where n2: "epoll_create_data EPOLL_FD_TARGET p w2 = (td, w3)" by fastforce
      note cr2 = create_data_world [OF w2(1) n2]
      show ?thesis
      proof (cases "td = 0")
        case True
        then show ?thesis using cr2(6) stays_trans [OF w2(2) cr2(7)] cd \<open>ok\<close>
          by (auto simp: register_forwarding_fds_def n1 m1 n2)
      next
        case td: False
        obtain ok2 w4 where m2: "epoll_mod_fd (target_fd c) (or EPOLLIN EPOLLOUT) td w3 = (ok2, w4)" by fastforce
        note s2 = watch_step [OF w2(1,3) _ n2 td m2, where d = d]
        show ?thesis
          using s2 td cd \<open>ok\<close> stays_trans [OF w2(2)]
          by (cases ok2) (auto simp: register_forwarding_fds_def n1 m1 n2 m2 fd_of_def)
      qed
    qed
  qed
qed

lemma established_cases:
  assumes "send_https_established fd st = r"
  shows "case r of Inl u \<Rightarrow> u = Killed | Inr st' \<Rightarrow> only_fd fd st st'"
proof (cases "send False fd established st")
  case (Inl u)
  then show ?thesis using assms send_ub [OF Inl] by (auto simp: send_https_established_def)
next
  case (Inr x)
  then show ?thesis using assms send_only by (cases x) (auto simp: send_https_established_def)
qed

lemma connecting_safe:
  fixes w :: "'s world"
  assumes inv: "world_inv w" and e: "edatas w d = Some e" "client_ptr e = p" "is_conn (fd_type e)"
    and c: "clients w p = Some c"
    and again: "safe_again d p {CLOSING} again"
  shows "safe d p w (handle_connecting again p c w)"
proof -
  have ok: "bufs_ok c" using world_client_ok [OF inv c] by (simp add: client_ok_def)
  obtain err w1 where so: "so_error (target_fd c) w = (err, w1)" by fastforce
  note q1 = quiet_world [OF so_error_quiet [OF so]]
  have inv1: "world_inv w1" and c1: "clients w1 p = Some c" using q1 inv c by simp_all
  show ?thesis
  proof (cases "err = Some 0")
    case False
    let ?w2 = "close_fd (target_fd c) w1" and ?c = "c\<lparr>target_fd := - 1, phase := CLOSING\<rparr>"
    note cl = close_world [OF inv1, where fd = "target_fd c"]
    have "client_ok ?c" using ok by (simp add: client_ok_def bufs_ok_def)
    then have "world_inv (put_client p ?c ?w2)"
      using memory_put [of "edatas ?w2" "clients ?w2" "brk ?w2" "interest ?w2" "opens ?w2" p c ?c] cl c1
      by (simp add: world_inv_def)
    moreover have "stays d p w (put_client p ?c ?w2)"
      using stays_trans [OF stays_trans [OF q1(7) cl(8)] stays_put] cl(4) c1 by simp
    ultimately have "safe d p w (again (put_client p ?c ?w2))"
      using e q1 cl by (intro safe_againD [OF again _ _ _ e(2,3)]) auto
    then show ?thesis using False by (simp add: handle_connecting_def so)
  next
    case True
    have fwd: "safe d p w (bindR (register_forwarding_fds p c2 (put_client p c2 w2)) (\<lambda>(_, w). Inr w))"
      if "quiet w w2" "c2 = c\<lparr>request_len := l, response_len := 0, phase := FORWARDING\<rparr>" "l \<le> request_len c"
      for w2 :: "'s world" and c2 l
    proof -
      note q2 = quiet_world [OF that(1)]
      have "client_ok c2" using ok that(2,3) by (auto simp: client_ok_def bufs_ok_def buf_ok_def)
      note put = put_safe [OF _ q2(7) _ this, where p = p and c = c]
      have w2: "world_inv (put_client p c2 w2)" "stays d p w (put_client p c2 w2)"
        using put that(2) q2 inv c by auto
      obtain b w' where "register_forwarding_fds p c2 (put_client p c2 w2) = Inr (b, w')"
        "world_inv w'" "stays d p (put_client p c2 w2) w'"
        using register_safe [OF w2(1), of p c2 d] by auto
      then show ?thesis using stays_trans [OF w2(2)] by auto
    qed
    show ?thesis
    proof (cases "is_https c")
      case False
      then show ?thesis
        using fwd [of w1 "c\<lparr>response_len := 0, phase := FORWARDING\<rparr>" "request_len c"] True so_error_quiet [OF so]
        by (simp add: handle_connecting_def so Let_def)
    next
      case https: True
      show ?thesis
      proof (cases "send_https_established (client_fd c) w1")
        case (Inl u)
        then show ?thesis using established_cases [OF Inl] True https
          by (simp add: handle_connecting_def so)
      next
        case (Inr w2)
        then have "quiet w w2"
          using established_cases [OF Inr] quiet_trans [OF so_error_quiet [OF so]] by (simp add: only_fd_def)
        then show ?thesis using fwd [of w2 _ 0] True https Inr
          by (simp add: handle_connecting_def so Let_def)
      qed
    qed
  qed
qed

section \<open>The dispatcher\<close>

definition depth :: "client_phase \<Rightarrow> nat" where
  "depth s = (case s of READING_REQUEST \<Rightarrow> 3 | AUTHENTICATING \<Rightarrow> 2 | CONNECTING \<Rightarrow> 2 | _ \<Rightarrow> 1)"

lemma handle_client_n_safe:
  assumes "world_inv w" and "edatas w d = Some e" and "client_ptr e = p" and "is_conn (fd_type e)"
    and "clients w p = Some c" and "depth (phase c) \<le> n" and "d \<noteq> 0"
  shows "safe d p w (handle_client_n n my d ev w)"
  using assms
proof (induction n arbitrary: w c e)
  case 0
  then show ?case by (simp add: depth_def split: client_phase.splits)
next
  case (Suc n)
  have p: "p \<noteq> 0" using Suc.prems by (auto simp: world_inv_def memory_ok_def)
  have again: "safe_again d p {s. depth s \<le> n} (handle_client_n n my d ev)"
    using Suc.IH Suc.prems(7) by (auto simp: safe_again_def)
  have sub: "safe_again d p P (handle_client_n n my d ev)" if "\<forall>s \<in> P. depth s \<le> n" for P
    using again that by (auto simp: safe_again_def)
  have e: "handle_client_n (Suc n) my d ev w =
    (if expired c then Inr w
     else case phase c of
            READING_REQUEST \<Rightarrow> handle_reading_request (handle_client_n n my d ev) p c w
          | AUTHENTICATING \<Rightarrow> handle_authenticating my (handle_client_n n my d ev) p c w
          | INITIALIZE_CONNECTION \<Rightarrow> handle_initialize_connection p c w
          | CONNECTING \<Rightarrow> handle_connecting (handle_client_n n my d ev) p c w
          | FORWARDING \<Rightarrow> handle_forwarding (fd_type e) ev p c w
          | CLOSING \<Rightarrow> handle_closing d p c w
          | CLOSED \<Rightarrow> Inr w)"
    using Suc.prems p by (simp add: deref_def split: client_phase.split)
  show ?case
  proof (cases "expired c")
    case True
    then show ?thesis using e Suc.prems(1) by simp
  next
    case False
    note pr = Suc.prems(1-5)
    show ?thesis
      using Suc.prems(6) reading_safe [OF pr _ sub] authenticating_safe [OF pr _ sub, where my = my]
        initialize_safe [OF pr(1,5), where d = d] connecting_safe [OF pr sub]
        forwarding_safe [OF pr(1,5), where d = d and t = "fd_type e" and ev = ev] closing_safe [OF pr Suc.prems(7)] pr(1)
      unfolding e using False
      by (cases "phase c") (simp_all add: depth_def)
  qed
qed

lemma handle_client_safe:
  assumes "world_inv w" and "edatas w d = Some e" and "is_conn (fd_type e)"
    and "clients w (client_ptr e) = Some c" and "d \<noteq> 0"
  shows "safe d (client_ptr e) w (handle_client my d ev w)"
  unfolding handle_client_def
  using assms by (intro handle_client_n_safe [where c = c]) (auto simp: depth_def split: client_phase.splits)

section \<open>Freeing and creating clients\<close>

text \<open>
  \<open>extends w w'\<close>: everything that was alive is alive and unchanged, apart from the clients in \<open>X\<close>.
\<close>

definition extends :: "nat set \<Rightarrow> 's world \<Rightarrow> 's world \<Rightarrow> bool" where
  "extends X w w' \<longleftrightarrow> brk w \<le> brk w' \<and> accepts w' = accepts w \<and> now w' = now w \<and>
     (allocs w = [] \<longrightarrow> allocs w' = []) \<and>
     (\<forall>d < brk w. edatas w' d = edatas w d) \<and> (\<forall>p < brk w. p \<notin> X \<longrightarrow> clients w' p = clients w p)"

lemma extends_refl [simp]: "extends X w w"
  by (simp add: extends_def)

lemma extends_trans: "extends X w w' \<Longrightarrow> extends X w' w'' \<Longrightarrow> extends X w w''"
  unfolding extends_def by (metis order_less_le_trans order_trans)

lemma extends_new: "extends {} w w1 \<Longrightarrow> extends {p} w1 w' \<Longrightarrow> brk w \<le> p \<Longrightarrow> extends {} w w'"
  unfolding extends_def by (auto simp: order_less_le_trans)

lemma quiet_extends: "quiet w w' \<Longrightarrow> extends X w w'"
  using quiet_world(1-3) [of w w'] by (simp add: extends_def quiet_def)

lemma free_client_world:
  assumes inv: "world_inv w" and c: "clients w p = Some c"
  shows "\<exists>w'. free_client_state p w = Inr w' \<and> world_inv w' \<and> clients w' = (clients w)(p := None) \<and>
    edatas w' = edatas w \<and> registry w' = registry w \<and> extends {p} w w' \<and>
    sock_of w' = (sock_of w)(client_fd c := None, target_fd c := None)"
proof -
  have p: "p \<noteq> 0" using inv c by (auto simp: world_inv_def memory_ok_def)
  have neg: "sock_of w (- 1) = None" by (simp add: sock_of_def)
  let ?w1 = "if client_fd c \<noteq> - 1 then close_fd (client_fd c) w else w"
  note cl = close_world [OF inv, where fd = "client_fd c"]
  have 1: "world_inv ?w1" "clients ?w1 = clients w" "edatas ?w1 = edatas w" "registry ?w1 = registry w"
    "stays 0 0 w ?w1" "sock_of ?w1 = (sock_of w)(client_fd c := None)"
    "interest ?w1 = (interest w)(client_fd c := None)"
    using cl inv neg memory_neg [OF inv [unfolded world_inv_def]] by (auto simp: fun_eq_iff)
  let ?w2 = "if target_fd c \<noteq> - 1
      then close_fd (target_fd c) (snd (epoll_del_fd (target_fd c) ?w1)) else ?w1"
  have w2: "?w2 = drop_fd (target_fd c) ?w1" by (simp add: drop_fd_def)
  note dr = drop_world [OF 1(1), where fd = "target_fd c"]
  let ?w3 = "?w2\<lparr>clients := (clients ?w2)(p := None)\<rparr>"
  have "world_inv ?w3"
    using memory_free_client [of "edatas ?w2" "clients ?w2" "brk ?w2" "interest ?w2" "opens ?w2" p c]
      dr(1-5) 1 c unfolding w2 by (simp add: world_inv_def opens_def)
  moreover have "free_client_state p w = Inr ?w3"
    using p c by (simp add: free_client_state_def deref_def Let_def)
  moreover have "stays 0 0 w ?w2" using stays_trans [OF 1(5) dr(6)] unfolding w2 .
  ultimately show ?thesis using dr 1 unfolding w2 by (auto simp: stays_def extends_def fun_eq_iff)
qed


lemma new_client_ok: "client_ok (new_client fd t)"
  by (simp add: client_ok_def new_client_def bufs_ok_def buf_ok_def)

lemma create_client_world:
  assumes inv: "world_inv w" and c: "create_client_state fd w = (p, w')"
  shows "world_inv w' \<and> extends {} w w' \<and> registry w' = registry w \<and> edatas w' = edatas w \<and>
    interest w' = interest w \<and> sock_of w' = sock_of w \<and>
    (p = 0 \<and> clients w' = clients w \<or>
     p \<noteq> 0 \<and> p = brk w \<and> clients w' = (clients w)(p \<mapsto> new_client fd (now w)) \<and> clients w p = None)"
proof -
  obtain ok1 w1 where 1: "malloc w = (ok1, w1)" by fastforce
  obtain ok2 w2 where 2: "malloc w1 = (ok2, w2)" by fastforce
  obtain ok3 w3 where 3: "malloc w2 = (ok3, w3)" by fastforce
  have q1: "quiet w w1" and q3: "quiet w w3"
    using malloc_quiet [OF 1] malloc_quiet [OF 2] malloc_quiet [OF 3] quiet_trans by blast+
  have s: "sock_of w1 = sock_of w" "sock_of w3 = sock_of w"
    using 1 2 3 by (auto simp: malloc_def split: prod.splits)
  note m1 = quiet_world [OF q1] and m3 = quiet_world [OF q3]
  show ?thesis
  proof (cases "ok1 \<and> ok2 \<and> ok3")
    case False
    then have "p = 0 \<and> (w' = w1 \<or> w' = w3)"
      using c by (auto simp: create_client_state_def 1 2 3 Let_def split: if_splits)
    then show ?thesis using inv m1 m3 s quiet_extends [OF q1] quiet_extends [OF q3] by auto
  next
    case True
    let ?w = "w3\<lparr>clients := (clients w3)(brk w3 \<mapsto> new_client fd (now w3)), brk := brk w3 + 1\<rparr>"
    have p: "p = brk w3" and w': "w' = ?w"
      using c True by (auto simp: create_client_state_def 1 2 3 Let_def)
    have n: "now w3 = now w" "brk w3 = brk w" using q3 m3 by (simp_all add: quiet_def)
    note new = memory_new_client [OF inv [unfolded world_inv_def] new_client_ok]
    have "world_inv w'" using new(1) by (simp add: w' world_inv_def opens_def m3 s)
    moreover have "extends {} w w'"
      using quiet_extends [OF q3] new(2) by (auto simp: w' extends_def m3)
    moreover have "sock_of w' = sock_of w" using s by (auto simp: w' fun_eq_iff)
    ultimately show ?thesis using new(2,3) p n by (simp add: w' m3)
  qed
qed


lemma create_data_extends:
  assumes "world_inv w" and "epoll_create_data t q w = (d', w')"
  shows "extends X w w'"
  using create_data_world(1,2,7) [OF assms] by (auto simp: extends_def stays_def)

lemma register_client_world:
  fixes w :: "'s world"
  assumes inv: "world_inv w"
  shows "\<exists>p w'. epoll_register_client fd ev w = Inr (p, w') \<and> world_inv w' \<and> extends {} w w' \<and>
    registry w' = registry w \<and>
    (p = 0 \<and> clients w' = clients w \<and> sock_of w' fd = None \<or>
     p \<noteq> 0 \<and> clients w p = None \<and> clients w' = (clients w)(p \<mapsto> new_client fd (now w)) \<and>
       (\<exists>d. interest w' fd = Some (ev, d) \<and> d \<noteq> 0 \<and>
         edatas w' d = Some \<lparr>client_ptr = p, fd_type = EPOLL_FD_CLIENT\<rparr>))"
proof -
  let ?w1 = "set_nonblocking fd w"
  note q1 = quiet_world [OF set_nonblocking_quiet [of w fd]]
  have inv1: "world_inv ?w1" and e1: "extends {} w ?w1"
    using q1 inv quiet_extends [OF set_nonblocking_quiet] by auto
  obtain p w2 where cc: "create_client_state fd ?w1 = (p, w2)" by fastforce
  note c2 = create_client_world [OF inv1 cc]
  have e2: "extends {} w w2" using extends_trans [OF e1] c2 by blast
  have n1: "now ?w1 = now w" using set_nonblocking_quiet [of w fd] by (simp add: quiet_def)
  show ?thesis
  proof (cases "p = 0")
    case True
    have "world_inv w2" "clients w2 = clients w" "registry w2 = registry w" using c2 True q1 by auto
    note cl = close_world [OF this(1), where fd = fd]
    have "extends {} w2 (close_fd fd w2)" using cl(3-5) by (simp add: extends_def)
    note e = extends_trans [OF e2 this]
    show ?thesis using cl(2-7) e c2 True q1(2,4)
      by (auto simp: epoll_register_client_def cc Let_def)
  next
    case p: False
    have 2: "world_inv w2" "clients w2 = (clients w)(p \<mapsto> new_client fd (now w))" "clients w p = None"
      "registry w2 = registry w" "brk w \<le> p" "interest w2 = interest w"
      using c2 p q1 n1 by auto
    have undo: "\<exists>w'. free_client_state p w4 = Inr w' \<and> world_inv w' \<and> extends {} w w' \<and>
        registry w' = registry w \<and> clients w' = clients w \<and> sock_of w' fd = None"
      if w4: "world_inv w4" "extends {} w w4" "registry w4 = registry w" "clients w4 = clients w2" for w4 :: "'s world"
    proof -
      have c4: "clients w4 p = Some (new_client fd (now w))" using w4(4) 2(2) by simp
      obtain w' where f: "free_client_state p w4 = Inr w'" "world_inv w'"
        "clients w' = (clients w4)(p := None)" "registry w' = registry w4" "extends {p} w4 w'"
        "sock_of w' = (sock_of w4)(client_fd (new_client fd (now w)) := None,
           target_fd (new_client fd (now w)) := None)"
        using free_client_world [OF w4(1) c4] by blast
      then show ?thesis
        using w4 2 extends_new [OF w4(2) f(5)] by (auto simp: new_client_def)
    qed
    obtain d w3 where nd: "epoll_create_data EPOLL_FD_CLIENT p w2 = (d, w3)" by fastforce
    note c3 = create_data_world [OF 2(1) nd]
    have e3: "extends {} w w3" using extends_trans [OF e2 create_data_extends [OF 2(1) nd]] .
    show ?thesis
    proof (cases "d = 0")
      case True
      then show ?thesis using undo [of w3] c3 e3 2 p
        by (auto simp: epoll_register_client_def cc nd Let_def)
    next
      case d: False
      obtain ok w4 where ad: "epoll_add_fd fd ev d w3 = (ok, w4)" by fastforce
      note a = add_world [OF ad]
      have "extends {} w3 w4" using a(1-3) a(6) by (simp add: extends_def stays_def)
      note e4 = extends_trans [OF e3 this]
      have data: "edatas w3 d = Some \<lparr>client_ptr = p, fd_type = EPOLL_FD_CLIENT\<rparr>" "brk w2 \<le> d"
        using c3(1) d by auto
      show ?thesis
      proof (cases ok)
        case True
        have "memory_ok (edatas w3) (clients w3) (brk w3) ((interest w3)(fd \<mapsto> (ev, d))) (opens w3)"
          using c3(2,6,8) d data 2(2) a(7) True
          by (intro memory_watch_client [where p = p and t = EPOLL_FD_CLIENT and c = "new_client fd (now w)"])
             (auto simp: world_inv_def fd_of_def new_client_def)
        then have "world_inv w4" using True a by (simp add: world_inv_def)
        then show ?thesis using True a c3(2,3) 2 p d data e4
          by (auto simp: epoll_register_client_def cc nd ad Let_def)
      next
        case False
        let ?w5 = "w4\<lparr>edatas := (edatas w4)(d := None)\<rparr>"
        have "world_inv ?w5"
          using memory_free_data [OF c3(6) [unfolded world_inv_def] c3(8) [OF d]] a False
          by (simp add: world_inv_def opens_def)
        moreover have "extends {} w ?w5" using e4 data(2) e2 by (auto simp: extends_def)
        moreover have "free_edata d w4 = Inr ?w5" using d data(1) a(1) by (simp add: free_edata_def)
        ultimately show ?thesis using undo [of ?w5] a c3(2,3) 2 p d False
          by (auto simp: epoll_register_client_def cc nd ad Let_def)
      qed
    qed
  qed
qed

end
