(* ===== verification/EventLoop.thy ===== *)
theory EventLoop
  imports Invariant
begin

text \<open>
  The event loop: the handlers of \<open>src/main/loop_handlers.c\<close>, the timer of
  \<open>src/main/timeout.c\<close> and \<open>run_loop\<close> of \<open>src/main/main.c\<close>, and the memory safety of whole
  batches of events.
\<close>

section \<open>New connections\<close>

lemma free_client_accepts:
  assumes "free_client_state p w = Inr w'"
  shows "accepts w' = accepts w"
proof -
  have del: "accepts (snd (epoll_del_fd fd st)) = accepts st" for fd and st :: "'a world"
    using epoll_del_cases [of fd st] by (metis prod.collapse)
  show ?thesis
  proof (cases "deref (clients w) p")
    case (Inr c)
    then show ?thesis using assms by (cases "p = 0") (auto simp: free_client_state_def Let_def del)
  qed (use assms in \<open>auto simp: free_client_state_def split: if_splits\<close>)
qed

lemma register_client_accepts:
  assumes "epoll_register_client fd ev w = Inr (p, w')"
  shows "accepts w' = accepts w"
proof -
  let ?w1 = "set_nonblocking fd w"
  have 1: "accepts ?w1 = accepts w" using set_nonblocking_quiet [of w fd] by (simp add: quiet_def)
  obtain q w2 where 2: "create_client_state fd ?w1 = (q, w2)" by fastforce
  have a2: "accepts w2 = accepts w"
    using 2 1 by (auto simp: create_client_state_def malloc_def Let_def split: prod.splits if_splits)
  obtain d w3 where 3: "epoll_create_data EPOLL_FD_CLIENT q w2 = (d, w3)" by fastforce
  have a3: "accepts w3 = accepts w"
    using 3 a2 by (auto simp: epoll_create_data_def malloc_def Let_def split: prod.splits if_splits)
  obtain ok w4 where 4: "epoll_add_fd fd ev d w3 = (ok, w4)" by fastforce
  have a4: "accepts w4 = accepts w" using epoll_add_cases [OF 4] a3 by simp
  have fr: "accepts w6 = accepts w4" if "free_edata d w4 = Inr w5" "free_client_state q w5 = Inr w6" for w5 w6
    using that(1) free_client_accepts [OF that(2)] by (auto simp: free_edata_def split: if_splits)
  show ?thesis
    using assms a2 a3 a4 fr
    by (auto simp: epoll_register_client_def 2 3 4 Let_def bindR_eq_Inr split: if_splits dest: free_client_accepts)
qed

lemma accept_shorter: "accept_connection w = (Some fd, w') \<Longrightarrow> length (accepts w') < length (accepts w)"
  by (auto simp: accept_connection_def Let_def split: list.splits option.splits prod.splits dest: sock_of_open(5))

text \<open>
  The loop of \<open>handle_listener_event\<close>. It ends because every round takes one connection
  off the queue.
\<close>

function handle_listener_event :: "'s world \<Rightarrow> 's world result" where
  "handle_listener_event w =
     (case accept_connection w of
        (None, w) \<Rightarrow> Inr w
      | (Some fd, w1) \<Rightarrow>
          (case epoll_register_client fd EPOLLIN w1 of
             Inl u \<Rightarrow> Inl u
           | Inr (p, w2) \<Rightarrow>
               if p = 0 then Inr w2
               else
                 (case state_registry_add p (registry w2) of
                    (None, t) \<Rightarrow> free_client_state p (w2\<lparr>registry := t\<rparr>)
                  | (Some i, t) \<Rightarrow>
                      bindR (deref (clients w2) p) (\<lambda>c.
                        handle_listener_event (put_client p (c\<lparr>slot := i\<rparr>) (w2\<lparr>registry := t\<rparr>))))))"
  by pat_completeness auto
termination
proof (relation "measure (\<lambda>w. length (accepts w))", goal_cases)
  case (2 w x w1 fd b p w2 xb t i c)
  then have "accept_connection w = (Some fd, w1)" "epoll_register_client fd EPOLLIN w1 = Inr (p, w2)"
    by simp_all
  then show ?case using accept_shorter register_client_accepts by fastforce
qed simp


declare handle_listener_event.simps [simp del]

section \<open>Timeouts\<close>

definition timeout_callback :: "nat \<Rightarrow> 's world \<Rightarrow> 's world result" where
  "timeout_callback p w =
     bindR (deref (clients w) p) (\<lambda>c.
       if now w - last_active c < 10 \<and> \<not> expired c then Inr w
       else if expired c then
         bindR (state_registry_remove (slot c) (registry w)) (\<lambda>t. free_client_state p (w\<lparr>registry := t\<rparr>))
       else
         (let w = (if client_fd c \<noteq> - 1 \<and> target_fd c \<noteq> - 1
                   then snd (epoll_del_fd (target_fd c) (snd (epoll_del_fd (client_fd c) w))) else w)
          in Inr (put_client p (c\<lparr>expired := True\<rparr>) w)))"

definition handle_timer_event :: "'s world \<Rightarrow> 's world result" where
  "handle_timer_event w =
     (let (full, w) = timer_read w in
      if \<not> full then Inr w else state_registry_for_each registry timeout_callback w)"

section \<open>Dispatch\<close>

definition handle_client_event :: "'s mysql \<Rightarrow> edata \<Rightarrow> nat \<Rightarrow> 32 word \<Rightarrow> 's world \<Rightarrow> 's world result" where
  "handle_client_event my e d ev w =
     (if \<not> (fd_type e = EPOLL_FD_CLIENT \<or> fd_type e = EPOLL_FD_TARGET) then Inr w
      else handle_client my d ev w)"

text \<open>One event of a batch; a null data pointer is dereferenced by the second test.\<close>

definition handle_event :: "'s mysql \<Rightarrow> nat \<times> 32 word \<Rightarrow> 's world \<Rightarrow> 's world result" where
  "handle_event my event w =
     (let (d, ev) = event in
      bindR (deref (edatas w) d) (\<lambda>e.
        if fd_type e = EPOLL_FD_LISTENER \<and> client_ptr e = 0 then handle_listener_event w
        else if fd_type e = EPOLL_FD_TIMER then handle_timer_event w
        else handle_client_event my e d ev w))"

fun run_events :: "('e \<Rightarrow> 'w \<Rightarrow> 'w result) \<Rightarrow> 'e list \<Rightarrow> 'w \<Rightarrow> 'w result" where
  "run_events step [] w = Inr w"
| "run_events step (e # es) w = bindR (step e w) (run_events step es)"

section \<open>Starting and stopping\<close>

text \<open>The three global descriptors, -1 while they are not open.\<close>

record globals =
  server_sock :: int
  epoll_fd :: int
  timer_fd :: int

definition cleanup_resources :: "globals \<Rightarrow> ('s, 'z) os_scheme \<Rightarrow> globals \<times> ('s, 'z) os_scheme" where
  "cleanup_resources g st =
     (let st = (if server_sock g \<noteq> - 1 then close_fd (server_sock g) st else st);
          st = (if epoll_fd g \<noteq> - 1 then close_fd (epoll_fd g) st else st);
          st = (if timer_fd g \<noteq> - 1 then close_fd (timer_fd g) st else st)
      in (\<lparr>server_sock = - 1, epoll_fd = - 1, timer_fd = - 1\<rparr>, st))"

definition create_timer_fd :: "('s, 'z) os_scheme \<Rightarrow> int \<times> ('s, 'z) os_scheme" where
  "create_timer_fd st =
     (let (ok, st) = sys_ok st in
      if \<not> ok then (- 1, st)
      else
        (let (fd, st) = open_fd plain_sock st;
             (ok, st) = sys_ok st
         in if \<not> ok then (- 1, close_fd fd st) else (fd, st)))"

definition register_timer :: "'s world \<Rightarrow> (int \<times> 's world) result" where
  "register_timer w =
     (let (fd, w) = create_timer_fd w in
      if fd = - 1 then Inr (- 1, w)
      else
        (let (d, w) = epoll_create_data EPOLL_FD_TIMER 0 w in
         if d = 0 then Inr (- 1, w)
         else
           (let (ok, w) = epoll_add_fd fd EPOLLIN d w in
            if \<not> ok then bindR (free_edata d w) (\<lambda>w. Inr (- 1, w)) else Inr (fd, w))))"

text \<open>
  \<open>create_server_socket\<close>: the descriptor, or -1. The test for a failed \<open>socket\<close> compares with
  0, so a failure is noticed by the call after it; \<open>htons\<close> keeps the low sixteen bits of the port.
\<close>

definition create_server_socket :: "int \<Rightarrow> nat \<Rightarrow> ('s, 'z) os_scheme \<Rightarrow> int \<times> ('s, 'z) os_scheme" where
  "create_server_socket server_port backlog st =
     (let (fd, st) = socket st in
      if fd = 0 then (- 1, st)
      else
        (let (ok, st) = sys_ok st in
         if \<not> ok \<or> sock_of st fd = None then (- 1, close_fd fd st)
         else
           (let (ok, st) = sys_ok st in
            if \<not> ok then (- 1, close_fd fd st)
            else
              (let (ok, st) = sys_ok st in
               if \<not> ok then (- 1, close_fd fd st)
               else (fd, st\<lparr>listening := Some (fd, htons server_port, backlog)\<rparr>)))))"

text \<open>
  The part of \<open>run_loop\<close> before the loop: \<open>True\<close> when the loop is entered, \<open>False\<close> when
  \<open>exit_with_error\<close> ends the process after \<open>cleanup_resources\<close>.
\<close>

definition exit_with_error :: "globals \<Rightarrow> 's world \<Rightarrow> (bool \<times> globals \<times> 's world) result" where
  "exit_with_error g w = (let (g, w) = cleanup_resources g w in Inr (False, g, w))"

definition run_loop_start :: "globals \<Rightarrow> 's world \<Rightarrow> (bool \<times> globals \<times> 's world) result" where
  "run_loop_start g w =
     (let w = set_nonblocking (server_sock g) w;
          (ok, w) = sys_ok w
      in if \<not> ok then exit_with_error (g\<lparr>epoll_fd := - 1\<rparr>) w
         else
           (let (efd, w) = open_fd plain_sock w;
                g = g\<lparr>epoll_fd := efd\<rparr>;
                (d, w) = epoll_create_data EPOLL_FD_LISTENER 0 w
            in if d = 0 then exit_with_error g w
               else
                 (let (ok, w) = epoll_add_fd (server_sock g) EPOLLIN d w in
                  if \<not> ok then bindR (free_edata d w) (exit_with_error g)
                  else
                    bindR (register_timer w) (\<lambda>(tfd, w).
                      (let g = g\<lparr>timer_fd := tfd\<rparr> in
                       if tfd = - 1 then exit_with_error g w else Inr (True, g, w))))))"

text \<open>
  What \<open>epoll_wait\<close> returns: descriptors with their events, at a time; an interruption by a
  signal, which is retried; or another error, which ends the process.
\<close>

datatype wait = Ready int "(int \<times> 32 word) list" | Interrupted | WaitFailed

fun run_loop :: "'s mysql \<Rightarrow> globals \<Rightarrow> wait list \<Rightarrow> 's world \<Rightarrow> (bool \<times> globals \<times> 's world) result" where
  "run_loop my g [] w = Inr (True, g, w)"
| "run_loop my g (Interrupted # ws) w = run_loop my g ws w"
| "run_loop my g (WaitFailed # ws) w = exit_with_error g w"
| "run_loop my g (Ready t rs # ws) w =
     (let w = w\<lparr>now := t\<rparr> in
      bindR (run_events (handle_event my) (epoll_wait rs w) w) (run_loop my g ws))"

section \<open>The registry and the clients\<close>

text \<open>Every slot in use names a live client with this slot, and every live client is in its slot.\<close>

definition reg_inv :: "'s world \<Rightarrow> bool" where
  "reg_inv w \<longleftrightarrow> length (registry w) = MAX_CLIENTS \<and>
     (\<forall>i < MAX_CLIENTS. registry w ! i \<noteq> 0 \<longrightarrow> (\<exists>c. clients w (registry w ! i) = Some c \<and> slot c = i)) \<and>
     (\<forall>p c. clients w p = Some c \<longrightarrow> slot c < MAX_CLIENTS \<and> registry w ! slot c = p)"

lemma reg_invI:
  assumes "length (registry w) = MAX_CLIENTS"
    and "\<And>i. i < MAX_CLIENTS \<Longrightarrow> registry w ! i \<noteq> 0 \<Longrightarrow> \<exists>c. clients w (registry w ! i) = Some c \<and> slot c = i"
    and "\<And>p c. clients w p = Some c \<Longrightarrow> slot c < MAX_CLIENTS"
    and "\<And>p c. clients w p = Some c \<Longrightarrow> registry w ! slot c = p"
  shows "reg_inv w"
  using assms unfolding reg_inv_def by blast

lemma reg_length: "reg_inv w \<Longrightarrow> length (registry w) = MAX_CLIENTS"
  by (simp add: reg_inv_def)

lemma reg_used: "reg_inv w \<Longrightarrow> i < MAX_CLIENTS \<Longrightarrow> registry w ! i \<noteq> 0 \<Longrightarrow>
    \<exists>c. clients w (registry w ! i) = Some c \<and> slot c = i"
  by (simp add: reg_inv_def)

lemma reg_slot: "reg_inv w \<Longrightarrow> clients w p = Some c \<Longrightarrow> slot c < MAX_CLIENTS \<and> registry w ! slot c = p"
  by (simp add: reg_inv_def)

definition loop_inv :: "'s world \<Rightarrow> bool" where
  "loop_inv w \<longleftrightarrow> world_inv w \<and> reg_inv w"

text \<open>An event whose data, and the client of which, are alive.\<close>

definition ev_live :: "'s world \<Rightarrow> nat \<Rightarrow> bool" where
  "ev_live w d \<longleftrightarrow> d \<noteq> 0 \<and>
     (\<exists>e. edatas w d = Some e \<and> (is_conn (fd_type e) \<longrightarrow> clients w (client_ptr e) \<noteq> None))"

lemma stays_reg_inv:
  assumes "stays d p w w'" and "reg_inv w"
  shows "reg_inv w'"
proof -
  have r: "registry w' = registry w" using assms(1) by (simp add: stays_def)
  have s: "map_option slot (clients w' q) = map_option slot (clients w q)" for q
    using assms(1) by (cases "q = p") (auto simp: stays_def)
  have fwd: "\<exists>c. clients w' q = Some c \<and> slot c = i" if "\<exists>c. clients w q = Some c \<and> slot c = i" for q i
    using that s [of q] by (cases "clients w' q") auto
  have bwd: "\<exists>c. clients w q = Some c \<and> slot c = slot c'" if "clients w' q = Some c'" for q c'
    using that s [of q] by (cases "clients w q") auto
  have sl: "slot c' < MAX_CLIENTS \<and> registry w ! slot c' = q" if "clients w' q = Some c'" for q c'
    using bwd [OF that] reg_slot [OF assms(2)] by metis
  show ?thesis
    using reg_length [OF assms(2)] fwd reg_used [OF assms(2)] sl by (intro reg_invI) (simp_all add: r)
qed

lemma stays_clients: "stays d p w w' \<Longrightarrow> clients w' q = None \<longleftrightarrow> clients w q = None"
  by (cases "q = p") (auto simp: stays_def dest: arg_cong [where f = "\<lambda>x. x = None"])

lemma ev_live_bound: "world_inv w \<Longrightarrow> ev_live w d \<Longrightarrow> d < brk w"
  by (auto simp: ev_live_def world_inv_def memory_ok_def)

lemma ev_live_mono:
  assumes "ev_live w d" and "edatas w' d = edatas w d" and "\<And>q. clients w q \<noteq> None \<Longrightarrow> clients w' q \<noteq> None"
  shows "ev_live w' d"
  using assms by (auto simp: ev_live_def)

lemma stays_live: "world_inv w \<Longrightarrow> stays d p w w' \<Longrightarrow> ev_live w d' \<Longrightarrow> d' \<noteq> d \<Longrightarrow> ev_live w' d' \<and> edatas w' d' = edatas w d'"
  using ev_live_bound [of w d'] stays_clients [of d p w w']
  by (auto simp: ev_live_def stays_def)

lemma extends_live: "world_inv w \<Longrightarrow> extends {} w w' \<Longrightarrow> ev_live w d' \<Longrightarrow> ev_live w' d' \<and> edatas w' d' = edatas w d'"
  using ev_live_bound [of w d']
  by (auto simp: ev_live_def extends_def world_inv_def memory_ok_def)


section \<open>The listener\<close>

text \<open>
  One round of the accept loop, the invariant of the registry being broken only between the
  registration with epoll and that in the registry.
\<close>

lemma null_client: "world_inv w \<Longrightarrow> clients w 0 = None"
proof (rule ccontr)
  assume "world_inv w" "clients w 0 \<noteq> None"
  then have "0 \<in> dom (clients w)" "dom (clients w) \<subseteq> {0<..<brk w}"
    by (auto simp: world_inv_def memory_ok_def)
  then show False by auto
qed

lemma accept_world:
  assumes "accept_connection w = (r, w')" and "world_inv w"
  shows "world_inv w' \<and> edatas w' = edatas w \<and> clients w' = clients w \<and> registry w' = registry w \<and>
    brk w' = brk w \<and> now w' = now w \<and> allocs w' = allocs w"
proof (cases "\<exists>s rest. accepts w = Some s # rest")
  case False
  then have "w' = w \<or> (\<exists>a. w' = w\<lparr>accepts := a\<rparr>)"
    using assms(1) by (auto simp: accept_connection_def split: list.splits option.splits prod.splits)
  then show ?thesis using assms(2) by (auto simp: world_inv_def opens_def)
next
  case True
  then obtain s rest where a: "accepts w = Some s # rest" by blast
  obtain fd w1 where o: "open_fd s (w\<lparr>accepts := rest\<rparr>) = (fd, w1)" by fastforce
  have w': "w' = w1" using assms(1) a o by (simp add: accept_connection_def)
  note so = sock_of_open [OF o]
  have "os.more w1 = os.more w" using so(5) by simp
  note m = os_more_world [OF this]
  have "opens w1 = insert fd (opens w)" using so(3) by (auto simp: opens_def)
  moreover have "interest w1 = interest w" using so(5) by simp
  ultimately have "world_inv w1"
    using memory_open [OF assms(2) [unfolded world_inv_def] so(1)] by (simp add: world_inv_def m)
  then show ?thesis using so(5) m by (simp add: w')
qed

lemma registry_new:
  assumes "reg_inv w" and w0: "clients w 0 = None" and "clients w p = None" and "p \<noteq> 0" and "state_registry_add p (registry w) = (Some i, t)"
    and "slot c = i"
  shows "reg_inv (w\<lparr>registry := t, clients := (clients w)(p \<mapsto> c)\<rparr>)"
proof -
  have l: "length (registry w) = MAX_CLIENTS" using assms(1) by (simp add: reg_inv_def)
  note a = reg.add_slot [OF l assms(5)]
  then have i: "i < MAX_CLIENTS" "registry w ! i = 0" "length t = MAX_CLIENTS" "t = (registry w)[i := p]"
    using assms(5) l by (auto simp: registry_get_def state_registry_add_def split: option.splits)
  have np: "registry w ! j \<noteq> p" if "j < MAX_CLIENTS" for j
    using reg_used [OF assms(1) that] assms(3,4) by fastforce
  have ni: "slot c' \<noteq> i" if "clients w q = Some c'" for q c'
    using reg_slot [OF assms(1) that] i(2) that w0 by auto
  let ?w = "w\<lparr>registry := t, clients := (clients w)(p \<mapsto> c)\<rparr>"
  have "\<exists>c'. clients ?w (registry ?w ! j) = Some c' \<and> slot c' = j"
    if "j < MAX_CLIENTS" "registry ?w ! j \<noteq> 0" for j
    using that reg_used [OF assms(1), of j] np [of j] assms(6) i l by (cases "j = i") auto
  moreover have "slot c' < MAX_CLIENTS" "registry ?w ! slot c' = q" if "clients ?w q = Some c'" for q c'
    using that reg_slot [OF assms(1), of q c'] ni [of q c'] assms(6) i l by (auto split: if_splits)
  ultimately show ?thesis using i(3) by (intro reg_invI) auto
qed

text \<open>A client as it is when it has been accepted.\<close>

definition arrived :: "client \<Rightarrow> bool" where
  "arrived c \<longleftrightarrow> target_fd c = - 1 \<and> phase c = READING_REQUEST \<and> host c = [] \<and> port c = 80"

lemma arrived_new [simp]: "arrived (new_client fd t)" "arrived ((new_client fd t)\<lparr>slot := i\<rparr>)"
  by (simp_all add: arrived_def new_client_def)

lemma listener_safe:
  assumes "loop_inv w"
  shows "\<exists>w'. handle_listener_event w = Inr w' \<and> loop_inv w' \<and>
    (\<forall>d. ev_live w d \<longrightarrow> ev_live w' d \<and> edatas w' d = edatas w d) \<and>
    (\<forall>q c. clients w' q = Some c \<longrightarrow> clients w q = Some c \<or> arrived c)"
  using assms
proof (induction w rule: handle_listener_event.induct)
  case (1 w)
  have inv: "world_inv w" "reg_inv w" using "1.prems" by (simp_all add: loop_inv_def)
  obtain r w1 where ac: "accept_connection w = (r, w1)" by fastforce
  note a = accept_world [OF ac inv(1)]
  have live1: "ev_live w1 d \<and> edatas w1 d = edatas w d" if "ev_live w d" for d
    using that a by (simp add: ev_live_def)
  show ?case
  proof (cases r)
    case None
    then show ?thesis using a inv live1
      by (subst handle_listener_event.simps) (auto simp: ac loop_inv_def reg_inv_def)
  next
    case (Some fd)
    obtain p w2 where rg: "epoll_register_client fd EPOLLIN w1 = Inr (p, w2)"
      and 2: "world_inv w2" "extends {} w1 w2" "registry w2 = registry w1"
        "p = 0 \<and> clients w2 = clients w1 \<or> p \<noteq> 0 \<and> clients w1 p = None \<and>
           clients w2 = (clients w1)(p \<mapsto> new_client fd (now w1))"
      using register_client_world [of w1 fd EPOLLIN] a by blast
    have live2: "ev_live w2 d \<and> edatas w2 d = edatas w d" if "ev_live w d" for d
      using extends_live [of w1 w2 d] a live1 [OF that] 2(2) by simp
    show ?thesis
    proof (cases "p = 0")
      case True
      then show ?thesis using Some a inv 2 live2
        by (subst handle_listener_event.simps) (auto simp: ac rg loop_inv_def reg_inv_def)
    next
      case p: False
      then have c2: "clients w1 p = None" "clients w2 = (clients w1)(p \<mapsto> new_client fd (now w1))" using 2(4) by auto
      obtain j t where ad: "state_registry_add p (registry w2) = (j, t)" by fastforce
      show ?thesis
      proof (cases j)
        case None
        then have t: "t = registry w2" using ad by (auto simp: state_registry_add_def split: option.splits)
        obtain w3 where f: "free_client_state p w2 = Inr w3" "world_inv w3" "clients w3 = (clients w2)(p := None)"
          "edatas w3 = edatas w2" "registry w3 = registry w2"
          using free_client_world [OF 2(1), of p "new_client fd (now w1)"] c2(2) by auto
        have cl: "clients w3 = clients w" using f(3) c2 a by auto
        have "loop_inv w3" using inv(2) f(2,5) 2(3) a cl by (simp add: loop_inv_def reg_inv_def)
        moreover have "ev_live w3 d \<and> edatas w3 d = edatas w d" if "ev_live w d" for d
          using live2 [OF that] that f(4) cl by (simp add: ev_live_def)
        ultimately show ?thesis using Some p None t f(1) cl
          by (subst handle_listener_event.simps) (simp add: ac rg ad)
      next
        case j: (Some i)
        let ?c = "(new_client fd (now w1))\<lparr>slot := i\<rparr>"
        let ?w3 = "put_client p ?c (w2\<lparr>registry := t\<rparr>)"
        have w20: "world_inv (w2\<lparr>registry := t\<rparr>)" using 2(1) by (simp add: world_inv_def opens_def)
        have "client_ok ?c" using new_client_ok [of fd "now w1"] by (simp add: client_ok_def bufs_ok_def)
        then have inv3: "world_inv ?w3"
          using put_client_inv [OF w20, of p "new_client fd (now w1)" ?c] c2(2) by simp
        have "clients w1 0 = None" using a null_client by blast
        then have "reg_inv (w1\<lparr>registry := t, clients := (clients w1)(p \<mapsto> ?c)\<rparr>)"
          using registry_new [of w1 p i t ?c] inv(2) a c2 p ad j 2(3) by (simp add: reg_inv_def)
        then have loop3: "loop_inv ?w3" using inv3 c2(2) by (simp add: loop_inv_def reg_inv_def)
        have live3: "ev_live ?w3 d \<and> edatas ?w3 d = edatas w d" if "ev_live w d" for d
          using live2 [OF that] ev_live_mono [of w2 d ?w3] by simp
        have "deref (clients w2) p = Inr (new_client fd (now w1))" using c2(2) p by (simp add: deref_def)
        then have e: "handle_listener_event w = handle_listener_event ?w3"
          using Some p j by (subst handle_listener_event.simps) (simp add: ac rg ad)
        obtain w' where w': "handle_listener_event ?w3 = Inr w'" "loop_inv w'"
          "\<forall>d. ev_live ?w3 d \<longrightarrow> ev_live w' d \<and> edatas w' d = edatas ?w3 d"
          "\<forall>q c. clients w' q = Some c \<longrightarrow> clients ?w3 q = Some c \<or> arrived c"
          using "1.IH" [OF ac [symmetric] Some rg refl p ad [symmetric] j loop3] by blast
        have "\<forall>d. ev_live w d \<longrightarrow> ev_live w' d \<and> edatas w' d = edatas w d" using live3 w'(3) by auto
        moreover have "clients ?w3 q = Some c \<Longrightarrow> clients w q = Some c \<or> arrived c" for q c
          using c2 a by (auto split: if_splits)
        then have "\<forall>q c. clients w' q = Some c \<longrightarrow> clients w q = Some c \<or> arrived c" using w'(4) by blast
        ultimately show ?thesis unfolding e using w'(1,2) by blast
      qed
    qed
  qed
qed

end
