(* ===== verification/Timer.thy ===== *)
theory Timer
  imports EventLoop
begin

text \<open>
  The timer of \<open>src/main/loop_handlers.c\<close>: what one expiration of the timer does to every
  client, and what it leaves undone.
\<close>

section \<open>One tick\<close>

text \<open>What one tick at time \<open>t\<close> makes of a client.\<close>

definition tick_client :: "int \<Rightarrow> client \<Rightarrow> client option" where
  "tick_client t c =
     (if expired c then None
      else if t - last_active c < 10 then Some c else Some (c\<lparr>expired := True\<rparr>))"

text \<open>
  No client with a slot in \<open>I\<close> is to be freed or taken off the epoll instance by a tick: a client
  that has no target yet stays registered even when it is marked.
\<close>

definition keeps_watch :: "nat set \<Rightarrow> 's world \<Rightarrow> bool" where
  "keeps_watch I w \<longleftrightarrow> (\<forall>p c. clients w p = Some c \<longrightarrow> slot c \<in> I \<longrightarrow>
     \<not> expired c \<and> (now w - last_active c < 10 \<or> client_fd c = - 1 \<or> target_fd c = - 1))"

text \<open>
  \<open>ticked I w w'\<close>: from \<open>w\<close> to \<open>w'\<close> exactly the clients with a slot in \<open>I\<close> have been ticked,
  nothing was opened, and the descriptors of those that had expired are closed.
\<close>

definition ticked :: "nat set \<Rightarrow> 's world \<Rightarrow> 's world \<Rightarrow> bool" where
  "ticked I w w' \<longleftrightarrow> loop_inv w' \<and> now w' = now w \<and> edatas w' = edatas w \<and>
     (timer_reads w = [] \<longrightarrow> timer_reads w' = []) \<and> (keeps_watch I w \<longrightarrow> interest w' = interest w) \<and>
     opens w' \<subseteq> opens w \<and>
     (\<forall>p. clients w' p = (case clients w p of None \<Rightarrow> None
        | Some c \<Rightarrow> if slot c \<in> I then tick_client (now w) c else Some c)) \<and>
     (\<forall>p c. clients w p = Some c \<longrightarrow> slot c \<in> I \<longrightarrow> expired c \<longrightarrow>
        client_fd c \<notin> opens w' \<and> target_fd c \<notin> opens w')"

lemma tickedI:
  assumes "loop_inv w'" and "now w' = now w" and "edatas w' = edatas w" and "timer_reads w = [] \<Longrightarrow> timer_reads w' = []"
    and "keeps_watch I w \<Longrightarrow> interest w' = interest w"
    and "opens w' \<subseteq> opens w"
    and "\<And>p. clients w p = None \<Longrightarrow> clients w' p = None"
    and "\<And>p c. clients w p = Some c \<Longrightarrow> clients w' p = (if slot c \<in> I then tick_client (now w) c else Some c)"
    and "\<And>p c. clients w p = Some c \<Longrightarrow> slot c \<in> I \<Longrightarrow> expired c \<Longrightarrow> client_fd c \<notin> opens w' \<and> target_fd c \<notin> opens w'"
  shows "ticked I w w'"
  using assms by (auto simp: ticked_def split: option.split)

lemma tickedD:
  assumes "ticked I w w'"
  shows "loop_inv w'" "now w' = now w" "edatas w' = edatas w" "timer_reads w = [] \<Longrightarrow> timer_reads w' = []"
    "keeps_watch I w \<Longrightarrow> interest w' = interest w" "opens w' \<subseteq> opens w"
    "clients w p = None \<Longrightarrow> clients w' p = None"
    "clients w p = Some c \<Longrightarrow> clients w' p = (if slot c \<in> I then tick_client (now w) c else Some c)"
    "clients w p = Some c \<Longrightarrow> slot c \<in> I \<Longrightarrow> expired c \<Longrightarrow> client_fd c \<notin> opens w' \<and> target_fd c \<notin> opens w'"
  using assms by (auto simp: ticked_def)

text \<open>A step that ticks one client, followed by one that ticks the clients in other slots.\<close>

lemma ticked_trans:
  assumes 1: "ticked {i} w w1" and 2: "ticked J w1 w2" and ij: "i \<notin> J"
  shows "ticked (insert i J) w w2"
proof (rule tickedI)
  show "loop_inv w2" "now w2 = now w" "edatas w2 = edatas w" "opens w2 \<subseteq> opens w"
    using tickedD(1-3,6) [OF 1] tickedD(1-3,6) [OF 2] by auto
  show "timer_reads w2 = []" if "timer_reads w = []" using tickedD(4) [OF 2 tickedD(4) [OF 1 that]] .
  show "clients w2 p = None" if "clients w p = None" for p
    using tickedD(7) [OF 1 that] tickedD(7) [OF 2] by simp
  have self: "slot c' = slot c" if "tick_client t c = Some c'" for t c c'
    using that by (auto simp: tick_client_def split: if_splits)
  show "interest w2 = interest w" if kw: "keeps_watch (insert i J) w"
  proof -
    have "keeps_watch {i} w" using kw by (simp add: keeps_watch_def)
    then have "interest w1 = interest w" using tickedD(5) [OF 1] by simp
    moreover have "keeps_watch J w1"
      unfolding keeps_watch_def
    proof (intro allI impI)
      fix q c' assume q: "clients w1 q = Some c'" "slot c' \<in> J"
      obtain c where c: "clients w q = Some c" using tickedD(7) [OF 1, of q] q(1) by (cases "clients w q") auto
      have "slot c' = slot c" using tickedD(8) [OF 1 c] q(1) self by (auto split: if_splits)
      then have "slot c \<noteq> i" "slot c \<in> J" using q(2) ij by auto
      then have "c' = c" using tickedD(8) [OF 1 c] q(1) by simp
      then show "\<not> expired c' \<and> (now w1 - last_active c' < 10 \<or> client_fd c' = - 1 \<or> target_fd c' = - 1)"
        using kw c \<open>slot c \<in> J\<close> tickedD(2) [OF 1] by (simp add: keeps_watch_def)
    qed
    ultimately show ?thesis using tickedD(5) [OF 2] by simp
  qed
  fix p c assume c: "clients w p = Some c"
  note c1 = tickedD(8) [OF 1 c]
  show "clients w2 p = (if slot c \<in> insert i J then tick_client (now w) c else Some c)"
  proof (cases "clients w1 p")
    case None
    then show ?thesis using c1 tickedD(7) [OF 2 None] by (simp split: if_splits)
  next
    case (Some c')
    have "now w1 = now w" using tickedD(2) [OF 1] .
    moreover have "slot c' = slot c" using c1 Some self [of "now w" c c'] by (simp split: if_splits)
    ultimately show ?thesis using c1 Some tickedD(8) [OF 2 Some] ij by (simp split: if_splits)
  qed
  show "client_fd c \<notin> opens w2 \<and> target_fd c \<notin> opens w2" if "slot c \<in> insert i J" "expired c"
  proof (cases "slot c = i")
    case True
    then show ?thesis using tickedD(9) [OF 1 c] that(2) tickedD(6) [OF 2] by auto
  next
    case False
    then have "clients w1 p = Some c" "slot c \<in> J" using c1 that(1) by simp_all
    then show ?thesis using tickedD(9) [OF 2] that(2) by blast
  qed
qed

lemma registry_gone:
  assumes "reg_inv w" and "clients w p = Some c"
  shows "reg_inv (w\<lparr>registry := (registry w)[slot c := 0], clients := (clients w)(p := None)\<rparr>)"
proof (rule reg_invI)
  let ?w = "w\<lparr>registry := (registry w)[slot c := 0], clients := (clients w)(p := None)\<rparr>"
  have l: "length (registry w) = MAX_CLIENTS" and c: "slot c < MAX_CLIENTS" "registry w ! slot c = p"
    using reg_length [OF assms(1)] reg_slot [OF assms] by simp_all
  show "length (registry ?w) = MAX_CLIENTS" using l by simp
  show "\<exists>c'. clients ?w (registry ?w ! i) = Some c' \<and> slot c' = i"
    if i0: "i < MAX_CLIENTS" "registry ?w ! i \<noteq> 0" for i
  proof -
    have i: "i \<noteq> slot c" "registry w ! i \<noteq> 0" using i0 l c by (auto simp: nth_list_update split: if_splits)
    then obtain c' where c': "clients w (registry w ! i) = Some c'" "slot c' = i"
      using reg_used [OF assms(1) i0(1)] by blast
    then have "registry w ! i \<noteq> p" using assms(2) i by auto
    then show ?thesis using c' i by simp
  qed
  show "slot c' < MAX_CLIENTS" "registry ?w ! slot c' = q" if "clients ?w q = Some c'" for q c'
  proof -
    have q: "clients w q = Some c'" "q \<noteq> p" using that by (auto split: if_splits)
    then have "slot c' \<noteq> slot c" using reg_slot [OF assms(1) q(1)] c by auto
    then show "slot c' < MAX_CLIENTS" "registry ?w ! slot c' = q" using reg_slot [OF assms(1) q(1)] by simp_all
  qed
qed

lemma del_world:
  assumes "world_inv w"
  shows "world_inv (snd (epoll_del_fd fd w)) \<and> stays d p w (snd (epoll_del_fd fd w)) \<and>
    clients (snd (epoll_del_fd fd w)) = clients w \<and> opens (snd (epoll_del_fd fd w)) = opens w \<and>
    edatas (snd (epoll_del_fd fd w)) = edatas w \<and> timer_reads (snd (epoll_del_fd fd w)) = timer_reads w \<and> now (snd (epoll_del_fd fd w)) = now w"
proof -
  obtain ok w1 where e: "epoll_del_fd fd w = (ok, w1)" by fastforce
  note del = epoll_del_cases [OF e]
  then have "os.more w1 = os.more w" by simp
  note m = os_more_world [OF this]
  have o: "opens w1 = opens w" using del by (simp add: opens_def)
  have t: "timer_reads w1 = timer_reads w"
    using e by (auto simp: epoll_del_fd_def ctl_ok_def split: list.splits if_splits)
  show ?thesis using del assms memory_unwatch by (auto simp: e world_inv_def m o t stays_def)
qed

lemma free_client_edatas:
  assumes "free_client_state p w = Inr w'"
  shows "edatas w' = edatas w \<and> timer_reads w' = timer_reads w"
proof -
  have del: "edatas (snd (epoll_del_fd fd st)) = edatas st" "timer_reads (snd (epoll_del_fd fd st)) = timer_reads st"
    for fd and st :: "'a world"
    by (auto simp: epoll_del_fd_def ctl_ok_def split: list.split)
  have cls: "edatas (close_fd fd st) = edatas st" "timer_reads (close_fd fd st) = timer_reads st" for fd and st :: "'a world"
    by (simp_all add: close_fd_def)
  show ?thesis
  proof (cases "deref (clients w) p")
    case (Inr c)
    then show ?thesis using assms by (cases "p = 0") (auto simp: free_client_state_def Let_def del cls)
  qed (use assms in \<open>auto simp: free_client_state_def split: if_splits\<close>)
qed

lemma put_client_timer [simp]:
  "timer_reads (put_client p c w) = timer_reads w" "interest (put_client p c w) = interest w"
  by (simp_all add: put_client_def)

lemma timeout_step:
  assumes inv: "loop_inv w" and c: "clients w p = Some c"
  shows "\<exists>w'. timeout_callback p w = Inr w' \<and> loop_inv w' \<and> now w' = now w \<and>
    clients w' = (clients w)(p := tick_client (now w) c) \<and> edatas w' = edatas w \<and> timer_reads w' = timer_reads w \<and>
    (\<not> expired c \<and> (now w - last_active c < 10 \<or> client_fd c = - 1 \<or> target_fd c = - 1) \<longrightarrow>
      interest w' = interest w) \<and>
    opens w' \<subseteq> opens w \<and> (expired c \<longrightarrow> client_fd c \<notin> opens w' \<and> target_fd c \<notin> opens w')"
proof -
  have w: "world_inv w" "reg_inv w" using inv by (simp_all add: loop_inv_def)
  have p: "p \<noteq> 0" using null_client [OF w(1)] c by (metis option.distinct(1))
  have d: "deref (clients w) p = Inr c" using p c by (simp add: deref_def)
  consider "\<not> expired c" "now w - last_active c < 10" | "expired c"
    | "\<not> expired c" "\<not> now w - last_active c < 10" by blast
  then show ?thesis
  proof cases
    case 1
    then show ?thesis using inv c by (auto simp: timeout_callback_def d tick_client_def fun_upd_idem)
  next
    case 2
    let ?w = "w\<lparr>registry := (registry w)[slot c := 0]\<rparr>"
    have iw: "world_inv ?w" using w(1) by (simp add: world_inv_def opens_def)
    obtain w' where f: "free_client_state p ?w = Inr w'" "world_inv w'" "clients w' = (clients ?w)(p := None)"
      "registry w' = registry ?w" "extends {p} ?w w'"
      "sock_of w' = (sock_of ?w)(client_fd c := None, target_fd c := None)"
      using free_client_world [OF iw, of p c] c by auto
    have "reg_inv w'" using registry_gone [OF w(2) c] f(3,4) by (simp add: reg_inv_def)
    moreover have "state_registry_remove (slot c) (registry w) = Inr ((registry w)[slot c := 0])"
      using reg_slot [OF w(2) c] reg_length [OF w(2)] by (simp add: state_registry_remove_def)
    moreover have "opens w' \<subseteq> opens w" "client_fd c \<notin> opens w'" "target_fd c \<notin> opens w'"
      using f(6) by (auto simp: opens_def)
    moreover have "edatas w' = edatas w" "timer_reads w' = timer_reads w" using free_client_edatas [OF f(1)] by simp_all
    ultimately show ?thesis using 2 f(1-3,5)
      by (auto simp: timeout_callback_def d tick_client_def loop_inv_def extends_def)
  next
    case 3
    let ?w = "if client_fd c \<noteq> - 1 \<and> target_fd c \<noteq> - 1
      then snd (epoll_del_fd (target_fd c) (snd (epoll_del_fd (client_fd c) w))) else w"
    note d1 = del_world [OF w(1), of "client_fd c" 0 p]
    note d2 = del_world [of "snd (epoll_del_fd (client_fd c) w)" "target_fd c" 0 p]
    have iw: "world_inv ?w" "stays 0 p w ?w" "clients ?w = clients w" "edatas ?w = edatas w" "opens ?w = opens w" "now ?w = now w" "timer_reads ?w = timer_reads w"
      using d1 d2 w(1) stays_trans [of 0 p w "snd (epoll_del_fd (client_fd c) w)"] by auto
    have "client_ok (c\<lparr>expired := True\<rparr>)"
      using world_client_ok [OF w(1) c] by (simp add: client_ok_def bufs_ok_def)
    then have put: "world_inv (put_client p (c\<lparr>expired := True\<rparr>) ?w)"
      "stays 0 p w (put_client p (c\<lparr>expired := True\<rparr>) ?w)"
      using put_safe [OF iw(1,2), of c "c\<lparr>expired := True\<rparr>"] iw(3) c by auto
    have "loop_inv (put_client p (c\<lparr>expired := True\<rparr>) ?w)"
      using put(1) stays_reg_inv [OF put(2) w(2)] by (simp add: loop_inv_def)
    then show ?thesis using 3 iw by (simp add: timeout_callback_def d tick_client_def Let_def)
  qed
qed

lemma ticked_one:
  assumes inv: "loop_inv w" and c: "clients w p = Some c"
  shows "\<exists>w'. timeout_callback p w = Inr w' \<and> ticked {slot c} w w'"
proof -
  obtain w' where w': "timeout_callback p w = Inr w'" "loop_inv w'" "now w' = now w"
    "clients w' = (clients w)(p := tick_client (now w) c)" "edatas w' = edatas w" "timer_reads w' = timer_reads w"
    "\<not> expired c \<and> (now w - last_active c < 10 \<or> client_fd c = - 1 \<or> target_fd c = - 1) \<longrightarrow>
      interest w' = interest w"
    "opens w' \<subseteq> opens w" "expired c \<longrightarrow> client_fd c \<notin> opens w' \<and> target_fd c \<notin> opens w'"
    using timeout_step [OF assms] by blast
  have other: "q = p" if "clients w q = Some c'" "slot c' = slot c" for q c'
    using reg_slot [of w q c'] reg_slot [of w p c] that inv c by (auto simp: loop_inv_def)
  have "ticked {slot c} w w'"
  proof (rule tickedI [OF w'(2,3,5) _ _ w'(8)])
    show "timer_reads w' = []" if "timer_reads w = []" using that w'(6) by simp
    show "interest w' = interest w" if "keeps_watch {slot c} w"
      using that w'(7) c unfolding keeps_watch_def by blast
    show "clients w' q = None" if "clients w q = None" for q using that w'(4) c by auto
    show "clients w' q = (if slot c' \<in> {slot c} then tick_client (now w) c' else Some c')"
      if "clients w q = Some c'" for q c'
      using that w'(4) c other [OF that] by (cases "q = p") auto
    show "client_fd c' \<notin> opens w' \<and> target_fd c' \<notin> opens w'"
      if "clients w q = Some c'" "slot c' \<in> {slot c}" "expired c'" for q c'
      using that w'(9) c other [OF that(1)] by auto
  qed
  then show ?thesis using w'(1) by blast
qed

lemma ticked_none: "loop_inv w \<Longrightarrow> (\<And>p c. clients w p = Some c \<Longrightarrow> slot c \<notin> I) \<Longrightarrow> ticked I w w"
  by (rule tickedI) auto

lemma for_each_tick:
  assumes "loop_inv w" and "distinct is" and "set is \<subseteq> {..<MAX_CLIENTS}"
  shows "\<exists>w'. for_each_slot registry timeout_callback is w = Inr w' \<and> ticked (set is) w w'"
  using assms
proof (induction "is" arbitrary: w)
  case Nil
  then show ?case using ticked_none [of w "{}"] by simp
next
  case (Cons i js)
  have w: "world_inv w" "reg_inv w" using Cons.prems(1) by (simp_all add: loop_inv_def)
  have i: "i < MAX_CLIENTS" "i \<notin> set js" using Cons.prems by auto
  have "\<exists>w1. ticked {i} w w1 \<and> for_each_slot registry timeout_callback (i # js) w =
    for_each_slot registry timeout_callback js w1"
  proof (cases "registry w ! i = 0")
    case True
    have "slot c \<noteq> i" if "clients w p = Some c" for p c
      using reg_slot [OF w(2) that] True null_client [OF w(1)] that by auto
    then show ?thesis using ticked_none [OF Cons.prems(1), of "{i}"] True by auto
  next
    case False
    then obtain c where c: "clients w (registry w ! i) = Some c" "slot c = i"
      using reg_used [OF w(2) i(1)] by blast
    then show ?thesis using ticked_one [OF Cons.prems(1) c(1)] False by auto
  qed
  then obtain w1 where 1: "ticked {i} w w1" "for_each_slot registry timeout_callback (i # js) w =
    for_each_slot registry timeout_callback js w1" by blast
  obtain w' where "for_each_slot registry timeout_callback js w1 = Inr w'" "ticked (set js) w1 w'"
    using Cons.IH [OF tickedD(1) [OF 1(1)]] Cons.prems(2,3) by auto
  then show ?case using 1 ticked_trans [OF 1(1) _ i(2)] by auto
qed

lemma timer_safe:
  assumes "loop_inv w" and "fst (timer_read w)"
  shows "\<exists>w'. handle_timer_event w = Inr w' \<and> ticked UNIV w w'"
proof -
  obtain w1 where t: "timer_read w = (True, w1)" using assms(2) by (metis eq_fst_iff)
  note q = quiet_world [OF timer_read_quiet [OF t]]
  have cl: "clients w1 = clients w" and op: "opens w1 = opens w" and ed: "edatas w1 = edatas w"
    using q(1,2,6) by blast+
  have kw: "keeps_watch I w1 = keeps_watch I w" for I using timer_read_quiet [OF t] cl by (simp add: keeps_watch_def quiet_def)
  have it: "interest w1 = interest w" using q(5) .
  have tr: "timer_reads w1 = []" if "timer_reads w = []" using t that by (simp add: timer_read_def)
  have n: "now w1 = now w" using timer_read_quiet [OF t] by (simp add: quiet_def)
  have "reg_inv w1" using stays_reg_inv [OF q(7)] assms(1) by (simp add: loop_inv_def)
  then have l: "loop_inv w1" using q(8) assms(1) by (simp add: loop_inv_def)
  obtain w' where w': "for_each_slot registry timeout_callback [0..<MAX_CLIENTS] w1 = Inr w'"
    "ticked (set [0..<MAX_CLIENTS]) w1 w'"
    using for_each_tick [OF l distinct_upt, of 0 MAX_CLIENTS] by fastforce
  have s: "slot c \<in> set [0..<MAX_CLIENTS]" if "clients w p = Some c" for p c
    using reg_slot that assms(1) by (auto simp: loop_inv_def)
  have kw_all: "keeps_watch (set [0..<MAX_CLIENTS]) w1" if "keeps_watch UNIV w"
  proof -
    have "keeps_watch UNIV w1" using that kw by blast
    then show ?thesis by (simp add: keeps_watch_def)
  qed
  have "ticked UNIV w w'"
    using tickedD [OF w'(2)] s cl op ed n tr it kw_all by (intro tickedI) auto
  moreover have "handle_timer_event w = Inr w'"
    using w'(1) by (simp add: handle_timer_event_def t state_registry_for_each_def)
  ultimately show ?thesis by blast
qed

section \<open>A proxy with one client\<close>

text \<open>
  The listener (descriptor 3), the timer (5) and one client (6) that was accepted at time 0 and
  has sent nothing; descriptor 4 is the epoll instance.
\<close>

definition idle_world :: "unit world" where
  "idle_world =
     \<lparr>allocs = [], auth_cache = None, db_conn = (), now = 0,
      fds = replicate 7 (Some plain_sock), interest = [3 \<mapsto> (EPOLLIN, 1), 5 \<mapsto> (EPOLLIN, 2), 6 \<mapsto> (EPOLLIN, 4)],
      ctl_fails = [], accepts = [], sockets = [], connects = [], so_errors = [], dns = (\<lambda>_. None),
      sys_fails = [], timer_reads = [], listening = None,
      edatas = [1 \<mapsto> \<lparr>client_ptr = 0, fd_type = EPOLL_FD_LISTENER\<rparr>,
        2 \<mapsto> \<lparr>client_ptr = 0, fd_type = EPOLL_FD_TIMER\<rparr>,
        4 \<mapsto> \<lparr>client_ptr = 3, fd_type = EPOLL_FD_CLIENT\<rparr>],
      clients = [3 \<mapsto> new_client 6 0], brk = 5, registry = 3 # replicate 1023 0\<rparr>"

lemma idle_world_simps [simp]:
  "allocs idle_world = []" "now idle_world = 0" "timer_reads idle_world = []"
  "clients idle_world = [3 \<mapsto> new_client 6 0]" "registry idle_world = 3 # replicate 1023 0"
  "edatas idle_world = [1 \<mapsto> \<lparr>client_ptr = 0, fd_type = EPOLL_FD_LISTENER\<rparr>,
    2 \<mapsto> \<lparr>client_ptr = 0, fd_type = EPOLL_FD_TIMER\<rparr>, 4 \<mapsto> \<lparr>client_ptr = 3, fd_type = EPOLL_FD_CLIENT\<rparr>]"
  "interest idle_world = [3 \<mapsto> (EPOLLIN, 1), 5 \<mapsto> (EPOLLIN, 2), 6 \<mapsto> (EPOLLIN, 4)]" "brk idle_world = 5"
  by (simp_all add: idle_world_def)

lemma idle_world_opens [simp]: "opens idle_world = {0..<7}"
  by (auto simp: opens_def sock_of_def idle_world_def nth_replicate)

text \<open>Time does not matter to the invariant.\<close>

lemma opens_now [simp]: "sock_of (w\<lparr>now := t\<rparr>) fd = sock_of w fd" "opens (w\<lparr>now := t\<rparr>) = opens w"
  by (simp_all add: opens_def sock_of_def)

lemma loop_inv_now [simp]: "loop_inv (w\<lparr>now := t\<rparr>) = loop_inv w"
  by (simp add: loop_inv_def reg_inv_def world_inv_def opens_def sock_of_def)

lemma idle_world_inv: "loop_inv idle_world"
proof -
  have "client_ok (new_client 6 0)" by (rule new_client_ok)
  then have "world_inv idle_world"
    by (auto simp: world_inv_def memory_ok_def data_ok_def fd_of_def is_conn_def new_client_def split: if_splits)
  moreover have "reg_inv idle_world"
    by (rule reg_invI) (auto simp: MAX_CLIENTS_def new_client_def nth_Cons split: nat.splits if_splits)
  ultimately show ?thesis by (simp add: loop_inv_def)
qed

section \<open>What the timer does\<close>

text \<open>
  C23: one expiration of the timer visits every client exactly once, without undefined
  behaviour: a client active within the last ten seconds is left as it is, one idle for longer
  is marked, and one that was marked before is closed and freed with both its descriptors; the
  invariant of the loop is kept.
\<close>

theorem timer_tick:
  assumes "loop_inv w" and "fst (timer_read w)"
  shows "\<exists>w'. handle_timer_event w = Inr w' \<and> loop_inv w' \<and>
    (\<forall>p. clients w' p = (case clients w p of
        None \<Rightarrow> None
      | Some c \<Rightarrow>
          if expired c then None
          else if now w - last_active c < 10 then Some c
          else Some (c\<lparr>expired := True\<rparr>))) \<and>
    (\<forall>p c. clients w p = Some c \<longrightarrow> expired c \<longrightarrow>
      sock_of w' (client_fd c) = None \<and> sock_of w' (target_fd c) = None)"
proof -
  obtain w' where w': "handle_timer_event w = Inr w'" "ticked UNIV w w'"
    using timer_safe [OF assms] by blast
  show ?thesis
    using w' by (intro exI [of _ w']) (auto simp: ticked_def tick_client_def opens_def split: option.split)
qed

theorem timer_tick_witness:
  "\<exists>w'. handle_timer_event (idle_world\<lparr>now := 10\<rparr>) = Inr w' \<and>
     clients w' 3 = Some ((new_client 6 0)\<lparr>expired := True\<rparr>)"
  using timer_tick [of "idle_world\<lparr>now := 10\<rparr>"] idle_world_inv
  by (auto simp: timer_read_def new_client_def)

text \<open>
  C24: no client stays for ever: one that has been idle for ten seconds when the timer expires is
  gone, with its descriptors closed, after the next expiration.
\<close>

theorem idle_client_freed:
  assumes "loop_inv w" and "clients w p = Some c" and "last_active c + 10 \<le> t1"
    and "fst (timer_read w)" and "handle_timer_event (w\<lparr>now := t1\<rparr>) = Inr w1"
    and "fst (timer_read w1)" and "handle_timer_event (w1\<lparr>now := t2\<rparr>) = Inr w2"
  shows "clients w2 p = None \<and> sock_of w2 (client_fd c) = None \<and> sock_of w2 (target_fd c) = None"
proof -
  have rd: "fst (timer_read (w\<lparr>now := t\<rparr>)) = fst (timer_read w)" for w :: "'a world" and t
    by (simp add: timer_read_def split: list.split)
  have k1: "ticked UNIV (w\<lparr>now := t1\<rparr>) w1"
    using timer_safe [of "w\<lparr>now := t1\<rparr>"] assms(1,4,5) rd by auto
  then have l1: "loop_inv w1" by (rule tickedD(1))
  have k2: "ticked UNIV (w1\<lparr>now := t2\<rparr>) w2"
    using timer_safe [of "w1\<lparr>now := t2\<rparr>"] l1 assms(6,7) rd by auto
  have c: "clients (w\<lparr>now := t1\<rparr>) p = Some c" using assms(2) by simp
  show ?thesis
  proof (cases "expired c")
    case True
    then have "clients (w1\<lparr>now := t2\<rparr>) p = None" using tickedD(8) [OF k1 c] by (simp add: tick_client_def)
    moreover have "opens w2 \<subseteq> opens w1" using tickedD(6) [OF k2] by simp
    ultimately show ?thesis using tickedD(7) [OF k2] tickedD(9) [OF k1 c] True by (auto simp: opens_def)
  next
    case False
    then have "clients (w1\<lparr>now := t2\<rparr>) p = Some (c\<lparr>expired := True\<rparr>)"
      using tickedD(8) [OF k1 c] assms(3) by (simp add: tick_client_def)
    from tickedD(8,9) [OF k2 this] show ?thesis by (simp add: tick_client_def opens_def)
  qed
qed

theorem idle_client_freed_witness:
  "\<exists>w1 w2. handle_timer_event (idle_world\<lparr>now := 12\<rparr>) = Inr w1 \<and>
     handle_timer_event (w1\<lparr>now := 15\<rparr>) = Inr w2 \<and> clients w2 3 = None \<and> sock_of w2 6 = None"
proof -
  have r: "timer_read idle_world = (True, idle_world)" "timer_read (idle_world\<lparr>now := 12\<rparr>) = (True, idle_world\<lparr>now := 12\<rparr>)"
    by (simp_all add: timer_read_def)
  obtain w1 where 1: "handle_timer_event (idle_world\<lparr>now := 12\<rparr>) = Inr w1" "ticked UNIV (idle_world\<lparr>now := 12\<rparr>) w1"
    using timer_safe [of "idle_world\<lparr>now := 12\<rparr>"] idle_world_inv r by auto
  have t: "timer_reads w1 = []" using tickedD(4) [OF 1(2)] by simp
  then have r1: "fst (timer_read w1)" "fst (timer_read (w1\<lparr>now := 15\<rparr>))" by (simp_all add: timer_read_def)
  obtain w2 where 2: "handle_timer_event (w1\<lparr>now := 15\<rparr>) = Inr w2"
    using timer_safe [of "w1\<lparr>now := 15\<rparr>"] tickedD(1) [OF 1(2)] r1 by auto
  show ?thesis
    using idle_client_freed [OF idle_world_inv _ _ _ 1(1) r1(1) 2, of 3 "new_client 6 0"] 1(1) 2 r
    by (auto simp: new_client_def)
qed

end
