(* ===== verification/Batch.thy ===== *)
theory Batch
  imports Timer
begin

text \<open>
  Batches of events: an interface for loops that handle events which name shared objects, its
  instance for the proxy, and the memory safety of \<open>run_loop\<close>, with the order of events it
  depends on.
\<close>

section \<open>Batches in general\<close>

locale batch =
  fixes step :: "'e \<Rightarrow> 'w \<Rightarrow> 'w result"
    and inv :: "'w \<Rightarrow> bool"
    and live :: "'w \<Rightarrow> 'e \<Rightarrow> bool"
    and key :: "'e \<Rightarrow> 'k"
    and kills :: "'w \<Rightarrow> 'e \<Rightarrow> bool"
    and bad :: "ub set"
  assumes step_bad: "inv w \<Longrightarrow> live w e \<Longrightarrow> step e w = Inl u \<Longrightarrow> u \<in> bad"
    and step_inv: "inv w \<Longrightarrow> live w e \<Longrightarrow> step e w = Inr w' \<Longrightarrow> inv w'"
    and step_live: "inv w \<Longrightarrow> live w e \<Longrightarrow> step e w = Inr w' \<Longrightarrow> \<not> kills w e \<Longrightarrow>
      live w e' \<Longrightarrow> key e' \<noteq> key e \<Longrightarrow> live w' e' \<and> kills w' e' = kills w e'"
begin

lemma run:
  assumes "inv w" and "\<forall>e \<in> set es. live w e" and "distinct (map key es)"
    and "\<forall>e \<in> set (butlast es). \<not> kills w e"
  shows "case run_events step es w of Inl u \<Rightarrow> u \<in> bad | Inr w' \<Rightarrow> inv w'"
  using assms
proof (induction es arbitrary: w)
  case Nil
  then show ?case by simp
next
  case (Cons e es)
  have le: "inv w" "live w e" using Cons.prems(1,2) by simp_all
  show ?case
  proof (cases "step e w")
    case (Inl u)
    then show ?thesis using step_bad [OF le Inl] by simp
  next
    case (Inr w1)
    have i1: "inv w1" using step_inv [OF le Inr] .
    show ?thesis
    proof (cases "es = []")
      case True
      then show ?thesis using Inr i1 by simp
    next
      case False
      then have nk: "\<not> kills w e" and nk': "\<forall>e' \<in> set (butlast es). \<not> kills w e'" using Cons.prems(4) by simp_all
      have st: "live w1 e' \<and> kills w1 e' = kills w e'" if "e' \<in> set es" for e'
      proof -
        have "key e' \<noteq> key e" using Cons.prems(3) that by (metis distinct.simps(2) image_eqI list.set_map list.simps(9))
        then show ?thesis using step_live [OF le Inr nk, of e'] Cons.prems(2) that by simp
      qed
      have "case run_events step es w1 of Inl u \<Rightarrow> u \<in> bad | Inr w' \<Rightarrow> inv w'"
        using Cons.prems(3) st nk' by (intro Cons.IH i1) (auto dest: in_set_butlastD)
      then show ?thesis using Inr by simp
    qed
  qed
qed

end

section \<open>The events of the proxy\<close>

definition is_timer :: "'s world \<Rightarrow> nat \<Rightarrow> bool" where
  "is_timer w d \<longleftrightarrow> map_option fd_type (edatas w d) = Some EPOLL_FD_TIMER"

lemma handle_event_dispatch:
  assumes "d \<noteq> 0" and "edatas w d = Some e"
  shows "handle_event my (d, ev) w =
    (if fd_type e = EPOLL_FD_LISTENER \<and> client_ptr e = 0 then handle_listener_event w
     else if fd_type e = EPOLL_FD_TIMER then handle_timer_event w
     else if is_conn (fd_type e) then handle_client my d ev w else Inr w)"
  using assms by (simp add: handle_event_def deref_def handle_client_event_def is_conn_def)

lemma timer_any:
  assumes "loop_inv w"
  shows "\<exists>w'. handle_timer_event w = Inr w' \<and> loop_inv w'"
proof (cases "fst (timer_read w)")
  case True
  then show ?thesis using timer_safe [OF assms] tickedD(1) by blast
next
  case False
  then obtain w1 where t: "timer_read w = (False, w1)" by (metis prod.collapse)
  note q = quiet_world [OF timer_read_quiet [OF t]]
  have "loop_inv w1" using q(8) stays_reg_inv [OF q(7)] assms by (simp add: loop_inv_def)
  then show ?thesis using t by (simp add: handle_timer_event_def)
qed

lemma client_event:
  assumes inv: "loop_inv w" and d: "d \<noteq> 0" "edatas w d = Some e" "is_conn (fd_type e)"
    and live: "ev_live w d"
  shows "case handle_client my d ev w of
    Inl u \<Rightarrow> u \<in> {HeapOverflow, OutOfBounds, Killed, Exited}
  | Inr w' \<Rightarrow> loop_inv w' \<and> (\<forall>d'. ev_live w d' \<longrightarrow> d' \<noteq> d \<longrightarrow> ev_live w' d' \<and> edatas w' d' = edatas w d')"
proof -
  have w: "world_inv w" "reg_inv w" using inv by (simp_all add: loop_inv_def)
  obtain c where c: "clients w (client_ptr e) = Some c" using live d by (auto simp: ev_live_def)
  have s: "safe d (client_ptr e) w (handle_client my d ev w)" by (rule handle_client_safe [OF w(1) d(2,3) c d(1)])
  show ?thesis
  proof (cases "handle_client my d ev w")
    case (Inr w')
    then have "world_inv w'" "stays d (client_ptr e) w w'" using s by simp_all
    then have "loop_inv w'" "\<And>d'. ev_live w d' \<Longrightarrow> d' \<noteq> d \<Longrightarrow> ev_live w' d' \<and> edatas w' d' = edatas w d'"
      using stays_reg_inv [OF _ w(2)] stays_live [OF w(1)] unfolding loop_inv_def by blast+
    then show ?thesis using Inr by simp
  qed (use s in simp)
qed

lemma handle_event_step:
  assumes inv: "loop_inv w" and live: "ev_live w d"
  shows "case handle_event my (d, ev) w of
    Inl u \<Rightarrow> u \<in> {HeapOverflow, OutOfBounds, Killed, Exited}
  | Inr w' \<Rightarrow> loop_inv w' \<and>
      (\<not> is_timer w d \<longrightarrow> (\<forall>d'. ev_live w d' \<longrightarrow> d' \<noteq> d \<longrightarrow> ev_live w' d' \<and> edatas w' d' = edatas w d'))"
proof -
  obtain e where e: "d \<noteq> 0" "edatas w d = Some e" using live by (auto simp: ev_live_def)
  note d = handle_event_dispatch [OF e, of my ev]
  consider "fd_type e = EPOLL_FD_LISTENER" "client_ptr e = 0" | "fd_type e = EPOLL_FD_TIMER"
    | "is_conn (fd_type e)" | "fd_type e = EPOLL_FD_LISTENER" "client_ptr e \<noteq> 0"
    by (cases "fd_type e") (auto simp: is_conn_def)
  then show ?thesis
  proof cases
    case 1
    obtain w' where w': "handle_listener_event w = Inr w'" "loop_inv w'"
      "\<forall>d. ev_live w d \<longrightarrow> ev_live w' d \<and> edatas w' d = edatas w d" using listener_safe [OF inv] by blast
    have "handle_event my (d, ev) w = Inr w'" unfolding d using 1 w'(1) by simp
    then show ?thesis using w'(2,3) by simp
  next
    case 2
    obtain w' where "handle_timer_event w = Inr w'" "loop_inv w'" using timer_any [OF inv] by blast
    then show ?thesis unfolding d using 2 e by (simp add: is_timer_def)
  next
    case 3
    then have "handle_event my (d, ev) w = handle_client my d ev w" unfolding d by (auto simp: is_conn_def)
    then show ?thesis using client_event [OF inv e 3 live, of my ev] by (auto split: sum.splits)
  next
    case 4
    then show ?thesis unfolding d using inv by (simp add: is_conn_def)
  qed
qed

interpretation ev: batch "handle_event my" loop_inv "\<lambda>w event. ev_live w (fst event)" fst
  "\<lambda>w event. is_timer w (fst event)" "{HeapOverflow, OutOfBounds, Killed, Exited}" for my :: "'s mysql"
proof (unfold_locales, goal_cases)
  case (1 w event u)
  then show ?case using handle_event_step [OF 1(1,2), of my "snd event"] by simp
next
  case (2 w event w')
  then show ?case using handle_event_step [OF 2(1,2), of my "snd event"] by simp
next
  case (3 w event w' event')
  then show ?case using handle_event_step [OF 3(1,2), of my "snd event"] by (simp add: is_timer_def)
qed

section \<open>What epoll reports\<close>

lemma epoll_wait_event:
  assumes "(d, ev) \<in> set (epoll_wait rs w)"
  shows "\<exists>fd asked. interest w fd = Some (asked, d)"
proof -
  obtain fd ev' where "(d, ev) \<in> set (case interest w fd of None \<Rightarrow> []
    | Some (asked, d) \<Rightarrow> (let ev = and ev' (or asked EPOLL_ALWAYS) in if ev = 0 then [] else [(d, ev)]))"
    using assms unfolding epoll_wait_def by auto
  then show ?thesis by (cases "interest w fd") (auto simp: Let_def split: if_splits)
qed

lemma epoll_wait_live:
  assumes "world_inv w" and "(d, ev) \<in> set (epoll_wait rs w)" and "d \<noteq> 0"
  shows "ev_live w d"
proof -
  obtain fd asked where "interest w fd = Some (asked, d)" using epoll_wait_event [OF assms(2)] by blast
  then have "data_ok (edatas w) (clients w) fd d" using assms by (auto simp: world_inv_def memory_ok_def)
  then show ?thesis using assms(3) by (auto simp: data_ok_def ev_live_def)
qed

text \<open>What is reported for one descriptor.\<close>

definition report :: "'s world \<Rightarrow> int \<times> 32 word \<Rightarrow> (nat \<times> 32 word) list" where
  "report w = (\<lambda>(fd, ev). case interest w fd of None \<Rightarrow> []
     | Some (asked, d) \<Rightarrow> (let ev = and ev (or asked EPOLL_ALWAYS) in if ev = 0 then [] else [(d, ev)]))"

lemma report_data: "(d, e) \<in> set (report w x) \<Longrightarrow> \<exists>a. interest w (fst x) = Some (a, d)"
  by (cases x; cases "interest w (fst x)") (auto simp: report_def Let_def split: if_splits)

lemma report_distinct: "distinct (map fst (report w x))"
  by (cases x; cases "interest w (fst x)") (auto simp: report_def Let_def)

lemma epoll_wait_distinct:
  assumes "world_inv w" and "\<forall>(d, ev) \<in> set (epoll_wait rs w). d \<noteq> 0"
  shows "distinct (map fst (epoll_wait rs w))"
proof -
  have inj: "fd = fd'" if "interest w fd = Some (a, d)" "interest w fd' = Some (a', d)" "d \<noteq> 0" for fd fd' a a' d
    using that assms(1) by (auto simp: world_inv_def memory_ok_def)
  have "distinct (map fst (concat (map (report w) xs)))"
    if "distinct (map fst xs)" "\<forall>(d, ev) \<in> set (concat (map (report w) xs)). d \<noteq> 0" for xs
    using that
  proof (induction xs)
    case (Cons x xs)
    have nz: "d \<noteq> 0" if "(d, ev) \<in> set (concat (map (report w) (x # xs)))" for d ev
      using Cons.prems(2) that by fast
    have "\<forall>(d, ev) \<in> set (concat (map (report w) xs)). d \<noteq> 0" using Cons.prems(2) by simp
    then have IH: "distinct (map fst (concat (map (report w) xs)))" using Cons.IH Cons.prems(1) by simp
    have "False" if "(d, e) \<in> set (report w x)" "y \<in> set xs" "(d, e') \<in> set (report w y)" for d e y e'
    proof -
      have "fst x = fst y" using report_data [OF that(1)] report_data [OF that(3)] inj nz [of d e] that(1) by fastforce
      then show False using Cons.prems(1) that(2) by (metis distinct.simps(2) image_eqI list.set_map list.simps(9))
    qed
    then show ?case using IH report_distinct [of w x] by fastforce
  qed simp
  then show ?thesis using assms(2) by (simp add: epoll_wait_def report_def distinct_clearjunk)
qed

lemma epoll_wait_two:
  assumes "interest w fd1 = Some (EPOLLIN, d1)" and "interest w fd2 = Some (EPOLLIN, d2)" and "fd1 \<noteq> fd2"
  shows "epoll_wait [(fd1, EPOLLIN)] w = [(d1, EPOLLIN)]"
    and "epoll_wait [(fd1, EPOLLIN), (fd2, EPOLLIN)] w = [(d1, EPOLLIN), (d2, EPOLLIN)]"
proof -
  have "and EPOLLIN (or EPOLLIN EPOLL_ALWAYS) = EPOLLIN" "EPOLLIN \<noteq> 0"
    by (simp_all add: EPOLLIN_def EPOLL_ALWAYS_def)
  then show "epoll_wait [(fd1, EPOLLIN)] w = [(d1, EPOLLIN)]"
    "epoll_wait [(fd1, EPOLLIN), (fd2, EPOLLIN)] w = [(d1, EPOLLIN), (d2, EPOLLIN)]"
    using assms by (simp_all add: epoll_wait_def Let_def)
qed

text \<open>
  A batch without null data pointers, in which the expiration of the timer, if it is reported,
  comes last.
\<close>

definition fair_batch :: "(int \<times> 32 word) list \<Rightarrow> 's world \<Rightarrow> bool" where
  "fair_batch rs w \<longleftrightarrow>
     (\<forall>event \<in> set (epoll_wait rs w). fst event \<noteq> 0) \<and>
     (\<forall>event \<in> set (butlast (epoll_wait rs w)). \<not> is_timer w (fst event))"

lemma fair_batch_run:
  assumes "loop_inv w" and "fair_batch rs w"
  shows "case run_events (handle_event my) (epoll_wait rs w) w of
    Inl u \<Rightarrow> u \<in> {HeapOverflow, OutOfBounds, Killed, Exited} | Inr w' \<Rightarrow> loop_inv w'"
proof (rule ev.run [OF assms(1)])
  have w: "world_inv w" using assms(1) by (simp add: loop_inv_def)
  show "\<forall>event \<in> set (epoll_wait rs w). ev_live w (fst event)"
    using assms(2) epoll_wait_live [OF w] by (auto simp: fair_batch_def)
  show "distinct (map fst (epoll_wait rs w))"
    using assms(2) by (intro epoll_wait_distinct [OF w]) (auto simp: fair_batch_def)
  show "\<forall>event \<in> set (butlast (epoll_wait rs w)). \<not> is_timer w (fst event)"
    using assms(2) by (simp add: fair_batch_def)
qed

text \<open>Every batch of a run is fair, at the time it is delivered.\<close>

fun fair_run :: "'s mysql \<Rightarrow> wait list \<Rightarrow> 's world \<Rightarrow> bool" where
  "fair_run my [] w = True"
| "fair_run my (Interrupted # ws) w = fair_run my ws w"
| "fair_run my (WaitFailed # ws) w = True"
| "fair_run my (Ready t rs # ws) w =
     (let w = w\<lparr>now := t\<rparr> in
      fair_batch rs w \<and>
      (case run_events (handle_event my) (epoll_wait rs w) w of Inl u \<Rightarrow> True | Inr w' \<Rightarrow> fair_run my ws w'))"

lemma cleanup_closes:
  assumes "cleanup_resources g st = (g', st')"
  shows "g' = \<lparr>server_sock = - 1, epoll_fd = - 1, timer_fd = - 1\<rparr>"
    and "sock_of st' fd = (if fd \<in> {server_sock g, epoll_fd g, timer_fd g} then None else sock_of st fd)"
proof -
  have n: "sock_of st (- 1) = None" for st :: "('s, 'z) os_scheme" by (simp add: sock_of_def)
  show "g' = \<lparr>server_sock = - 1, epoll_fd = - 1, timer_fd = - 1\<rparr>"
    using assms by (simp add: cleanup_resources_def Let_def)
  show "sock_of st' fd = (if fd \<in> {server_sock g, epoll_fd g, timer_fd g} then None else sock_of st fd)"
    using assms by (auto simp: cleanup_resources_def Let_def n split: if_splits)
qed

section \<open>Memory safety of the loop\<close>

text \<open>
  One batch of events. From a world in which the invariant holds, whatever the sockets, the
  allocator and the database do, a batch that \<open>epoll_wait\<close> reports is handled without use of
  freed or null pointers, without invalid frees and without unbounded recursion, and keeps the
  invariant, provided that no null data pointer was registered and the timer is reported last.
\<close>

theorem batch_safe:
  assumes "loop_inv w" and "fair_batch rs w"
  shows "(\<exists>w'. run_events (handle_event my) (epoll_wait rs w) w = Inr w' \<and> loop_inv w') \<or>
    (\<exists>u \<in> {HeapOverflow, OutOfBounds, Killed, Exited}. run_events (handle_event my) (epoll_wait rs w) w = Inl u)"
  using fair_batch_run [OF assms, of my] by (auto split: sum.splits)

theorem batch_safe_witness:
  "\<exists>r. run_events (handle_event bob_server) [(4, EPOLLIN), (2, EPOLLIN)] (idle_world\<lparr>now := 3\<rparr>) = r \<and>
     r \<noteq> Inl UseAfterFree \<and> r \<noteq> Inl NullDeref"
proof -
  have e: "epoll_wait [(6, EPOLLIN), (5, EPOLLIN)] (idle_world\<lparr>now := 3\<rparr>) = [(4, EPOLLIN), (2, EPOLLIN)]"
    by (rule epoll_wait_two) simp_all
  have "fair_batch [(6, EPOLLIN), (5, EPOLLIN)] (idle_world\<lparr>now := 3\<rparr>)"
    by (simp add: fair_batch_def e is_timer_def)
  then show ?thesis
    using batch_safe [of "idle_world\<lparr>now := 3\<rparr>" "[(6, EPOLLIN), (5, EPOLLIN)]" bob_server] idle_world_inv by (auto simp: e)
qed

lemma run_loop_keeps:
  assumes "loop_inv w" and "fair_run my ws w"
  shows "case run_loop my g ws w of
      Inl u \<Rightarrow> u \<in> {HeapOverflow, OutOfBounds, Killed, Exited}
    | Inr (running, g', w') \<Rightarrow>
        if running then g' = g \<and> loop_inv w'
        else WaitFailed \<in> set ws \<and> g' = \<lparr>server_sock = - 1, epoll_fd = - 1, timer_fd = - 1\<rparr> \<and>
          (\<forall>fd \<in> {server_sock g, epoll_fd g, timer_fd g}. sock_of w' fd = None)"
  using assms
proof (induction my g ws w rule: run_loop.induct)
  case (3 my g ws w)
  obtain g' w' where c: "cleanup_resources g w = (g', w')" by fastforce
  show ?case using cleanup_closes [OF c] by (simp add: exit_with_error_def c)
next
  case (4 my g t rs ws w)
  let ?w = "w\<lparr>now := t\<rparr>"
  have l: "loop_inv ?w" and f: "fair_batch rs ?w" using 4 by (simp_all add: Let_def)
  show ?case
  proof (cases "run_events (handle_event my) (epoll_wait rs ?w) ?w")
    case (Inl u)
    then show ?thesis using fair_batch_run [OF l f, of my] by simp
  next
    case (Inr w1)
    then have "loop_inv w1" "fair_run my ws w1" using fair_batch_run [OF l f, of my] "4.prems"(2) by (simp_all add: Let_def)
    then show ?thesis using "4.IH" [OF refl, of w1] Inr by (auto split: sum.splits prod.splits if_splits)
  qed
next
  case (2 my g ws w)
  then show ?case by (auto split: sum.splits if_splits)
qed simp


section \<open>The timer before the other events\<close>

text \<open>
  C29: without that order memory safety is lost. A client that has no target yet and has been
  idle for ten seconds is marked by the first expiration of the timer but stays registered with
  epoll; if its next request is reported behind the following expiration, in the same batch, the
  loop uses the client that the timer has just freed.
\<close>

theorem idle_client_use_after_free:
  assumes "loop_inv w" and "timer_reads w = []" and "td \<noteq> 0"
    and "interest w tfd = Some (EPOLLIN, td)" and "edatas w td = Some \<lparr>client_ptr = 0, fd_type = EPOLL_FD_TIMER\<rparr>"
    and "clients w = [p \<mapsto> c]" and "target_fd c = - 1" and "\<not> expired c" and "d \<noteq> 0"
    and "interest w (client_fd c) = Some (EPOLLIN, d)"
    and "edatas w d = Some \<lparr>client_ptr = p, fd_type = EPOLL_FD_CLIENT\<rparr>"
    and "last_active c + 10 \<le> t1"
  shows "run_loop my g [Ready t1 [(tfd, EPOLLIN)], Ready t2 [(tfd, EPOLLIN), (client_fd c, EPOLLIN)]] w =
    Inl UseAfterFree"
proof -
  have ne: "tfd \<noteq> client_fd c" using assms(4,5,10,11) by auto
  have p: "p \<noteq> 0" using null_client [of w] assms(1,6) by (auto simp: loop_inv_def split: if_splits)
  have rd: "fst (timer_read (w\<lparr>now := t\<rparr>))" if "timer_reads w = []" for w :: "'a world" and t
    using that by (simp add: timer_read_def)
  have disp: "handle_event my (td, EPOLLIN) (w\<lparr>now := t\<rparr>) = handle_timer_event (w\<lparr>now := t\<rparr>)"
    if "edatas w td = Some \<lparr>client_ptr = 0, fd_type = EPOLL_FD_TIMER\<rparr>" for w t
    using assms(3) that by (simp add: handle_event_dispatch)
  let ?w1 = "w\<lparr>now := t1\<rparr>"
  obtain w2 where 2: "handle_timer_event ?w1 = Inr w2" "ticked UNIV ?w1 w2"
    using timer_safe [OF _ rd [OF assms(2)]] assms(1) by auto
  have "keeps_watch UNIV ?w1" using assms(6-8) by (simp add: keeps_watch_def)
  then have w2: "loop_inv w2" "interest w2 = interest w" "edatas w2 = edatas w" "timer_reads w2 = []"
    "clients w2 p = Some (c\<lparr>expired := True\<rparr>)"
    using tickedD(1,3,4,5) [OF 2(2)] tickedD(8) [OF 2(2), of p c] assms(2,6,8,12) by (simp_all add: tick_client_def)
  let ?w3 = "w2\<lparr>now := t2\<rparr>"
  obtain w4 where 4: "handle_timer_event ?w3 = Inr w4" "ticked UNIV ?w3 w4"
    using timer_safe [OF _ rd [OF w2(4)]] w2(1) by auto
  have w4: "clients w4 p = None" "edatas w4 = edatas w"
    using tickedD(3) [OF 4(2)] tickedD(8) [OF 4(2), of p "c\<lparr>expired := True\<rparr>"] w2(3,5) by (simp_all add: tick_client_def)
  have "handle_event my (d, EPOLLIN) w4 = handle_client my d EPOLLIN w4"
    using assms(9,11) w4(2) by (simp add: handle_event_dispatch is_conn_def)
  also have "\<dots> = Inl UseAfterFree"
    using assms(9,11) w4 p by (simp add: handle_client_def deref_def eval_nat_numeral)
  finally have uaf: "handle_event my (d, EPOLLIN) w4 = Inl UseAfterFree" .
  have b1: "epoll_wait [(tfd, EPOLLIN)] ?w1 = [(td, EPOLLIN)]"
    using assms(4,10) ne by (intro epoll_wait_two(1) [of _ _ _ "client_fd c"]) simp_all
  have b2: "epoll_wait [(tfd, EPOLLIN), (client_fd c, EPOLLIN)] ?w3 = [(td, EPOLLIN), (d, EPOLLIN)]"
    using assms(4,10) ne w2(2) by (intro epoll_wait_two(2)) simp_all
  have "run_events (handle_event my) [(td, EPOLLIN)] ?w1 = Inr w2" using disp [OF assms(5)] 2(1) by simp
  moreover have "run_events (handle_event my) [(td, EPOLLIN), (d, EPOLLIN)] ?w3 = Inl UseAfterFree"
    using disp [of w2 t2] assms(5) w2(3) 4(1) uaf by simp
  ultimately show ?thesis using b1 b2 by (simp add: Let_def)
qed

theorem idle_client_use_after_free_witness:
  "run_loop bob_server \<lparr>server_sock = 3, epoll_fd = 4, timer_fd = 5\<rparr>
     [Ready 10 [(5, EPOLLIN)], Ready 11 [(5, EPOLLIN), (6, EPOLLIN)]] idle_world = Inl UseAfterFree"
  using idle_client_use_after_free [OF idle_world_inv, of 2 5 3 "new_client 6 0" 4 10 bob_server
      "\<lparr>server_sock = 3, epoll_fd = 4, timer_fd = 5\<rparr>" 11]
  by (simp add: new_client_def)


end
