(* ===== verification/Startup.thy ===== *)
theory Startup
  imports Batch
begin

text \<open>
  How the loop is entered: the epoll instance, the listener and the timer are set up by
  \<open>run_loop\<close> (\<open>src/main/main.c\<close>) and \<open>register_timer\<close> (\<open>src/main/timeout.c\<close>).
\<close>

section \<open>Starting up\<close>

lemma open_world:
  fixes w w' :: "'s world"
  assumes "open_fd s w = (fd, w')" and "world_inv w"
  shows "world_inv w'" "edatas w' = edatas w" "clients w' = clients w" "brk w' = brk w"
    "registry w' = registry w" "interest w' = interest w" "opens w' = insert fd (opens w)"
    "fd \<notin> opens w" "0 \<le> fd"
proof -
  note o = sock_of_open [OF assms(1)]
  then have "os.more w' = os.more w" by simp
  note m = os_more_world [OF this]
  show "edatas w' = edatas w" "clients w' = clients w" "brk w' = brk w" "registry w' = registry w"
    by (rule m)+
  show it: "interest w' = interest w" using o(5) by simp
  show op: "opens w' = insert fd (opens w)" using o(3) by (auto simp: opens_def)
  show "fd \<notin> opens w" "0 \<le> fd" using o(1,2) by (simp_all add: opens_def)
  show "world_inv w'" using memory_open assms(2) o(1) by (simp add: world_inv_def m it op)
qed

text \<open>Watching a descriptor with a new record that belongs to no client.\<close>

lemma watch_new:
  assumes inv: "world_inv w" and t: "\<not> is_conn t" and d: "epoll_create_data t 0 w = (d, w1)" "d \<noteq> 0"
    and add: "epoll_add_fd fd EPOLLIN d w1 = (ok, w2)"
  shows "world_inv w2" "clients w2 = clients w" "registry w2 = registry w" "opens w2 = opens w"
    "edatas w2 = (edatas w)(d \<mapsto> \<lparr>client_ptr = 0, fd_type = t\<rparr>)" "d = brk w" "brk w2 = Suc (brk w)"
    "ok \<Longrightarrow> fd \<in> opens w \<and> interest w2 = (interest w)(fd \<mapsto> (EPOLLIN, d))"
    "\<not> ok \<Longrightarrow> interest w2 = interest w" "\<And>fd ev. interest w fd \<noteq> Some (ev, d)"
proof -
  note c = create_data_world [OF inv d(1)]
  note a = add_world [OF add]
  have new: "edatas w1 = (edatas w)(d \<mapsto> \<lparr>client_ptr = 0, fd_type = t\<rparr>)" "d = brk w" "brk w1 = Suc (brk w)"
    using c(1) d(2) by auto
  show "clients w2 = clients w" "registry w2 = registry w" "opens w2 = opens w"
    "edatas w2 = (edatas w)(d \<mapsto> \<lparr>client_ptr = 0, fd_type = t\<rparr>)" "d = brk w" "brk w2 = Suc (brk w)"
    using a(1-5) c(2,3,5) new by simp_all
  show it: "ok \<Longrightarrow> fd \<in> opens w \<and> interest w2 = (interest w)(fd \<mapsto> (EPOLLIN, d))"
    "\<not> ok \<Longrightarrow> interest w2 = interest w"
    using a(7) c(4,5) by auto
  show "interest w fd' \<noteq> Some (ev, d)" for fd' ev using c(4,8) d(2) by simp
  have m: "memory_ok (edatas w1) (clients w1) (brk w1) (interest w1) (opens w1)"
    using c(6) by (simp add: world_inv_def)
  show "world_inv w2"
  proof (cases ok)
    case True
    have "data_ok (edatas w1) (clients w1) fd d" using new(1) t by (simp add: data_ok_def)
    then show ?thesis
      using memory_watch [OF m, of fd d] True it(1) c(4,5,8) d(2) a(1-5) by (simp add: world_inv_def)
  next
    case False
    then show ?thesis using m it(2) a(1-5) c(4) by (simp add: world_inv_def)
  qed
qed

lemma free_new_data:
  assumes "world_inv w" and "edatas w d \<noteq> None" and "d \<noteq> 0" and "\<And>fd ev. interest w fd \<noteq> Some (ev, d)"
  shows "free_edata d w = Inr (w\<lparr>edatas := (edatas w)(d := None)\<rparr>)"
    "world_inv (w\<lparr>edatas := (edatas w)(d := None)\<rparr>)"
  using assms memory_free_data by (auto simp: free_edata_def world_inv_def opens_def)

lemma create_timer_world:
  fixes w :: "'s world"
  assumes "world_inv w" and "create_timer_fd w = (fd, w')"
  shows "world_inv w'" "edatas w' = edatas w" "clients w' = clients w" "brk w' = brk w"
    "registry w' = registry w" "interest w' = interest w"
    "fd = - 1 \<and> opens w' = opens w \<or> fd \<noteq> - 1 \<and> fd \<notin> opens w \<and> opens w' = insert fd (opens w)"
proof -
  obtain ok w1 where 1: "sys_ok w = (ok, w1)" by fastforce
  note q1 = quiet_world [OF sys_ok_quiet [OF 1]]
  obtain n w2 where 2: "open_fd plain_sock w1 = (n, w2)" by fastforce
  have i1: "world_inv w1" using q1(8) assms(1) by simp
  note o = open_world [OF 2 i1]
  obtain ok' w3 where 3: "sys_ok w2 = (ok', w3)" by fastforce
  note q3 = quiet_world [OF sys_ok_quiet [OF 3]]
  have i3: "world_inv w3" using q3(8) o(1) by simp
  note c = close_world [OF i3, where fd = n]
  have "interest w1 n = None" using i1 o(8) by (auto simp: world_inv_def memory_ok_def)
  then have "(interest w1)(n := None) = interest w1" by auto
  then show "world_inv w'" "edatas w' = edatas w" "clients w' = clients w" "brk w' = brk w"
    "registry w' = registry w" "interest w' = interest w"
    "fd = - 1 \<and> opens w' = opens w \<or> fd \<noteq> - 1 \<and> fd \<notin> opens w \<and> opens w' = insert fd (opens w)"
    using assms q1 o q3 i3 c
    by (auto simp: create_timer_fd_def 1 2 3 split: if_splits)
qed

lemma register_timer_world:
  assumes "world_inv w"
  shows "\<exists>tfd w'. register_timer w = Inr (tfd, w') \<and> world_inv w' \<and> clients w' = clients w \<and>
    registry w' = registry w \<and> (\<forall>d < brk w. edatas w' d = edatas w d) \<and>
    (tfd \<noteq> - 1 \<longrightarrow> tfd \<notin> opens w \<and> opens w' = insert tfd (opens w) \<and>
      (\<exists>td. td \<noteq> 0 \<and> edatas w' td = Some \<lparr>client_ptr = 0, fd_type = EPOLL_FD_TIMER\<rparr> \<and>
        interest w' = (interest w)(tfd \<mapsto> (EPOLLIN, td))))"
proof -
  obtain fd w1 where 1: "create_timer_fd w = (fd, w1)" by fastforce
  note t = create_timer_world [OF assms 1]
  show ?thesis
  proof (cases "fd = - 1")
    case True
    then show ?thesis using t by (simp add: register_timer_def 1)
  next
    case False
    obtain d w2 where 2: "epoll_create_data EPOLL_FD_TIMER 0 w1 = (d, w2)" by fastforce
    note c = create_data_world [OF t(1) 2]
    show ?thesis
    proof (cases "d = 0")
      case True
      then show ?thesis using False t c by (auto simp: register_timer_def 1 2)
    next
      case d: False
      obtain ok w3 where 3: "epoll_add_fd fd EPOLLIN d w2 = (ok, w3)" by fastforce
      note w = watch_new [OF t(1) _ 2 d 3]
      have nc: "\<not> is_conn EPOLL_FD_TIMER" by (simp add: is_conn_def)
      have op: "fd \<notin> opens w" "opens w1 = insert fd (opens w)" using t(7) False by simp_all
      show ?thesis
      proof (cases ok)
        case True
        then have "interest w3 = (interest w)(fd \<mapsto> (EPOLLIN, d))" using w(8) nc t(6) by simp
        moreover have "register_timer w = Inr (fd, w3)" using True False d by (simp add: register_timer_def 1 2 3)
        ultimately show ?thesis using w(1-6) [OF nc] t op d by (intro exI [of _ fd] exI [of _ w3]) (auto intro!: exI [of _ d])
      next
        case nok: False
        then have "interest w3 = interest w" using w(9) nc t(6) by simp
        then have f: "free_edata d w3 = Inr (w3\<lparr>edatas := (edatas w3)(d := None)\<rparr>)"
          "world_inv (w3\<lparr>edatas := (edatas w3)(d := None)\<rparr>)"
          using free_new_data [of w3 d] w(1,5,10) nc d t(6) by simp_all
        then have "register_timer w = Inr (- 1, w3\<lparr>edatas := (edatas w3)(d := None)\<rparr>)"
          using nok False d by (simp add: register_timer_def 1 2 3)
        then show ?thesis using f(2) w(1-6) [OF nc] t by simp
      qed
    qed
  qed
qed

text \<open>
  A process that has just opened its listening socket: no client, no data record, nothing
  watched.
\<close>

definition booted :: "globals \<Rightarrow> 's world \<Rightarrow> bool" where
  "booted g w \<longleftrightarrow> edatas w = Map.empty \<and> clients w = Map.empty \<and> interest w = Map.empty \<and>
     0 < brk w \<and> registry w = state_registry_init \<and> sock_of w (server_sock g) \<noteq> None"

lemma booted_inv: "booted g w \<Longrightarrow> loop_inv w"
  by (auto simp: booted_def loop_inv_def world_inv_def memory_ok_def reg_inv_def state_registry_init_def
      opens_def sock_of_def split: if_splits)

lemma run_loop_starts:
  assumes "booted g w"
  shows "\<exists>entered g' w'. run_loop_start g w = Inr (entered, g', w') \<and>
    (if entered
     then loop_inv w' \<and> clients w' = Map.empty \<and> server_sock g' = server_sock g \<and>
       (\<exists>ld td. interest w' = [server_sock g \<mapsto> (EPOLLIN, ld), timer_fd g' \<mapsto> (EPOLLIN, td)] \<and>
         ld \<noteq> 0 \<and> edatas w' ld = Some \<lparr>client_ptr = 0, fd_type = EPOLL_FD_LISTENER\<rparr> \<and>
         td \<noteq> 0 \<and> edatas w' td = Some \<lparr>client_ptr = 0, fd_type = EPOLL_FD_TIMER\<rparr>)
     else g' = \<lparr>server_sock = - 1, epoll_fd = - 1, timer_fd = - 1\<rparr> \<and> sock_of w' (server_sock g) = None)"
proof -
  have quit: "\<exists>g' w'. exit_with_error h v = Inr (False, g', w') \<and>
      g' = \<lparr>server_sock = - 1, epoll_fd = - 1, timer_fd = - 1\<rparr> \<and> sock_of w' (server_sock g) = None"
    if "server_sock h = server_sock g" for h and v :: "'a world"
  proof -
    obtain g' w' where c: "cleanup_resources h v = (g', w')" by fastforce
    show ?thesis using cleanup_closes [OF c] that by (simp add: exit_with_error_def c)
  qed
  have inv: "world_inv w" "reg_inv w" using booted_inv [OF assms] by (simp_all add: loop_inv_def)
  let ?w1 = "set_nonblocking (server_sock g) w"
  note q1 = quiet_world [OF set_nonblocking_quiet [of w "server_sock g"]]
  obtain ok w2 where 2: "sys_ok ?w1 = (ok, w2)" by fastforce
  note q2 = quiet_world [OF sys_ok_quiet [OF 2]]
  obtain efd w3 where 3: "open_fd plain_sock w2 = (efd, w3)" by fastforce
  note o = open_world [OF 3]
  obtain d w4 where 4: "epoll_create_data EPOLL_FD_LISTENER 0 w3 = (d, w4)" by fastforce
  obtain ok' w5 where 5: "epoll_add_fd (server_sock g) EPOLLIN d w4 = (ok', w5)" by fastforce
  have i2: "world_inv w2" using q1(8) q2(8) inv(1) by simp
  have nc: "\<not> is_conn EPOLL_FD_LISTENER" by (simp add: is_conn_def)
  let ?g = "g\<lparr>epoll_fd := efd\<rparr>"
  show ?thesis
  proof (cases "ok \<and> d \<noteq> 0")
    case False
    have "run_loop_start g w = exit_with_error (g\<lparr>epoll_fd := - 1\<rparr>) w2 \<or>
        run_loop_start g w = exit_with_error ?g w4"
      using False by (auto simp: run_loop_start_def Let_def 2 3 4)
    then show ?thesis using quit [of "g\<lparr>epoll_fd := - 1\<rparr>" w2] quit [of ?g w4] by auto
  next
    case True
    note w = watch_new [OF o(1) [OF i2] nc 4 _ 5]
    have start: "run_loop_start g w =
      (if \<not> ok' then bindR (free_edata d w5) (exit_with_error ?g)
       else bindR (register_timer w5) (\<lambda>(tfd, w).
         if tfd = - 1 then exit_with_error (?g\<lparr>timer_fd := tfd\<rparr>) w else Inr (True, ?g\<lparr>timer_fd := tfd\<rparr>, w)))"
      using True by (simp add: run_loop_start_def Let_def 2 3 4 5)
    have d: "d \<noteq> 0" using True by simp
    show ?thesis
    proof (cases ok')
      case False
      then have "free_edata d w5 = Inr (w5\<lparr>edatas := (edatas w5)(d := None)\<rparr>)"
        using free_new_data [of w5 d] w(1,5,9,10) d by simp
      then show ?thesis using quit [of ?g "w5\<lparr>edatas := (edatas w5)(d := None)\<rparr>"] start False by auto
    next
      case ok': True
      obtain tfd w6 where 6: "register_timer w5 = Inr (tfd, w6)" "world_inv w6" "clients w6 = clients w5"
        "registry w6 = registry w5" "\<forall>d < brk w5. edatas w6 d = edatas w5 d"
        "tfd \<noteq> - 1 \<longrightarrow> tfd \<notin> opens w5 \<and> opens w6 = insert tfd (opens w5) \<and>
          (\<exists>td. td \<noteq> 0 \<and> edatas w6 td = Some \<lparr>client_ptr = 0, fd_type = EPOLL_FD_TIMER\<rparr> \<and>
            interest w6 = (interest w5)(tfd \<mapsto> (EPOLLIN, td)))"
        using register_timer_world [OF w(1)] d by blast
      show ?thesis
      proof (cases "tfd = - 1")
        case True
        then show ?thesis using quit [of "?g\<lparr>timer_fd := tfd\<rparr>" w6] start ok' 6(1) by auto
      next
        case False
        obtain td where td: "td \<noteq> 0" "edatas w6 td = Some \<lparr>client_ptr = 0, fd_type = EPOLL_FD_TIMER\<rparr>"
          "interest w6 = (interest w5)(tfd \<mapsto> (EPOLLIN, td))" using 6(6) False by blast
        have cl: "clients w6 = Map.empty" "registry w6 = state_registry_init"
          using 6(3,4) w(2,3) d o(3,5) [OF i2] q2(2,4) q1(2,4) assms by (simp_all add: booted_def)
        have "reg_inv w6" using cl by (auto simp: reg_inv_def state_registry_init_def)
        moreover have "interest w5 = [server_sock g \<mapsto> (EPOLLIN, d)]"
          using w(8) ok' d o(6) [OF i2] q2(5) q1(5) assms by (simp add: booted_def)
        moreover have "edatas w6 d = Some \<lparr>client_ptr = 0, fd_type = EPOLL_FD_LISTENER\<rparr>"
          using 6(5) w(5,6,7) d by simp
        moreover have "run_loop_start g w = Inr (True, ?g\<lparr>timer_fd := tfd\<rparr>, w6)"
          using start ok' 6(1) False by simp
        ultimately show ?thesis using 6(2) cl(1) d td by (auto simp: loop_inv_def)
      qed
    qed
  qed
qed



end
