(* ===== verification/Phases.thy ===== *)
theory Phases
  imports Startup
begin

text \<open>
  The life of a client as a state machine: \<open>handle_client\<close> (\<open>src/main/proxy.c\<close>) returns with a
  bounded recursion, moves its client along the steps of the machine, and connects it to a target
  only with valid credentials.
\<close>

section \<open>Recursion\<close>

text \<open>
  A handler either ends by itself or with a call of \<open>handle_client\<close>: in both cases what it does
  before does not depend on that call.
\<close>

definition tail_call :: "('s cont \<Rightarrow> 's world result) \<Rightarrow> bool" where
  "tail_call h \<longleftrightarrow> (\<exists>r. \<forall>again. h again = r) \<or> (\<exists>w. \<forall>again. h again = again w)"

lemma tail_callI [intro]: "tail_call (\<lambda>again. r)" "tail_call (\<lambda>again. again w)"
  by (auto simp: tail_call_def)

lemma tail_call_bind: "(\<And>x. m = Inr x \<Longrightarrow> tail_call (f x)) \<Longrightarrow> tail_call (\<lambda>again. bindR m (\<lambda>x. f x again))"
  by (cases m) (auto simp: tail_call_def)

lemma tail_call_cases:
  "tail_call h1 \<Longrightarrow> tail_call h2 \<Longrightarrow> tail_call (\<lambda>again. if b then h1 again else h2 again)"
  "(\<And>a b. x = (a, b) \<Longrightarrow> tail_call (f a b)) \<Longrightarrow> tail_call (\<lambda>again. case x of (a, b) \<Rightarrow> f a b again)"
  "tail_call h1 \<Longrightarrow> (\<And>y. tail_call (g y)) \<Longrightarrow> tail_call (\<lambda>again. case z of None \<Rightarrow> h1 again | Some y \<Rightarrow> g y again)"
  by (cases b; simp) ((cases x; simp), (cases z; simp))

lemmas tail_call_rules = tail_callI tail_call_bind tail_call_cases

lemma reading_tail: "tail_call (\<lambda>again. handle_reading_request again p c w)"
  unfolding handle_reading_request_def by (intro tail_call_rules)

lemma authenticating_tail: "tail_call (\<lambda>again. handle_authenticating my again p c w)"
  unfolding handle_authenticating_def Let_def by (intro tail_call_rules)

lemma connecting_tail: "tail_call (\<lambda>again. handle_connecting again p c w)"
proof (cases "so_error (target_fd c) w")
  case (Pair err w1)
  then show ?thesis
    by (cases "err = Some 0") (auto simp: handle_connecting_def)
qed

text \<open>More depth than is needed changes nothing.\<close>

lemma tail_call_mono:
  assumes "tail_call h" and "\<And>w. a w \<noteq> Inl StackExhausted \<Longrightarrow> b w = a w" and "h a \<noteq> Inl StackExhausted"
  shows "h b = h a"
  using assms by (metis tail_call_def)

lemma handle_client_n_mono:
  "handle_client_n n my d ev w \<noteq> Inl StackExhausted \<Longrightarrow> handle_client_n (Suc n) my d ev w = handle_client_n n my d ev w"
proof (induction n arbitrary: w)
  case (Suc n)
  show ?case
  proof (cases "deref (edatas w) d")
    case e: (Inr e)
    show ?thesis
    proof (cases "deref (clients w) (client_ptr e)")
      case c: (Inr c)
      have mono: "h (handle_client_n (Suc n) my d ev) = h (handle_client_n n my d ev)"
        if "tail_call h" "h (handle_client_n n my d ev) \<noteq> Inl StackExhausted" for h
        using tail_call_mono [OF that(1) Suc.IH that(2)] .
      show ?thesis
      proof (cases "expired c")
        case False
        then show ?thesis
          using Suc.prems e c mono [OF reading_tail [of "client_ptr e" c w]]
            mono [OF authenticating_tail [of my "client_ptr e" c w]] mono [OF connecting_tail [of "client_ptr e" c w]]
          by (subst (1 2) handle_client_n.simps(2)) (cases "phase c"; simp del: handle_client_n.simps(2) add: handle_client_n.simps(2) [of n])
      qed (use e c in simp)
    qed (use e in simp)
  qed simp
qed simp

section \<open>The call that is made\<close>

text \<open>
  A continuation that returns the world it is called in when the invariant, the event's data and
  the client's phase there are as they should be, and fails otherwise: run with it, a handler
  shows the world in which it makes its call.
\<close>

definition call_ok :: "nat \<Rightarrow> nat \<Rightarrow> client_phase set \<Rightarrow> 's world \<Rightarrow> bool" where
  "call_ok d p P w \<longleftrightarrow> world_inv w \<and>
     (\<exists>e. edatas w d = Some e \<and> client_ptr e = p \<and> is_conn (fd_type e)) \<and>
     (\<exists>c. clients w p = Some c \<and> phase c \<in> P)"

definition probe :: "nat \<Rightarrow> nat \<Rightarrow> client_phase set \<Rightarrow> 's cont" where
  "probe d p P w = (if call_ok d p P w then Inr w else Inl NullDeref)"

lemma probe_safe: "safe_again d p P (probe d p P)"
  by (auto simp: safe_again_def probe_def call_ok_def)

lemma tail_call_safe:
  assumes "tail_call h" and "safe d p w (h (probe d p P))"
  shows "(\<exists>r. (\<forall>again. h again = r) \<and> safe d p w r) \<or>
    (\<exists>w2. (\<forall>again. h again = again w2) \<and> call_ok d p P w2 \<and> stays d p w w2)"
proof -
  consider r where "\<forall>again. h again = r" | w2 where "\<forall>again. h again = again w2"
    using assms(1) by (auto simp: tail_call_def)
  then show ?thesis
  proof cases
    case 1
    then show ?thesis using assms(2) by metis
  next
    case 2
    then have "safe d p w (probe d p P w2)" using assms(2) by metis
    then have "call_ok d p P w2 \<and> stays d p w w2" by (simp add: probe_def split: if_splits)
    then show ?thesis using 2 by blast
  qed
qed

section \<open>The phases\<close>

text \<open>What one handler may make of the phase of its client.\<close>

inductive phase_step :: "client_phase \<Rightarrow> client_phase \<Rightarrow> bool" where
  got_request: "phase_step READING_REQUEST AUTHENTICATING"
| read_failed: "phase_step READING_REQUEST CLOSING"
| authenticated: "phase_step AUTHENTICATING INITIALIZE_CONNECTION"
| rejected: "phase_step AUTHENTICATING CLOSING"
| started: "phase_step INITIALIZE_CONNECTION CONNECTING"
| not_started: "phase_step INITIALIZE_CONNECTION CLOSING"
| connected: "phase_step CONNECTING FORWARDING"
| not_connected: "phase_step CONNECTING CLOSING"
| ended: "phase_step FORWARDING CLOSING"

inductive_cases from_closing: "phase_step CLOSING s"
inductive_cases from_closed: "phase_step CLOSED s"
inductive_cases from_forwarding: "phase_step FORWARDING s"
inductive_simps phase_step_simps [simp]:
  "phase_step READING_REQUEST s" "phase_step AUTHENTICATING s" "phase_step INITIALIZE_CONNECTION s"
  "phase_step CONNECTING s" "phase_step FORWARDING s" "phase_step CLOSING s"

definition phase_in :: "nat \<Rightarrow> client_phase set \<Rightarrow> 's world \<Rightarrow> bool" where
  "phase_in p P w \<longleftrightarrow> (\<exists>c. clients w p = Some c \<and> phase c \<in> P)"

lemma phase_in_put [simp]: "phase_in p P (put_client p c w) \<longleftrightarrow> phase c \<in> P"
  by (simp add: phase_in_def)

text \<open>What the handlers leave when they make no call.\<close>

definition no_call :: "'s cont" where
  "no_call w = Inl NullDeref"

lemma reading_ends:
  assumes "handle_reading_request no_call p c w = Inr w'" and "bufs_ok c" and "phase c = READING_REQUEST"
  shows "phase_in p {READING_REQUEST} w'"
proof (cases "read_request_nonblocking c w")
  case (Inr x)
  then show ?thesis using read_request_cases [OF Inr assms(2)] assms
    by (cases x) (auto simp: handle_reading_request_def no_call_def same_conn_def split: if_splits)
qed (use assms in \<open>simp add: handle_reading_request_def\<close>)

lemma authenticating_ends:
  assumes "handle_authenticating my no_call p c w = Inr w'"
  shows "phase_in p {CLOSING} w'"
proof (cases "has_valid_auth my (cstr (request_buffer c)) w")
  case (Inr x)
  then show ?thesis using assms
    by (cases x; cases "send_proxy_auth_required (client_fd c) (snd x)")
      (auto simp: handle_authenticating_def no_call_def Let_def split: if_splits option.splits)
qed (use assms in \<open>simp add: handle_authenticating_def\<close>)

lemma initialize_ends:
  assumes "handle_initialize_connection p c w = Inr w'"
  shows "phase_in p {CONNECTING, CLOSING} w'"
proof (cases "connection_connect c w")
  case (Inr x)
  then show ?thesis using assms
    by (cases x) (auto simp: handle_initialize_connection_def Let_def split: if_splits prod.splits)
qed (use assms in \<open>simp add: handle_initialize_connection_def\<close>)

text \<open>The registration of both descriptors does not touch the clients.\<close>

lemma register_clients:
  assumes "register_forwarding_fds p c w = Inr (b, w')"
  shows "clients w' = clients w"
proof -
  have cd: "clients w' = clients w" if "epoll_create_data t q w = (x, w')" for t q x and w w' :: "'a world"
    using that by (auto simp: epoll_create_data_def malloc_def Let_def split: prod.splits if_splits)
  have md: "clients w' = clients w" if "epoll_mod_fd fd ev x w = (ok, w')" for fd ev x ok and w w' :: "'a world"
    using mod_world(2) [OF that] .
  obtain x w1 where 1: "epoll_create_data EPOLL_FD_CLIENT p w = (x, w1)" by fastforce
  obtain ok w2 where 2: "epoll_mod_fd (client_fd c) (or EPOLLIN EPOLLOUT) x w1 = (ok, w2)" by fastforce
  obtain y w3 where 3: "epoll_create_data EPOLL_FD_TARGET p w2 = (y, w3)" by fastforce
  obtain ok2 w4 where 4: "epoll_mod_fd (target_fd c) (or EPOLLIN EPOLLOUT) y w3 = (ok2, w4)" by fastforce
  show ?thesis
    using assms cd [OF 1] md [OF 2] cd [OF 3] md [OF 4]
    by (auto simp: register_forwarding_fds_def 1 2 3 4 free_edata_def split: if_splits)
qed

lemma connecting_ends:
  assumes "handle_connecting no_call p c w = Inr w'"
  shows "phase_in p {FORWARDING} w'"
proof -
  obtain err w1 where so: "so_error (target_fd c) w = (err, w1)" by fastforce
  have "phase_in p {FORWARDING} v'"
    if "register_forwarding_fds p c2 (put_client p c2 v) = Inr (b, v')" "phase c2 = FORWARDING"
    for c2 b and v v' :: "'a world"
    using register_clients [OF that(1)] that(2) by (simp add: phase_in_def)
  then show ?thesis
    using assms
    by (cases "is_https c"; cases "send_https_established (client_fd c) w1")
      (auto simp: handle_connecting_def so no_call_def Let_def bindR_eq_Inr split: if_splits)
qed

lemma forwarding_ends:
  assumes "handle_forwarding t ev p c w = Inr w'" and "bufs_ok c" and "phase c = FORWARDING"
  shows "phase_in p {FORWARDING, CLOSING} w'"
proof -
  obtain r c' w1 where "connection_forward t ev c w = Inr (r, c', w1)" "forward_ok c w c' w1"
    using connection_forward_ok [OF assms(2)] by blast
  then show ?thesis using assms by (auto simp: handle_forwarding_def forward_ok_def same_conn_def split: if_splits)
qed

lemma closing_ends:
  assumes "handle_closing d p c w = Inr w'" and "phase c = CLOSING"
  shows "phase_in p {CLOSING} w'"
  using assms by (auto simp: handle_closing_def free_edata_def phase_in_def put_client_def split: if_splits)

text \<open>A handler with a call: its phases from those of the call.\<close>

lemma tail_call_phase:
  assumes t: "tail_call h" and s: "\<And>again. safe_again d p P again \<Longrightarrow> safe d p w (h again)"
    and run: "h again = Inr w'"
    and ends: "h no_call = Inr w' \<Longrightarrow> phase_in p {s. phase_step\<^sup>*\<^sup>* s0 s} w'"
    and P: "\<forall>s \<in> P. phase_step s0 s"
    and again: "\<And>w2 c2 e. world_inv w2 \<Longrightarrow> edatas w2 d = Some e \<Longrightarrow> client_ptr e = p \<Longrightarrow> is_conn (fd_type e) \<Longrightarrow>
      clients w2 p = Some c2 \<Longrightarrow> phase c2 \<in> P \<Longrightarrow> again w2 = Inr w' \<Longrightarrow>
      phase_in p {s. phase_step\<^sup>*\<^sup>* (phase c2) s} w'"
  shows "phase_in p {s. phase_step\<^sup>*\<^sup>* s0 s} w'"
proof -
  consider r where "\<forall>again. h again = r" | w2 where "\<forall>again. h again = again w2" "call_ok d p P w2"
    using tail_call_safe [OF t s [OF probe_safe]] by blast
  then show ?thesis
  proof cases
    case 1
    then show ?thesis using run ends by metis
  next
    case 2
    then obtain c2 e where c2: "world_inv w2" "edatas w2 d = Some e" "client_ptr e = p" "is_conn (fd_type e)"
      "clients w2 p = Some c2" "phase c2 \<in> P"
      by (auto simp: call_ok_def)
    then have "phase_in p {s. phase_step\<^sup>*\<^sup>* (phase c2) s} w'" using again [OF c2] run 2(1) by simp
    then show ?thesis
      using P c2(6) by (auto simp: phase_in_def intro: converse_rtranclp_into_rtranclp)
  qed
qed

lemma handle_client_step:
  assumes "edatas w d = Some e" and "clients w (client_ptr e) = Some c" and "d \<noteq> 0" and "client_ptr e \<noteq> 0"
  shows "handle_client_n (Suc n) my d ev w =
    (if expired c then Inr w
     else case phase c of
            READING_REQUEST \<Rightarrow> handle_reading_request (handle_client_n n my d ev) (client_ptr e) c w
          | AUTHENTICATING \<Rightarrow> handle_authenticating my (handle_client_n n my d ev) (client_ptr e) c w
          | INITIALIZE_CONNECTION \<Rightarrow> handle_initialize_connection (client_ptr e) c w
          | CONNECTING \<Rightarrow> handle_connecting (handle_client_n n my d ev) (client_ptr e) c w
          | FORWARDING \<Rightarrow> handle_forwarding (fd_type e) ev (client_ptr e) c w
          | CLOSING \<Rightarrow> handle_closing d (client_ptr e) c w
          | CLOSED \<Rightarrow> Inr w)"
  using assms by (simp add: deref_def split: client_phase.split)

declare handle_client_n.simps(2) [simp del]

lemma handle_client_n_phases:
  assumes "world_inv w" and "edatas w d = Some e" and "client_ptr e = p" and "is_conn (fd_type e)"
    and "clients w p = Some c" and "d \<noteq> 0" and "handle_client_n n my d ev w = Inr w'"
  shows "phase_in p {s. phase_step\<^sup>*\<^sup>* (phase c) s} w'"
  using assms
proof (induction n arbitrary: w c e)
  case (Suc n)
  note pr = Suc.prems(1-5)
  have p: "p \<noteq> 0" using pr by (auto simp: world_inv_def memory_ok_def)
  have b: "bufs_ok c" using world_client_ok [OF pr(1,5)] by (simp add: client_ok_def)
  have again: "phase_in p {s. phase_step\<^sup>*\<^sup>* (phase c2) s} w'"
    if "world_inv w2" "edatas w2 d = Some e2" "client_ptr e2 = p" "is_conn (fd_type e2)" "clients w2 p = Some c2"
      "phase c2 \<in> P" "handle_client_n n my d ev w2 = Inr w'" for w2 c2 e2 P
    using Suc.IH [OF that(1-5) Suc.prems(6) that(7)] .
  have one: "phase_in p {s. phase_step\<^sup>*\<^sup>* (phase c) s} w'"
    if "phase_in p P w'" "\<forall>s \<in> P. s = phase c \<or> phase_step (phase c) s" for P
    using that by (auto simp: phase_in_def)
  note e = handle_client_step [OF pr(2), of c, unfolded pr(3), OF pr(5) Suc.prems(6) p, of n my ev,
      unfolded Suc.prems(7), symmetric]
  show ?case
  proof (cases "expired c \<or> phase c = CLOSED")
    case True
    then have "w' = w" using e by (auto split: if_splits)
    then show ?thesis using pr(5) by (simp add: phase_in_def)
  next
    case False
    show ?thesis
    proof (cases "phase c")
      case r: READING_REQUEST
      have h: "handle_reading_request (handle_client_n n my d ev) p c w = Inr w'" using e False r by simp
      show ?thesis
        by (rule tail_call_phase [OF reading_tail reading_safe [OF pr r] h _ _ again])
          (use one [OF reading_ends [OF _ b r]] r in auto)
    next
      case r: AUTHENTICATING
      have h: "handle_authenticating my (handle_client_n n my d ev) p c w = Inr w'" using e False r by simp
      show ?thesis
        by (rule tail_call_phase [OF authenticating_tail authenticating_safe [OF pr r] h _ _ again])
          (use one [OF authenticating_ends] r in auto)
    next
      case r: CONNECTING
      have h: "handle_connecting (handle_client_n n my d ev) p c w = Inr w'" using e False r by simp
      show ?thesis
        by (rule tail_call_phase [OF connecting_tail connecting_safe [OF pr] h _ _ again])
          (use one [OF connecting_ends] r in auto)
    next
      case INITIALIZE_CONNECTION
      then show ?thesis using one [OF initialize_ends] e False by auto
    next
      case FORWARDING
      then show ?thesis using one [OF forwarding_ends [OF _ b]] e False by auto
    next
      case CLOSING
      then show ?thesis using one [OF closing_ends] e False by auto
    qed (use False in simp)
  qed
qed simp

section \<open>The state machine\<close>

text \<open>
  C17: \<open>handle_client\<close> returns for every event. Its recursion is at most three calls deep: with
  any bound of three or more it gives the same result, which is never an exhausted stack.
\<close>

theorem handle_client_bounded:
  assumes "world_inv w" and "edatas w d = Some e" and "is_conn (fd_type e)"
    and "clients w (client_ptr e) = Some c" and "d \<noteq> 0" and "3 \<le> n"
  shows "handle_client_n n my d ev w = handle_client my d ev w \<and>
    handle_client my d ev w \<noteq> Inl StackExhausted"
proof -
  have ne: "handle_client_n n my d ev w \<noteq> Inl StackExhausted" if "3 \<le> n" for n
  proof -
    have "depth (phase c) \<le> n" using that by (auto simp: depth_def split: client_phase.split)
    then have "safe d (client_ptr e) w (handle_client_n n my d ev w)"
      by (intro handle_client_n_safe [OF assms(1,2) refl assms(3,4)] assms(5))
    then show ?thesis by (auto simp: safe_def)
  qed
  have "handle_client_n (3 + k) my d ev w = handle_client_n 3 my d ev w" for k
  proof (induction k)
    case (Suc k)
    then show ?case using handle_client_n_mono [OF ne [of "3 + k"]] by simp
  qed simp
  from this [of "n - 3"] this [of 1] assms(6) show ?thesis using ne [of 4] by (simp add: handle_client_def)
qed


section \<open>No connection without credentials\<close>

lemma initialize_keeps:
  assumes "handle_initialize_connection p c w = Inr w'"
  shows "\<exists>c'. clients w' p = Some c' \<and> host c' = host c \<and> port c' = port c \<and> request_buffer c' = request_buffer c"
proof -
  obtain r c1 w1 where r: "connection_connect c w = Inr (r, c1, w1)"
    using assms by (cases "connection_connect c w") (auto simp: handle_initialize_connection_def)
  have "c1 = c\<lparr>target_fd := target_fd c1, request_len := request_len c1\<rparr>"
    using connection_connect_cases [OF r] by blast
  then obtain t l where "c1 = c\<lparr>target_fd := t, request_len := l\<rparr>" by blast
  then have "host c1 = host c" "port c1 = port c" "request_buffer c1 = request_buffer c" by simp_all
  then show ?thesis using assms r
    by (auto simp: handle_initialize_connection_def Let_def split: if_splits prod.splits)
qed

lemma read_request_auth:
  assumes "read_request_nonblocking c st = Inr (n, c', st')"
  shows "auth_cache st' = auth_cache st \<and> db_conn st' = db_conn st \<and> now st' = now st"
proof -
  obtain grown c1 st1 where g: "grow_request c st = (grown, c1, st1)" by (rule prod_cases3)
  have 1: "auth_cache st1 = auth_cache st \<and> db_conn st1 = db_conn st \<and> now st1 = now st"
    using g by (auto simp: grow_request_def malloc_def Let_def split: prod.splits if_splits)
  obtain res st2 where r: "recv (client_fd c1) (size_diff (request_capacity c1) (request_len c1)) st1 = (res, st2)"
    by fastforce
  have "auth_cache st2 = auth_cache st1 \<and> db_conn st2 = db_conn st1 \<and> now st2 = now st1"
    using r by (auto simp: recv_def set_sock_def split: option.splits list.splits rx.splits if_splits)
  moreover have "st' = st2 \<or> st' = st1"
    using assms by (auto simp: read_request_nonblocking_def g r bindR_eq_Inr Let_def
        split: if_splits recv_result.splits)
  ultimately show ?thesis using 1 by auto
qed

lemma cached_cong: "auth_cache st' = auth_cache st \<Longrightarrow> now st' = now st \<Longrightarrow> cached st' tok = cached st tok"
  by (simp add: cached_def cache_map_def cong: option.case_cong)

definition credentials :: "'s mysql \<Rightarrow> ('s, 'z) auth_state_scheme \<Rightarrow> string \<Rightarrow> bool" where
  "credentials my st req \<longleftrightarrow> (\<exists>tok. basic_auth_bytes req = Some tok \<and>
     (cached st tok \<or> (\<exists>u p. creds_of tok = Some (u, p) \<and> db_password my (db_conn st) u = Some p)))"

text \<open>
  What an event makes of a client: either its destination stays what it was, and it gets no new
  target, or it is admitted: its request has valid credentials and names the destination.
\<close>

definition unmoved :: "client \<Rightarrow> client \<Rightarrow> bool" where
  "unmoved c c' \<longleftrightarrow> host c' = host c \<and> port c' = port c \<and> (target_fd c' = target_fd c \<or> target_fd c' = - 1) \<and>
     phase c' \<noteq> INITIALIZE_CONNECTION"

definition admitted :: "'s mysql \<Rightarrow> ('s, 'z) auth_state_scheme \<Rightarrow> client \<Rightarrow> bool" where
  "admitted my st c' \<longleftrightarrow> credentials my st (cstr (request_buffer c')) \<and>
     parse_host_port (cstr (request_buffer c')) = Some (host c', port c') \<and> phase c' \<noteq> INITIALIZE_CONNECTION"

lemma closing_moves:
  assumes "handle_client_n n my d ev w = Inr w'" and "edatas w d = Some e" and "d \<noteq> 0"
    and "client_ptr e = p" and "p \<noteq> 0" and "clients w p = Some c" and "phase c = CLOSING"
    and "clients w' p = Some c'"
  shows "unmoved c c'"
proof (cases n)
  case (Suc m)
  have "(if expired c then Inr w else handle_closing d p c w) = Inr w'"
    using handle_client_step [OF assms(2), of c m my ev] assms(1,3-7) Suc by (auto split: if_splits)
  then show ?thesis
    using assms(6-8) by (auto simp: unmoved_def handle_closing_def free_edata_def put_client_def split: if_splits)
qed (use assms(1) in simp)

lemma connecting_moves:
  assumes run: "handle_client_n n my d ev w = Inr w'" and e: "edatas w d = Some e" "d \<noteq> 0" "client_ptr e = p" "p \<noteq> 0"
    and c: "clients w p = Some c" "phase c = CONNECTING" and c': "clients w' p = Some c'"
  shows "unmoved c c'"
proof (cases n)
  case (Suc m)
  show ?thesis
  proof (cases "expired c")
    case True
    then have "w' = w" using handle_client_step [OF e(1), of c m my ev] run e c Suc by simp
    then show ?thesis using c c' by (simp add: unmoved_def)
  next
    case False
    then have h: "handle_connecting (handle_client_n m my d ev) p c w = Inr w'"
      using handle_client_step [OF e(1), of c m my ev] run e c Suc by simp
    obtain err w1 where so: "so_error (target_fd c) w = (err, w1)" by fastforce
    show ?thesis
    proof (cases "err = Some 0")
      case True
      have "unmoved c c'"
        if "register_forwarding_fds p c2 (put_client p c2 v) = Inr (b, w')" "phase c2 = FORWARDING"
          "host c2 = host c" "port c2 = port c" "target_fd c2 = target_fd c" for c2 b v
        using register_clients [OF that(1)] that(2-5) c' by (simp add: unmoved_def)
      then show ?thesis
        using h True
        by (cases "is_https c"; cases "send_https_established (client_fd c) w1")
          (auto simp: handle_connecting_def so Let_def bindR_eq_Inr)
    next
      case False
      let ?c = "c\<lparr>target_fd := - 1, phase := CLOSING\<rparr>"
      have ed: "edatas (put_client p ?c (close_fd (target_fd c) w1)) d = Some e"
        using quiet_world(1) [OF so_error_quiet [OF so]] os_more_world(1) [OF close_fd_keeps(1), of "target_fd c" w1] e(1) by simp
      have "handle_client_n m my d ev (put_client p ?c (close_fd (target_fd c) w1)) = Inr w'"
        using h False by (simp add: handle_connecting_def so)
      from closing_moves [OF this ed e(2-4), of ?c c'] show ?thesis using c' by (simp add: unmoved_def)
    qed
  qed
qed (use run in simp)

lemma authenticating_moves:
  assumes inv: "world_inv w" and e: "edatas w d = Some e" "client_ptr e = p" "is_conn (fd_type e)" "d \<noteq> 0"
    and c: "clients w p = Some c" "phase c = AUTHENTICATING"
    and run: "handle_client_n n my d ev w = Inr w'" and c': "clients w' p = Some c'"
  shows "unmoved c c' \<or> admitted my w c'"
proof (cases n)
  case (Suc m)
  let ?req = "cstr (request_buffer c)"
  have p: "p \<noteq> 0" using inv c(1) by (auto simp: world_inv_def memory_ok_def)
  show ?thesis
  proof (cases "expired c")
    case True
    then have "w' = w" using handle_client_step [OF e(1), of c m my ev] run e c p Suc by simp
    then show ?thesis using c c' by (simp add: unmoved_def)
  next
    case nx: False
    then have h: "handle_authenticating my (handle_client_n m my d ev) p c w = Inr w'"
      using run handle_client_step [OF e(1), of c m my ev] e p c Suc by simp
    then obtain b w1 where v: "has_valid_auth my ?req w = Inr (b, w1)"
      by (cases "has_valid_auth my ?req w") (auto simp: handle_authenticating_def)
    have q: "quiet w w1" using has_valid_auth_quiet [OF v] by blast
    have ed: "edatas w1 d = Some e" using quiet_world(1) [OF q] e(1) by simp
    show ?thesis
    proof (cases b)
      case False
      then obtain w2 where s: "send_proxy_auth_required (client_fd c) w1 = Inr w2"
        "handle_client_n m my d ev (put_client p (c\<lparr>phase := CLOSING\<rparr>) w2) = Inr w'"
        using h by (cases "send_proxy_auth_required (client_fd c) w1") (auto simp: handle_authenticating_def v)
      have "quiet w1 w2" using auth_required_cases [OF s(1)] by (simp add: only_fd_def)
      then have "edatas w2 d = Some e" using quiet_world(1) ed by metis
      then have "unmoved (c\<lparr>phase := CLOSING\<rparr>) c'" using closing_moves [OF s(2), of e p "c\<lparr>phase := CLOSING\<rparr>" c'] e p c' by simp
      then show ?thesis by (simp add: unmoved_def)
    next
      case True
      have cred: "credentials my w ?req" using has_valid_auth_True v True by (auto simp: credentials_def)
      show ?thesis
      proof (cases "parse_host_port ?req")
        case None
        then have "w' = put_client p (c\<lparr>is_https := starts_with ''CONNECT '' ?req, phase := CLOSING\<rparr>) w1"
          using h True by (simp add: handle_authenticating_def v Let_def)
        then show ?thesis using c' by (auto simp: unmoved_def)
      next
        case (Some hp)
        obtain host' port' where hp: "hp = (host', port')" by fastforce
        let ?c = "c\<lparr>is_https := starts_with ''CONNECT '' ?req, host := host', port := port', phase := INITIALIZE_CONNECTION\<rparr>"
        have r: "handle_client_n m my d ev (put_client p ?c w1) = Inr w'"
          using h True Some hp by (simp add: handle_authenticating_def v Let_def)
        then obtain k where k: "m = Suc k" by (cases m) auto
        have i: "handle_initialize_connection p ?c (put_client p ?c w1) = Inr w'"
          using r handle_client_step [of "put_client p ?c w1" d e ?c k my ev] ed e p nx k by simp
        then have "host c' = host' \<and> port c' = port' \<and> request_buffer c' = request_buffer c"
          using initialize_keeps c' by fastforce
        moreover have "phase c' \<noteq> INITIALIZE_CONNECTION" using initialize_ends [OF i] c' by (auto simp: phase_in_def)
        ultimately show ?thesis using cred Some hp by (simp add: admitted_def)
      qed
    qed
  qed
qed (use run in simp)

lemma reading_moves:
  assumes inv: "world_inv w" and e: "edatas w d = Some e" "client_ptr e = p" "is_conn (fd_type e)" "d \<noteq> 0"
    and c: "clients w p = Some c" "phase c = READING_REQUEST"
    and run: "handle_client_n (Suc n) my d ev w = Inr w'" and c': "clients w' p = Some c'"
  shows "unmoved c c' \<or> admitted my w c'"
proof (cases "expired c")
  case True
  have p: "p \<noteq> 0" using inv c(1) by (auto simp: world_inv_def memory_ok_def)
  have "w' = w" using handle_client_step [OF e(1), of c n my ev] run e c p True by simp
  then show ?thesis using c c' by (simp add: unmoved_def)
next
  case nx: False
  have p: "p \<noteq> 0" using inv c(1) by (auto simp: world_inv_def memory_ok_def)
  have ok: "bufs_ok c" "target_fd c = - 1" using world_client_ok [OF inv c(1)] c(2) by (simp_all add: client_ok_def)
  have h: "handle_reading_request (handle_client_n n my d ev) p c w = Inr w'"
    using run handle_client_step [OF e(1), of c n my ev] e c p nx by simp
  then obtain r c1 w1 where rd: "read_request_nonblocking c w = Inr (r, c1, w1)"
    by (cases "read_request_nonblocking c w") (auto simp: handle_reading_request_def)
  have rc: "quiet w w1" "bufs_ok c1" "same_conn c c1" using read_request_cases [OF rd ok(1)] by simp_all
  have ed: "edatas w1 d = Some e" using quiet_world(1) [OF rc(1)] e(1) by simp
  consider "r < 0" | "r = 1" | "\<not> r < 0" "r \<noteq> 1" by blast
  then show ?thesis
  proof cases
    case 1
    then have "handle_client_n n my d ev (put_client p (c1\<lparr>phase := CLOSING\<rparr>) w1) = Inr w'"
      using h by (simp add: handle_reading_request_def rd)
    from closing_moves [OF this, of e p "c1\<lparr>phase := CLOSING\<rparr>" c'] show ?thesis
      using ed e c' p rc(3) by (simp add: unmoved_def same_conn_def)
  next
    case 2
    let ?c = "c1\<lparr>phase := AUTHENTICATING\<rparr>"
    let ?w = "put_client p ?c w1"
    have "client_ok ?c" using rc(2,3) ok(2) by (simp add: client_ok_def bufs_ok_def same_conn_def)
    then have "world_inv ?w"
      using put_client_inv [of w1 p c ?c] quiet_world(2,8) [OF rc(1)] inv c(1) rc(3) by (simp add: same_conn_def)
    moreover have "handle_client_n n my d ev ?w = Inr w'" using h 2 by (simp add: handle_reading_request_def rd)
    moreover have "edatas ?w d = Some e" "clients ?w p = Some ?c" "phase ?c = AUTHENTICATING" using ed by simp_all
    ultimately have "unmoved ?c c' \<or> admitted my ?w c'"
      using authenticating_moves [of ?w d e p ?c n my ev w' c'] e c' by blast
    moreover have "credentials my ?w = credentials my w"
      using read_request_auth [OF rd] cached_cong [of ?w w] by (simp add: credentials_def fun_eq_iff put_client_def)
    ultimately show ?thesis using rc(3) by (simp add: admitted_def unmoved_def same_conn_def)
  next
    case 3
    then have "clients w' p = Some c1" using h by (auto simp: handle_reading_request_def rd put_client_def)
    then show ?thesis using c' rc(3) c(2) by (auto simp: unmoved_def same_conn_def)
  qed
qed

text \<open>One event of a client which is not left between the check and the connection.\<close>

lemma client_moves:
  assumes inv: "world_inv w" and e: "edatas w d = Some e" "client_ptr e = p" "is_conn (fd_type e)" "d \<noteq> 0"
    and c: "clients w p = Some c" "phase c \<noteq> INITIALIZE_CONNECTION"
    and run: "handle_client my d ev w = Inr w'" and c': "clients w' p = Some c'"
  shows "unmoved c c' \<or> phase c \<in> {READING_REQUEST, AUTHENTICATING} \<and> admitted my w c'"
proof -
  have p: "p \<noteq> 0" using inv c(1) by (auto simp: world_inv_def memory_ok_def)
  have b: "bufs_ok c" using world_client_ok [OF inv c(1)] by (simp add: client_ok_def)
  have r: "handle_client_n (Suc 3) my d ev w = Inr w'" using run by (simp add: handle_client_def eval_nat_numeral)
  note st = handle_client_step [OF e(1), of c 3 my ev, unfolded e(2), OF c(1) e(4) p, unfolded r, symmetric]
  show ?thesis
  proof (cases "phase c")
    case FORWARDING
    then have "w' = w \<or> handle_forwarding (fd_type e) ev p c w = Inr w'" using st by (auto split: if_splits)
    moreover obtain x c1 w1 where "connection_forward (fd_type e) ev c w = Inr (x, c1, w1)" "forward_ok c w c1 w1"
      using connection_forward_ok [OF b] by blast
    ultimately show ?thesis
      using c(1) c' FORWARDING by (auto simp: handle_forwarding_def forward_ok_def same_conn_def unmoved_def split: if_splits)
  next
    case CLOSED
    then have "w' = w" using st by (auto split: if_splits)
    then show ?thesis using c c' by (simp add: unmoved_def)
  next
    case READING_REQUEST
    then show ?thesis using reading_moves [OF inv e c(1) _ r c'] by simp
  next
    case AUTHENTICATING
    then show ?thesis using authenticating_moves [OF inv e c(1) _ r c'] by simp
  next
    case CONNECTING
    then show ?thesis using connecting_moves [OF r e(1,4,2) p c(1) _ c'] by simp
  next
    case CLOSING
    then show ?thesis using closing_moves [OF r e(1,4,2) p c(1) _ c'] by simp
  qed (use c(2) in simp)
qed

text \<open>
  C8: the purpose of the proxy: when an event gives a client that is still sending its request,
  or being authenticated, a connection to a target, then the request it has sent carries valid
  credentials (a cached token, or a name with exactly the password the database holds), and the
  target is the host and port named by this same request.
\<close>

theorem no_connect_without_credentials:
  assumes "world_inv w" and "edatas w d = Some e" and "is_conn (fd_type e)" and "d \<noteq> 0"
    and "clients w (client_ptr e) = Some c" and "phase c \<in> {READING_REQUEST, AUTHENTICATING}"
    and "handle_client my d ev w = Inr w'" and "clients w' (client_ptr e) = Some c'" and "target_fd c' \<noteq> - 1"
  shows "(\<exists>tok. basic_auth_bytes (cstr (request_buffer c')) = Some tok \<and>
      (cached w tok \<or> (\<exists>u p. creds_of tok = Some (u, p) \<and> db_password my (db_conn w) u = Some p))) \<and>
    parse_host_port (cstr (request_buffer c')) = Some (host c', port c')"
proof -
  have "target_fd c = - 1" using world_client_ok [OF assms(1,5)] assms(6) by (auto simp: client_ok_def)
  then have "admitted my w c'"
    using client_moves [OF assms(1,2) refl assms(3-5) _ assms(7,8)] assms(6,9) by (auto simp: unmoved_def)
  then show ?thesis by (simp add: admitted_def credentials_def)
qed

text \<open>A client whose request, with the credentials of an account, has arrived.\<close>

definition bob_get :: string where
  "bob_get = ''GET / HTTP/1.1'' @ [CR, LF] @ ''Host: a.b:81'' @ [CR, LF] @ basic_header @ bob_token @ [CR, LF, CR, LF]"

definition asking_client :: client where
  "asking_client = (new_client 6 0)\<lparr>request_buffer := bob_get @ [NUL], request_len := length bob_get,
     phase := AUTHENTICATING\<rparr>"

definition asking_world :: "unit world" where
  "asking_world = idle_world\<lparr>clients := [3 \<mapsto> asking_client], dns := (\<lambda>_. Some ''10.0.0.1''),
     sockets := [Some plain_sock]\<rparr>"

lemma bob_get_facts:
  "length bob_get = 69" "cstr (bob_get @ [NUL]) = bob_get" "basic_auth_bytes bob_get = Some bob_token"
  "parse_host_port bob_get = Some (''a.b'', 81)"
  unfolding bob_get_def bob_token_def by code_simp+

lemma asking_client_simps [simp]:
  "client_fd asking_client = 6" "target_fd asking_client = - 1" "phase asking_client = AUTHENTICATING"
  "request_buffer asking_client = bob_get @ [NUL]" "\<not> expired asking_client" "slot asking_client = 0"
  by (simp_all add: asking_client_def new_client_def)

lemma asking_world_simps [simp]:
  "allocs asking_world = []" "clients asking_world = [3 \<mapsto> asking_client]" "connects asking_world = []"
  "edatas asking_world = edatas idle_world" "dns asking_world h = Some ''10.0.0.1''"
  "sockets asking_world = [Some plain_sock]" "opens asking_world = opens idle_world"
  "interest asking_world = interest idle_world" "brk asking_world = 5"
  by (simp_all add: asking_world_def opens_def sock_of_def) (simp add: idle_world_def)

lemma asking_world_inv: "world_inv asking_world"
proof -
  have "client_ok asking_client"
    by (simp add: client_ok_def bufs_ok_def buf_ok_def asking_client_def new_client_def MAX_BUFFER_SIZE_def bob_get_facts)
  then show ?thesis
    by (auto simp: world_inv_def memory_ok_def data_ok_def fd_of_def is_conn_def split: if_splits)
qed

lemma auth_frame_connects: "auth_frame st st' \<Longrightarrow> connects st' = connects (st :: ('s, 'z) os_scheme)"
  by (cases st; cases st'; simp add: auth_frame_def)

lemma initialize_target:
  assumes "connection_connect c w = Inr (0, c1, w1)"
  shows "\<exists>w' c'. handle_initialize_connection p c w = Inr w' \<and> clients w' p = Some c' \<and> target_fd c' = target_fd c1 \<and>
    expired c' = expired c1 \<and> is_https c' = is_https c1"
proof -
  obtain td w2 where 2: "epoll_create_data EPOLL_FD_TARGET p w1 = (td, w2)" by fastforce
  obtain ok w3 where 3: "epoll_add_fd (target_fd c1) EPOLLOUT td w2 = (ok, w3)" by fastforce
  show ?thesis by (cases ok) (simp_all add: handle_initialize_connection_def assms 2 3 put_client_def)
qed

lemma bob_connects_at:
  fixes w :: "unit world"
  assumes c: "clients w p = Some c" "phase c = AUTHENTICATING" "\<not> expired c" "request_buffer c = bob_get @ [NUL]" "p \<noteq> 0"
    and e: "edatas w d = Some e" "client_ptr e = p" "d \<noteq> 0"
    and k: "allocs w = []" "sockets w = [Some plain_sock]" "connects w = []" "\<And>h. dns w h = Some ''10.0.0.1''"
  shows "\<exists>w' c'. handle_client_n (Suc (Suc n)) bob_server d ev w = Inr w' \<and> clients w' p = Some c' \<and> target_fd c' \<noteq> - 1 \<and>
    \<not> expired c' \<and> \<not> is_https c'"
proof -
  obtain w1 where v: "has_valid_auth bob_server bob_get w = Inr (True, w1)"
    using has_valid_auth_accepts [OF k(1) bob_get_facts(3), of bob_server] bob_creds bob_password by auto
  have fr: "auth_frame w w1" using has_valid_auth_cases [OF v] by blast
  note w1 = auth_frame_os [OF fr] auth_frame_connects [OF fr]
  have ed: "edatas w1 = edatas w" using os_more_world(1) [OF w1(5)] by simp
  let ?c = "c\<lparr>is_https := starts_with ''CONNECT '' bob_get, host := ''a.b'', port := 81, phase := INITIALIZE_CONNECTION\<rparr>"
  let ?w = "put_client p ?c w1"
  have pw: "sockets ?w = [Some plain_sock]" "connects ?w = []" "dns ?w = dns w" "edatas ?w d = Some e"
    using w1 ed k(2,3) e(1) by (simp_all add: put_client_def)
  obtain fd w2 where o: "open_fd plain_sock (?w\<lparr>sockets := []\<rparr>) = (fd, w2)" by fastforce
  note op = sock_of_open [OF o]
  have cn: "connects (set_nonblocking fd w2) = []" using o pw(2) op(3)
    by (auto simp: open_fd_def Let_def set_nonblocking_def set_sock_def split: option.split)
  obtain y where y: "sock_of (set_nonblocking fd w2) fd = Some y"
    using op(3) set_nonblocking_quiet [of w2 fd] by (auto simp: quiet_def)
  obtain st where "connect fd a n (set_nonblocking fd w2) = (ConnInProgress, st a n)" for a n
    using cn y by (auto simp: connect_def set_sock_def)
  then have cc: "connection_connect ?c ?w = Inr (0, ?c\<lparr>target_fd := fd\<rparr>, st ''10.0.0.1'' (htons 81))"
    using pw o op(1) k(4) by (simp add: connection_connect_def socket_def Let_def)
  obtain w' c' where i: "handle_initialize_connection p ?c ?w = Inr w'" "clients w' p = Some c'" "target_fd c' = fd"
    "expired c' = expired c" "is_https c' = starts_with ''CONNECT '' bob_get"
    using initialize_target [OF cc, of p] by auto
  have "handle_client_n (Suc (Suc n)) bob_server d ev w = Inr w'"
    using handle_client_step [OF e(1), of c "Suc n" bob_server ev] handle_client_step [OF pw(4), of ?c n bob_server ev] c e(2,3) i(1)
    by (simp add: handle_authenticating_def bob_get_facts v Let_def)
  moreover have "\<not> starts_with ''CONNECT '' bob_get" unfolding bob_get_def by (simp add: starts_with_def)
  ultimately show ?thesis using i op(1) c(3) by simp
qed

lemma bob_connects:
  "\<exists>w' c'. handle_client bob_server 4 EPOLLIN asking_world = Inr w' \<and> clients w' 3 = Some c' \<and> target_fd c' \<noteq> - 1"
proof -
  have "\<exists>w' c'. handle_client_n (Suc (Suc 2)) bob_server 4 EPOLLIN asking_world = Inr w' \<and> clients w' 3 = Some c' \<and> target_fd c' \<noteq> - 1 \<and>
      \<not> expired c' \<and> \<not> is_https c'"
    by (rule bob_connects_at [where c = asking_client and e = "\<lparr>client_ptr = 3, fd_type = EPOLL_FD_CLIENT\<rparr>"]) simp_all
  then show ?thesis by (auto simp: handle_client_def eval_nat_numeral)
qed

theorem no_connect_without_credentials_witness:
  "\<exists>w' c'. handle_client bob_server 4 EPOLLIN asking_world = Inr w' \<and> clients w' 3 = Some c' \<and>
     basic_auth_bytes (cstr (request_buffer c')) \<noteq> None \<and>
     parse_host_port (cstr (request_buffer c')) = Some (host c', port c')"
proof -
  obtain w' c' where r: "handle_client bob_server 4 EPOLLIN asking_world = Inr w'" "clients w' 3 = Some c'" "target_fd c' \<noteq> - 1"
    using bob_connects by blast
  show ?thesis
    using no_connect_without_credentials [OF asking_world_inv, of 4 "\<lparr>client_ptr = 3, fd_type = EPOLL_FD_CLIENT\<rparr>" asking_client bob_server EPOLLIN w' c'] r
    by (auto simp: is_conn_def)
qed

theorem handle_client_bounded_witness:
  "handle_client_n 5 bob_server 4 EPOLLIN asking_world = handle_client bob_server 4 EPOLLIN asking_world"
  using handle_client_bounded [OF asking_world_inv, of 4 "\<lparr>client_ptr = 3, fd_type = EPOLL_FD_CLIENT\<rparr>" asking_client 5 bob_server EPOLLIN]
  by (simp add: is_conn_def)


end
