(* ===== verification/Handlers.thy ===== *)
theory Handlers
  imports Phases
begin

text \<open>
  What the handlers of \<open>src/main/proxy.c\<close> do for a client: reading its request, closing, and the
  behaviour at the edges, a full buffer, a target that epoll refuses, a client that has gone and a
  target that accepts at once.
\<close>

section \<open>Reading a request\<close>

abbreviation end_of_request :: string where
  "end_of_request \<equiv> [CR, LF, CR, LF]"

text \<open>One read, when the buffer does not have to grow and the piece fits it with its terminator.\<close>

lemma read_piece:
  assumes "request_len c < request_capacity c - 1" and "take (request_len c) (request_buffer c) = got"
    and "length got = request_len c"
    and "sock_of st (client_fd c) = Some s" and "rx s = Bytes b # r" and "b \<noteq> []"
    and "length (got @ b) < request_capacity c" and "c_string (got @ b)"
  shows "read_request_nonblocking c st =
    Inr (if sublist end_of_request (got @ b) then 1 else 0,
      c\<lparr>request_buffer := got @ b @ NUL # drop (Suc (length (got @ b))) (got @ b @ drop (length (got @ b)) (request_buffer c)),
        request_len := length (got @ b)\<rparr>,
      set_sock (client_fd c) (s\<lparr>rx := r\<rparr>) st)"
proof -
  have "cstr (got @ b @ NUL # t) = got @ b" for t using cstr_append_NUL [OF assms(8)] by simp
  moreover have "strstr (got @ b) end_of_request \<noteq> None \<longleftrightarrow> sublist end_of_request (got @ b)"
    by (simp add: strstr_None_iff)
  moreover have "recv (client_fd c) (size_diff (request_capacity c) (request_len c)) st =
      (Got b, set_sock (client_fd c) (s\<lparr>rx := r\<rparr>) st)"
    using assms(1,3-7) by (simp add: recv_def size_diff_def)
  moreover have "grow_request c st = (True, c, st)" using assms(1) by (simp add: grow_request_def)
  ultimately show ?thesis
    using assms(2,3,7) by (simp add: read_request_nonblocking_def buf_write_def Let_def)
qed

text \<open>
  The results of the reads that the events on a client socket cause, until all pieces have been
  read.
\<close>

fun read_events :: "nat \<Rightarrow> client \<Rightarrow> ('s, 'z) os_scheme \<Rightarrow> (int list \<times> client \<times> ('s, 'z) os_scheme) result" where
  "read_events 0 c st = Inr ([], c, st)"
| "read_events (Suc n) c st =
     bindR (read_request_nonblocking c st) (\<lambda>(r, c, st).
     bindR (read_events n c st) (\<lambda>(rs, c, st). Inr (r # rs, c, st)))"

lemma read_events_pieces:
  assumes "take (request_len c) (request_buffer c) = got" and "length got = request_len c"
    and "sock_of st (client_fd c) = Some s" and "rx s = map Bytes bs" and "[] \<notin> set bs" and "bs \<noteq> []"
    and "length (got @ concat bs) < request_capacity c" and "c_string (got @ concat bs)"
    and "\<not> sublist end_of_request (got @ concat (butlast bs))"
    and "sublist end_of_request (got @ concat bs)"
  shows "\<exists>c' st'. read_events (length bs) c st = Inr (replicate (length bs - 1) 0 @ [1], c', st') \<and>
    cstr (request_buffer c') = got @ concat bs \<and> request_len c' = length (got @ concat bs)"
  using assms
proof (induction bs arbitrary: got c st s)
  case (Cons b bs)
  have b: "b \<noteq> []" using Cons.prems(5) by auto
  have len: "request_len c < request_capacity c - 1" "length (got @ b) < request_capacity c"
    using Cons.prems(2,7) b by (cases b; simp)+
  have cs: "c_string (got @ b)" using Cons.prems(8) by simp
  let ?buf = "got @ b @ NUL # drop (Suc (length (got @ b))) (got @ b @ drop (length (got @ b)) (request_buffer c))"
  let ?c = "c\<lparr>request_buffer := ?buf, request_len := length (got @ b)\<rparr>"
  let ?st = "set_sock (client_fd c) (s\<lparr>rx := map Bytes bs\<rparr>) st"
  have rd: "read_request_nonblocking c st = Inr (if sublist end_of_request (got @ b) then 1 else 0, ?c, ?st)"
    using read_piece [OF len(1) Cons.prems(1,2,3) _ b len(2) cs] Cons.prems(4) by simp
  show ?case
  proof (cases "bs = []")
    case True
    have "cstr ?buf = got @ b" using cstr_append_NUL [OF cs] by simp
    then show ?thesis using True rd Cons.prems(10) by simp
  next
    case False
    have sock: "sock_of ?st (client_fd ?c) = Some (s\<lparr>rx := map Bytes bs\<rparr>)" using Cons.prems(3) by simp
    have "\<not> sublist end_of_request (got @ b)"
    proof
      assume "sublist end_of_request (got @ b)"
      then have "sublist end_of_request ((got @ b) @ concat (butlast bs))"
        by (metis append.assoc sublist_def)
      then show False using Cons.prems(9) False by simp
    qed
    then have rd0: "read_request_nonblocking c st = Inr (0, ?c, ?st)" using rd by simp
    have "\<exists>c' st'. read_events (length bs) ?c ?st = Inr (replicate (length bs - 1) 0 @ [1], c', st') \<and>
      cstr (request_buffer c') = (got @ b) @ concat bs \<and> request_len c' = length ((got @ b) @ concat bs)"
      using Cons.prems(5,7-10) False by (intro Cons.IH [OF _ _ sock]) auto
    then show ?thesis using rd0 False by (cases bs) auto
  qed
qed simp



text \<open>
  C30: the buffer of the request: a read overruns its block, by the terminator, exactly when the
  data waiting fills the rest of the block.
\<close>

theorem read_request_overflow:
  assumes "request_len c < request_capacity c - 1"
    and "sock_of st (client_fd c) = Some s" and "rx s = Bytes b # r" and "b \<noteq> []"
  shows "read_request_nonblocking c st = Inl HeapOverflow \<longleftrightarrow> request_capacity c \<le> request_len c + length b"
proof -
  let ?room = "request_capacity c - request_len c"
  obtain st' where "recv (client_fd c) (size_diff (request_capacity c) (request_len c)) st = (Got (take ?room b), st')"
  proof -
    have "size_diff (request_capacity c) (request_len c) = ?room" using assms(1) by (simp add: size_diff_def)
    moreover have "\<not> request_capacity c \<le> request_len c" using assms(1) by simp
    ultimately show thesis using that assms by (simp add: recv_def)
  qed
  moreover have "grow_request c st = (True, c, st)" using assms(1) by (simp add: grow_request_def)
  ultimately show ?thesis
    using assms(1) by (auto simp: read_request_nonblocking_def buf_write_def Let_def)
qed

theorem read_request_overflow_witness:
  "read_request_nonblocking (new_client 3 0) (pipe_os\<lparr>fds := [None, None, None,
     Some (pipe_sock [replicate 4096 (CHR ''a'')])]\<rparr>) = Inl HeapOverflow"
proof -
  have "sock_of (pipe_os\<lparr>fds := [None, None, None, Some (pipe_sock [replicate 4096 (CHR ''a'')])]\<rparr>) 3 =
    Some (pipe_sock [replicate 4096 (CHR ''a'')])"
    by (simp add: sock_of_def)
  from read_request_overflow [of "new_client 3 0", OF _ _ _ , of _ "pipe_sock [replicate 4096 (CHR ''a'')]" "replicate 4096 (CHR ''a'')" "[]"] this
  show ?thesis by (simp add: new_client_def MAX_BUFFER_SIZE_def pipe_sock_def)
qed

section \<open>Closing\<close>

lemma handle_client_Suc: "handle_client my d ev w = handle_client_n (Suc 3) my d ev w"
  by (simp add: handle_client_def eval_nat_numeral)

lemma closing_spec:
  assumes inv: "world_inv w" and e: "edatas w d = Some e" "is_conn (fd_type e)" "d \<noteq> 0"
    and c: "clients w (client_ptr e) = Some c" "phase c = CLOSING" "\<not> expired c"
  shows "\<exists>w'. handle_client my d ev w = Inr w' \<and>
    sock_of w' = (sock_of w)(client_fd c := None, target_fd c := None) \<and>
    interest w' = (interest w)(client_fd c := None, target_fd c := None) \<and> edatas w' d = None \<and>
    clients w' = (clients w)(client_ptr e \<mapsto> c\<lparr>expired := True, client_fd := - 1, target_fd := - 1\<rparr>)"
proof -
  have p: "client_ptr e \<noteq> 0" using inv c by (auto simp: world_inv_def memory_ok_def)
  let ?w1 = "drop_fd (client_fd c) w"
  let ?w2 = "drop_fd (target_fd c) ?w1"
  note d1 = drop_world [OF inv, where fd = "client_fd c"]
  note d2 = drop_world [OF d1(5), where fd = "target_fd c"]
  have so: "sock_of (?w2\<lparr>clients := a, edatas := b\<rparr>) = sock_of ?w2" for a b by (rule ext) simp
  have "handle_client my d ev w = handle_closing d (client_ptr e) c w"
    using handle_client_step [OF e(1) c(1) e(3) p, of 3 my ev] c(2,3) by (simp add: handle_client_Suc)
  then show ?thesis
    using d1 d2 e(1,3) by (simp add: handle_closing_def free_edata_def put_client_def so)
qed


definition closing_world :: "unit world" where
  "closing_world = idle_world\<lparr>clients := [3 \<mapsto> (new_client 6 0)\<lparr>phase := CLOSING\<rparr>]\<rparr>"

text \<open>The proxy with one client, of any state.\<close>

lemma idle_world_client:
  assumes "client_ok c" and "client_fd c = 6"
  shows "world_inv (idle_world\<lparr>clients := [3 \<mapsto> c]\<rparr>)"
proof -
  have "opens (idle_world\<lparr>clients := [3 \<mapsto> c]\<rparr>) = {0..<7}" using idle_world_opens by (simp add: opens_def)
  then show ?thesis
    using assms by (auto simp: world_inv_def memory_ok_def data_ok_def fd_of_def is_conn_def split: if_splits)
qed

lemma closing_world_inv: "world_inv closing_world"
  unfolding closing_world_def
proof (rule idle_world_client)
  show "client_ok ((new_client 6 0)\<lparr>phase := CLOSING\<rparr>)"
    using new_client_ok [of 6 0] by (simp add: client_ok_def bufs_ok_def)
qed (simp add: new_client_def)


section \<open>A target that cannot be watched\<close>

lemma connect_ctl_fails:
  assumes "connection_connect c st = Inr (r, c', st')"
  shows "ctl_fails st' = ctl_fails st"
proof -
  have s: "ctl_fails st2 = ctl_fails st1" if "send f fd b st1 = Inr (x, st2)" for f fd b x and st1 st2 :: "('a, 'b) os_scheme"
    using that by (auto simp: send_def set_sock_def split: option.splits list.splits tx.splits if_splits)
  have "ctl_fails (set_nonblocking fd st1) = ctl_fails st1" for fd and st1 :: "('a, 'b) os_scheme"
    by (simp add: set_nonblocking_def set_sock_def split: option.split)
  moreover have "ctl_fails (snd (socket st)) = ctl_fails st"
    by (auto simp: socket_def open_fd_def Let_def split: list.split option.split)
  moreover have "ctl_fails (snd (connect fd a n st1)) = ctl_fails st1" for fd a n and st1 :: "('a, 'b) os_scheme"
    by (auto simp: connect_def set_sock_def Let_def split: list.split option.split)
  moreover have "ctl_fails (close_fd fd st1) = ctl_fails st1" for fd and st1 :: "('a, 'b) os_scheme"
    by (simp add: close_fd_def)
  moreover have "ctl_fails st2 = ctl_fails st1" if "send_https_established fd st1 = Inr st2" for fd and st1 st2 :: "('a, 'b) os_scheme"
    using that s by (auto simp: send_https_established_def bindR_eq_Inr)
  ultimately show ?thesis
    using assms
    by (auto simp: connection_connect_def Let_def bindR_eq_Inr split: option.splits prod.splits conn.splits if_splits)
      (metis prod.collapse snd_conv)+
qed

text \<open>
  C31: when \<open>epoll_ctl\<close> refuses the new target, the descriptor is closed but stays in the client,
  and the closing handler closes it a second time: if it has been given to another connection in
  the meantime, this closes the other connection.
\<close>

theorem stale_target_closed_again:
  assumes "world_inv w" and "edatas w d = Some e" and "is_conn (fd_type e)" and "d \<noteq> 0"
    and "clients w (client_ptr e) = Some c" and "phase c = INITIALIZE_CONNECTION" and "\<not> expired c"
    and "connection_connect c w = Inr (r, c1, w1)" and "r \<noteq> - 1" and "ctl_fails w = True # fs"
  shows "\<exists>w2. handle_client my d ev w = Inr w2 \<and> sock_of w2 (target_fd c1) = None \<and>
    (\<forall>s w3. open_fd s w2 = (target_fd c1, w3) \<longrightarrow> sock_of w3 (target_fd c1) = Some s \<and>
      (\<exists>w4. handle_client my d ev w3 = Inr w4 \<and> sock_of w4 (target_fd c1) = None))"
proof -
  let ?p = "client_ptr e" and ?t = "target_fd c1"
  have p: "?p \<noteq> 0" using assms(1,5) by (auto simp: world_inv_def memory_ok_def)
  note cc = connection_connect_cases [OF assms(8)]
  have rest: "edatas w1 = edatas w" "brk w1 = brk w" "clients w1 = clients w"
    using rest_world [of w w1] cc by auto
  obtain td w2 where td: "epoll_create_data EPOLL_FD_TARGET ?p w1 = (td, w2)" by fastforce
  have dl: "d < brk w" using assms(1,2) by (auto simp: world_inv_def memory_ok_def)
  have c2: "ctl_fails w2 = True # fs" "edatas w2 d = Some e" "clients w2 = clients w"
    using td connect_ctl_fails [OF assms(8)] assms(2,10) dl rest
    by (auto simp: epoll_create_data_def malloc_def Let_def split: prod.splits if_splits)
  obtain w3 where add: "epoll_add_fd ?t EPOLLOUT td w2 = (False, w3)" "w3 = w2\<lparr>ctl_fails := fs\<rparr>"
    using c2(1) by (simp add: epoll_add_fd_def ctl_ok_def)
  let ?c = "c1\<lparr>phase := CLOSING\<rparr>"
  let ?w = "put_client ?p ?c (close_fd ?t w3)"
  have "handle_client my d ev w = handle_initialize_connection ?p c w"
    using handle_client_step [OF assms(2,5,4) p, of 3 my ev] assms(6,7) by (simp add: handle_client_Suc)
  then have h: "handle_client my d ev w = Inr ?w"
    using assms(9) by (simp add: handle_initialize_connection_def assms(8) td add(1) Let_def)
  have inv: "world_inv ?w" using handle_client_safe [OF assms(1-3,5,4), of my ev] h by simp
  have gone: "sock_of ?w ?t = None" by simp
  have ex: "expired c1 = expired c"
  proof -
    obtain t l where "c1 = c\<lparr>target_fd := t, request_len := l\<rparr>" using cc by blast
    then show ?thesis by simp
  qed
  have "sock_of w4 ?t = Some s \<and> (\<exists>w5. handle_client my d ev w4 = Inr w5 \<and> sock_of w5 ?t = None)"
    if o: "open_fd s ?w = (?t, w4)" for s w4
  proof -
    note ow = open_world [OF o inv]
    have ed: "edatas w4 d = Some e" using ow(2) c2(2) add(2) by (simp add: close_fd_def)
    have cl: "clients w4 ?p = Some ?c" using ow(3) by simp
    obtain w5 where "handle_client my d ev w4 = Inr w5" "sock_of w5 = (sock_of w4)(client_fd ?c := None, target_fd ?c := None)"
      using closing_spec [OF ow(1) ed assms(3,4) cl, of my ev] ex assms(7) by auto
    then show ?thesis using sock_of_open(3) [OF o] by auto
  qed
  then show ?thesis using h gone by blast
qed

definition starting_world :: "unit world" where
  "starting_world = idle_world\<lparr>clients := [3 \<mapsto> (new_client 6 0)\<lparr>phase := INITIALIZE_CONNECTION\<rparr>],
     dns := (\<lambda>_. Some ''10.0.0.1''), sockets := [Some plain_sock], ctl_fails := [True]\<rparr>"

lemma starting_world_inv: "world_inv starting_world"
proof -
  let ?w = "idle_world\<lparr>clients := [3 \<mapsto> (new_client 6 0)\<lparr>phase := INITIALIZE_CONNECTION\<rparr>]\<rparr>"
  have "client_ok ((new_client 6 0)\<lparr>phase := INITIALIZE_CONNECTION\<rparr>)"
    using new_client_ok [of 6 0] by (simp add: client_ok_def bufs_ok_def new_client_def)
  then have "world_inv ?w" by (rule idle_world_client) (simp add: new_client_def)
  moreover have "opens starting_world = opens ?w" by (simp add: starting_world_def opens_def sock_of_def)
  ultimately show ?thesis by (simp add: world_inv_def starting_world_def)
qed

theorem stale_target_closed_again_witness:
  "\<exists>w2 w3 w4. handle_client bob_server 4 EPOLLIN starting_world = Inr w2 \<and> sock_of w2 7 = None \<and>
     open_fd plain_sock w2 = (7, w3) \<and> handle_client bob_server 4 EPOLLIN w3 = Inr w4 \<and> sock_of w4 7 = None"
proof -
  let ?c = "(new_client 6 0)\<lparr>phase := INITIALIZE_CONNECTION\<rparr>"
  let ?e = "\<lparr>client_ptr = 3, fd_type = EPOLL_FD_CLIENT\<rparr>"
  obtain w1 where cc: "connection_connect ?c starting_world = Inr (0, ?c\<lparr>target_fd := 7\<rparr>, w1)"
    and f1: "\<exists>s. fds w1 = replicate 7 (Some plain_sock) @ [Some s]" "ctl_fails w1 = [True]" "allocs w1 = []"
    by (auto simp: connection_connect_def starting_world_def idle_world_def socket_def open_fd_def fresh_fd_def
        Let_def set_nonblocking_def set_sock_def sock_of_def connect_def nth_append list_update_append new_client_def)
  have st: "edatas starting_world 4 = Some ?e" "clients starting_world 3 = Some ?c" "ctl_fails starting_world = True # []"
    by (simp_all add: starting_world_def)
  obtain w2 where w2: "handle_client bob_server 4 EPOLLIN starting_world = Inr w2" "sock_of w2 7 = None"
    "\<forall>s w3. open_fd s w2 = (7, w3) \<longrightarrow> sock_of w3 7 = Some s \<and>
      (\<exists>w4. handle_client bob_server 4 EPOLLIN w3 = Inr w4 \<and> sock_of w4 7 = None)"
    using stale_target_closed_again [OF starting_world_inv st(1) _ _ _ _ _ cc, of "[]" bob_server EPOLLIN] st
    by (auto simp: is_conn_def new_client_def)
  have c: "\<not> expired ?c" "phase ?c = INITIALIZE_CONNECTION" by (simp_all add: new_client_def)
  have "handle_client bob_server 4 EPOLLIN starting_world = handle_initialize_connection 3 ?c starting_world"
    using handle_client_step [OF st(1), of ?c 3 bob_server EPOLLIN] st(2) c by (simp add: handle_client_Suc)
  then have "fds w2 = replicate 7 (Some plain_sock) @ [None]"
    using f1 w2(1)
    by (auto simp: handle_initialize_connection_def cc Let_def epoll_create_data_def malloc_def epoll_add_fd_def
        ctl_ok_def put_client_def close_fd_def sock_of_def nth_append list_update_append)
  then have "fst (open_fd plain_sock w2) = 7"
    by (simp add: open_fd_def fresh_fd_def Let_def eval_nat_numeral)
  then obtain w3 where "open_fd plain_sock w2 = (7, w3)" by (metis prod.collapse)
  then show ?thesis using w2 by blast
qed

section \<open>A client that has reset its connection\<close>

text \<open>
  C32: a request that is turned away is answered with a plain \<open>send\<close>; if its sender has reset
  the connection in the meantime, the signal this raises ends the proxy and with it every other
  connection.
\<close>

theorem rejected_reset_kills_proxy:
  assumes "edatas w d = Some e" and "d \<noteq> 0" and "client_ptr e \<noteq> 0"
    and "clients w (client_ptr e) = Some c" and "phase c = AUTHENTICATING" and "\<not> expired c"
    and "has_valid_auth my (cstr (request_buffer c)) w = Inr (False, w1)"
    and "sock_of w (client_fd c) = Some s" and "tx s = TxPipe # r"
  shows "handle_client my d ev w = Inl Killed"
proof -
  have "sock_of w1 = sock_of w" using has_valid_auth_quiet [OF assms(7)] by (simp add: sock_of_def fun_eq_iff)
  then have "send_proxy_auth_required (client_fd c) w1 = Inl Killed"
    using assms(8,9) by (simp add: send_proxy_auth_required_def send_def)
  then show ?thesis
    using handle_client_step [OF assms(1,4,2,3), of 3 my ev] assms(5,6)
    by (simp add: handle_client_Suc handle_authenticating_def assms(7))
qed

definition reset_world :: "unit world" where
  "reset_world = idle_world\<lparr>clients := [3 \<mapsto> (new_client 6 0)\<lparr>request_buffer := [CR, LF, CR, LF, NUL], request_len := 4,
       phase := AUTHENTICATING\<rparr>],
     fds := (fds idle_world)[6 := Some (plain_sock\<lparr>tx := [TxPipe]\<rparr>)]\<rparr>"

theorem rejected_reset_kills_proxy_witness:
  "handle_client bob_server 4 EPOLLIN reset_world = Inl Killed"
proof -
  have b: "basic_auth_bytes [CR, LF, CR, LF] = None" "cstr [CR, LF, CR, LF, NUL] = [CR, LF, CR, LF]" by code_simp+
  obtain w1 where "has_valid_auth bob_server [CR, LF, CR, LF] reset_world = Inr (False, w1)"
    using b(1) by (auto simp: has_valid_auth_Nil reset_world_def auth_rest_defs extract_basic_auth_b64_def Let_def)
  moreover have "sock_of reset_world 6 = Some (plain_sock\<lparr>tx := [TxPipe]\<rparr>)"
    by (simp add: sock_of_def reset_world_def) (simp add: idle_world_def)
  ultimately show ?thesis
    using rejected_reset_kills_proxy [of reset_world 4 "\<lparr>client_ptr = 3, fd_type = EPOLL_FD_CLIENT\<rparr>"
        "(new_client 6 0)\<lparr>request_buffer := [CR, LF, CR, LF, NUL], request_len := 4, phase := AUTHENTICATING\<rparr>" bob_server w1
        "plain_sock\<lparr>tx := [TxPipe]\<rparr>" "[]" EPOLLIN] b(2)
    by (simp add: reset_world_def new_client_def)
qed

section \<open>The answer to CONNECT\<close>

lemma register_socks:
  assumes "register_forwarding_fds p c w = Inr (b, w')"
  shows "sock_of w' = sock_of w"
proof -
  have cd: "sock_of w' = sock_of w" if "epoll_create_data t q w = (x, w')" for t q x and w w' :: "'a world"
    using that by (auto simp: epoll_create_data_def malloc_def Let_def fun_eq_iff sock_of_def split: prod.splits if_splits)
  have md: "sock_of w' = sock_of w" if "epoll_mod_fd fd ev x w = (ok, w')" for fd ev x ok and w w' :: "'a world"
    using epoll_mod_cases [OF that] by simp
  have fr: "sock_of (w\<lparr>edatas := ed\<rparr>) = sock_of w" for ed and w :: "'a world" by (rule ext) simp
  obtain x w1 where 1: "epoll_create_data EPOLL_FD_CLIENT p w = (x, w1)" by fastforce
  obtain ok w2 where 2: "epoll_mod_fd (client_fd c) (or EPOLLIN EPOLLOUT) x w1 = (ok, w2)" by fastforce
  obtain y w3 where 3: "epoll_create_data EPOLL_FD_TARGET p w2 = (y, w3)" by fastforce
  obtain ok2 w4 where 4: "epoll_mod_fd (target_fd c) (or EPOLLIN EPOLLOUT) y w3 = (ok2, w4)" by fastforce
  show ?thesis
    using assms cd [OF 1] md [OF 2] cd [OF 3] md [OF 4]
    by (auto simp: register_forwarding_fds_def 1 2 3 4 free_edata_def fr split: if_splits)
qed

text \<open>What a CONNECT client has been sent when its connection has been started.\<close>

lemma initialize_https:
  assumes "sock_of w (client_fd c) = Some s" and "tx s = []" and "is_https c" and "dns w (host c) = Some addr"
    and "sockets w = Some t # ts" and "connects w = cn # cs" and "cn \<in> {ConnNow, ConnInProgress}"
    and "so_errors w = []"
  shows "\<exists>c1 w1. handle_initialize_connection p c w = Inr w1 \<and> clients w1 p = Some c1 \<and>
    (phase c1 = CONNECTING \<longrightarrow> is_https c1 \<and> client_fd c1 = client_fd c \<and> sock_of w1 (target_fd c1) \<noteq> None \<and>
      so_errors w1 = [] \<and>
      sock_of w1 (client_fd c) = Some (s\<lparr>sent := sent s @ (if cn = ConnNow then established else [])\<rparr>))"
proof -
  obtain fd w2 where o: "open_fd t (w\<lparr>sockets := ts\<rparr>) = (fd, w2)" by fastforce
  note op = sock_of_open [OF o]
  have sk: "sock_of (w\<lparr>sockets := ts\<rparr>) x = sock_of w x" for x by (simp add: sock_of_def)
  have ne: "fd \<noteq> client_fd c" using op(2) assms(1) sk by auto
  have k2: "connects w2 = cn # cs" "so_errors w2 = []" "dns w2 = dns w"
    using o assms(6,8) by (auto simp: open_fd_def Let_def)
  obtain w3 where w3: "set_nonblocking fd w2 = w3" by blast
  have k3: "connects w3 = cn # cs" "so_errors w3 = []" "sock_of w3 (client_fd c) = Some s" "sock_of w3 fd \<noteq> None"
  proof -
    have w2: "sock_of w2 fd = Some t" "sock_of w2 (client_fd c) = Some s" using op(3) ne sk assms(1) by simp_all
    then have "w3 = set_sock fd (t\<lparr>nonblocking := True\<rparr>) w2" unfolding w3 [symmetric] by (simp add: set_nonblocking_def)
    then show "connects w3 = cn # cs" "so_errors w3 = []" "sock_of w3 (client_fd c) = Some s" "sock_of w3 fd \<noteq> None"
      using w2 ne k2 by (simp_all, simp_all add: set_sock_def)
  qed
  then obtain y where y: "sock_of w3 fd = Some y" by blast
  obtain w4 where w4: "connect fd addr (htons (port c)) w3 = (cn, w4)" "so_errors w4 = []"
      "sock_of w4 (client_fd c) = Some s" "sock_of w4 fd \<noteq> None"
  proof -
    let ?w4 = "(set_sock fd (y\<lparr>peer := Some (addr, htons (port c))\<rparr>) w3)\<lparr>connects := cs\<rparr>"
    have "sock_of ?w4 x = sock_of (set_sock fd (y\<lparr>peer := Some (addr, htons (port c))\<rparr>) w3) x" for x
      by (simp add: sock_of_def)
    moreover have "connect fd addr (htons (port c)) w3 = (cn, ?w4)"
      using y k3(1) by (simp add: connect_def Let_def) (simp add: set_sock_def)
    moreover have "so_errors ?w4 = []" using k3(2) by (simp add: set_sock_def)
    ultimately show thesis using that k3(3) y ne by simp
  qed
  obtain w5 l where w5: "connection_connect c w = Inr (if cn = ConnNow then 1 else 0, c\<lparr>target_fd := fd, request_len := l\<rparr>, w5)"
    "so_errors w5 = []" "sock_of w5 fd \<noteq> None"
    "sock_of w5 (client_fd c) = Some (s\<lparr>sent := sent s @ (if cn = ConnNow then established else [])\<rparr>)"
  proof (cases "cn = ConnNow")
    case True
    let ?w5 = "set_sock (client_fd c) (s\<lparr>sent := sent s @ established\<rparr>) w4"
    have "send_https_established (client_fd c) w4 = Inr ?w5"
      using w4(3) assms(2) by (simp add: send_https_established_def send_def)
    then have "connection_connect c w = Inr (1, c\<lparr>target_fd := fd, request_len := 0\<rparr>, ?w5)"
      using assms(3-5) o op(1) w4(1) True by (simp add: connection_connect_def socket_def Let_def w3)
    moreover have "so_errors ?w5 = []" using w4(2) by (simp add: set_sock_def)
    ultimately show thesis using that [of 0 ?w5] True w4(3,4) ne by simp
  next
    case False
    then have "connection_connect c w = Inr (0, c\<lparr>target_fd := fd\<rparr>, w4)"
      using assms(4,5,7) o op(1) w4(1) by (simp add: connection_connect_def socket_def Let_def w3)
    then show thesis using that [of "request_len c" w4] False w4(2-4) by simp
  qed
  obtain td w6 where td: "epoll_create_data EPOLL_FD_TARGET p w5 = (td, w6)" by fastforce
  obtain ok w7 where add: "epoll_add_fd fd EPOLLOUT td w6 = (ok, w7)" by fastforce
  have "sock_of w7 = sock_of w6" using epoll_add_cases [OF add] by simp
  moreover have "sock_of w6 = sock_of w5" "so_errors w6 = so_errors w5"
    using td by (auto simp: epoll_create_data_def malloc_def Let_def fun_eq_iff sock_of_def split: prod.splits if_splits)
  moreover have "so_errors w7 = so_errors w6"
    using add by (auto simp: epoll_add_fd_def ctl_ok_def split: list.splits if_splits)
  ultimately have w7: "so_errors w7 = []" "sock_of w7 fd \<noteq> None"
    "sock_of w7 (client_fd c) = Some (s\<lparr>sent := sent s @ (if cn = ConnNow then established else [])\<rparr>)"
    using w5 by simp_all
  have so: "so_errors (put_client p x v) = so_errors v" for x and v :: "'a world" by (simp add: put_client_def)
  let ?c = "c\<lparr>target_fd := fd, request_len := l\<rparr>"
  have r: "(if cn = ConnNow then 1 else 0 :: int) \<noteq> - 1" by simp
  show ?thesis
  proof (cases ok)
    case True
    then have "handle_initialize_connection p c w = Inr (put_client p (?c\<lparr>phase := CONNECTING\<rparr>) w7)"
      using r by (simp add: handle_initialize_connection_def w5(1) td add Let_def)
    then show ?thesis using w7 assms(3) so by simp
  next
    case False
    then have "handle_initialize_connection p c w = Inr (put_client p (?c\<lparr>phase := CLOSING\<rparr>) (close_fd fd w7))"
      using r by (simp add: handle_initialize_connection_def w5(1) td add Let_def)
    then show ?thesis by simp
  qed
qed

text \<open>
  A tunnel to a target that accepts at once: the client is told twice that the connection is
  established, and reads the second answer as the first bytes from the target. When the
  connection takes longer it is told once.
\<close>

theorem established_twice:
  assumes "sock_of w (client_fd c) = Some s" and "tx s = []" and "is_https c" and "dns w (host c) = Some addr"
    and "sockets w = Some t # ts" and "connects w = cn # cs" and "cn \<in> {ConnNow, ConnInProgress}"
    and "handle_initialize_connection p c w = Inr w1" and "clients w1 p = Some c1" and "phase c1 = CONNECTING"
    and "so_errors w = []" and "handle_connecting again p c1 w1 = Inr w2"
  shows "sent_to w2 (client_fd c) = sent s @ (if cn = ConnNow then established @ established else established)"
proof -
  let ?s = "s\<lparr>sent := sent s @ (if cn = ConnNow then established else [])\<rparr>"
  have c1: "is_https c1" "client_fd c1 = client_fd c" "sock_of w1 (target_fd c1) \<noteq> None" "so_errors w1 = []"
    "sock_of w1 (client_fd c) = Some ?s"
    using initialize_https [OF assms(1-7,11), of p] assms(8-10) by auto
  have so: "so_error (target_fd c1) w1 = (Some 0, w1)" using c1(3,4) by (auto simp: so_error_def)
  let ?w = "set_sock (client_fd c) (?s\<lparr>sent := sent ?s @ established\<rparr>) w1"
  have "send_https_established (client_fd c) w1 = Inr ?w"
    using c1(5) assms(2) by (simp add: send_https_established_def send_def)
  then obtain b where "register_forwarding_fds p (c1\<lparr>request_len := 0, response_len := 0, phase := FORWARDING\<rparr>)
      (put_client p (c1\<lparr>request_len := 0, response_len := 0, phase := FORWARDING\<rparr>) ?w) = Inr (b, w2)"
    using assms(12) c1(1,2) by (auto simp: handle_connecting_def so Let_def bindR_eq_Inr)
  from register_socks [OF this] show ?thesis using c1(5) by (simp add: sent_to_def)
qed

definition tunnel_client :: client where
  "tunnel_client = (new_client 6 0)\<lparr>phase := INITIALIZE_CONNECTION, is_https := True\<rparr>"

definition tunnel_world :: "unit world" where
  "tunnel_world = idle_world\<lparr>clients := [3 \<mapsto> tunnel_client], dns := (\<lambda>_. Some ''10.0.0.1''),
     sockets := [Some plain_sock], connects := [ConnNow]\<rparr>"

lemma tunnel_client_simps [simp]:
  "client_fd tunnel_client = 6" "is_https tunnel_client" "phase tunnel_client = INITIALIZE_CONNECTION"
  by (simp_all add: tunnel_client_def new_client_def)

lemma tunnel_starts:
  "\<exists>w1 c1. handle_initialize_connection 3 tunnel_client tunnel_world = Inr w1 \<and> clients w1 3 = Some c1 \<and>
     phase c1 = CONNECTING \<and> (\<exists>w2. handle_connecting (\<lambda>w. Inr w) 3 c1 w1 = Inr w2)"
proof -
  obtain w1 s t where cc: "connection_connect tunnel_client tunnel_world =
      Inr (1, tunnel_client\<lparr>target_fd := 7, request_len := 0\<rparr>, w1)"
    and f1: "fds w1 = replicate 6 (Some plain_sock) @ [Some s, Some t]" "ctl_fails w1 = []" "allocs w1 = []" "tx s = []"
      "interest w1 = interest idle_world" "edatas w1 = edatas idle_world" "brk w1 = 5" "so_errors w1 = []"
    by (auto simp: connection_connect_def tunnel_world_def idle_world_def socket_def open_fd_def fresh_fd_def
        Let_def set_nonblocking_def set_sock_def sock_of_def connect_def nth_append list_update_append
        send_https_established_def send_def eval_nat_numeral plain_sock_def)
  have s1: "sock_of w1 7 = Some t" "sock_of w1 6 = Some s" using f1(1) by (simp_all add: sock_of_def nth_append)
  show ?thesis
    using f1 s1
    by (simp add: handle_initialize_connection_def cc Let_def epoll_create_data_def malloc_def epoll_add_fd_def ctl_ok_def
        put_client_def sock_of_def nth_append handle_connecting_def so_error_def send_https_established_def send_def
        set_sock_def register_forwarding_fds_def epoll_mod_fd_def list_update_append)
qed

theorem established_twice_witness:
  "\<exists>w1 c1 w2. handle_initialize_connection 3 tunnel_client tunnel_world = Inr w1 \<and>
     handle_connecting (\<lambda>w. Inr w) 3 c1 w1 = Inr w2 \<and> sent_to w2 6 = established @ established"
proof -
  obtain w1 c1 w2 where r: "handle_initialize_connection 3 tunnel_client tunnel_world = Inr w1" "clients w1 3 = Some c1"
    "phase c1 = CONNECTING" "handle_connecting (\<lambda>w. Inr w) 3 c1 w1 = Inr w2"
    using tunnel_starts by blast
  have "sock_of tunnel_world 6 = Some plain_sock" by (simp add: tunnel_world_def sock_of_def idle_world_def)
  from established_twice [of tunnel_world tunnel_client plain_sock "''10.0.0.1''" plain_sock "[]" ConnNow "[]" 3 w1 c1
      "\<lambda>w. Inr w" w2] this r
  show ?thesis by (auto simp: tunnel_world_def plain_sock_def idle_world_def)
qed

end
