(* ===== verification/Logger.thy ===== *)
theory Logger
  imports CLib
begin

text \<open>
  The logger (\<open>src/core/logger.c\<close>) and the two output streams of a process. A message is the
  text its format and arguments give; the local time is a text in the state.
\<close>

section \<open>Streams and levels\<close>

datatype stream = Stdout | Stderr

datatype log_level = LOG_DEBUG_ULTRA | LOG_DEBUG | LOG_INFO | LOG_WARN | LOG_ERROR

text \<open>The value of the enumeration, by which levels are compared.\<close>

fun level_num :: "log_level \<Rightarrow> nat" where
  "level_num LOG_DEBUG_ULTRA = 0"
| "level_num LOG_DEBUG = 1"
| "level_num LOG_INFO = 2"
| "level_num LOG_WARN = 3"
| "level_num LOG_ERROR = 4"

instantiation log_level :: linorder
begin

definition less_eq_log_level :: "log_level \<Rightarrow> log_level \<Rightarrow> bool" where
  "a \<le> b \<longleftrightarrow> level_num a \<le> level_num b"

definition less_log_level :: "log_level \<Rightarrow> log_level \<Rightarrow> bool" where
  "a < b \<longleftrightarrow> level_num a < level_num b"

instance
proof
  fix a b :: log_level
  show "a = b" if "a \<le> b" "b \<le> a"
    using that by (cases a; cases b) (simp_all add: less_eq_log_level_def)
qed (auto simp: less_eq_log_level_def less_log_level_def)

end

abbreviation ESC :: char where "ESC \<equiv> CHR 0x1B"

definition COLOR_RESET :: string where "COLOR_RESET = ESC # ''[0m''"
definition COLOR_RED :: string where "COLOR_RED = ESC # ''[31m''"
definition COLOR_YELLOW :: string where "COLOR_YELLOW = ESC # ''[33m''"
definition COLOR_GREEN :: string where "COLOR_GREEN = ESC # ''[32m''"
definition COLOR_CYAN :: string where "COLOR_CYAN = ESC # ''[36m''"

fun level_names :: "log_level \<Rightarrow> string" where
  "level_names LOG_DEBUG_ULTRA = COLOR_CYAN @ ''DEBUG ULTRA'' @ COLOR_RESET"
| "level_names LOG_DEBUG = COLOR_CYAN @ ''DEBUG'' @ COLOR_RESET"
| "level_names LOG_INFO = COLOR_GREEN @ ''INFO'' @ COLOR_RESET"
| "level_names LOG_WARN = COLOR_YELLOW @ ''WARN'' @ COLOR_RESET"
| "level_names LOG_ERROR = COLOR_RED @ ''ERROR'' @ COLOR_RESET"

definition LOG_FLAG_NONE :: "32 word" where "LOG_FLAG_NONE = 0"
definition LOG_FLAG_NO_TIMESTAMP :: "32 word" where "LOG_FLAG_NO_TIMESTAMP = 1"
definition LOG_FLAG_NO_LEVEL :: "32 word" where "LOG_FLAG_NO_LEVEL = 2"

section \<open>State\<close>

text \<open>
  What has been written to the two streams, the four static variables of the logger, and the
  local time as \<open>strftime\<close> prints it.
\<close>

record console =
  out :: string
  err :: string
  log_output_normal :: "stream option"
  log_output_error :: "stream option"
  current_level :: log_level
  logger_flags :: "32 word"
  clock :: string

definition fprint :: "stream \<Rightarrow> string \<Rightarrow> 'z console_scheme \<Rightarrow> 'z console_scheme" where
  "fprint f s st = (case f of Stdout \<Rightarrow> st\<lparr>out := out st @ s\<rparr> | Stderr \<Rightarrow> st\<lparr>err := err st @ s\<rparr>)"

section \<open>Operations\<close>

definition logger_init ::
    "stream option \<Rightarrow> stream option \<Rightarrow> log_level \<Rightarrow> 32 word \<Rightarrow> 'z console_scheme \<Rightarrow> 'z console_scheme" where
  "logger_init output_normal output_error level flags st =
     (if output_normal = None \<or> output_error = None
      then fprint Stderr (''Initialization of logger failed, provide not null output file pointers'' @ [LF]) st
      else st\<lparr>log_output_normal := output_normal, log_output_error := output_error,
              current_level := level, logger_flags := flags\<rparr>)"

definition logger_set_level :: "log_level \<Rightarrow> 'z console_scheme \<Rightarrow> 'z console_scheme" where
  "logger_set_level level st = st\<lparr>current_level := level\<rparr>"

definition logger_log ::
    "stream option \<Rightarrow> log_level \<Rightarrow> string \<Rightarrow> 'z console_scheme \<Rightarrow> 'z console_scheme" where
  "logger_log log_output level msg st =
     (if level < current_level st then st
      else case log_output of
        None \<Rightarrow> st
      | Some f \<Rightarrow>
          (let st = (if and (logger_flags st) LOG_FLAG_NO_TIMESTAMP = 0
                     then fprint f (''['' @ clock st @ ''] '') st else st);
               st = (if and (logger_flags st) LOG_FLAG_NO_LEVEL = 0
                     then fprint f (''['' @ level_names level @ ''] '') st else st);
               st = fprint f msg st
           in fprint f [LF] st))"

definition logger_log_normal :: "log_level \<Rightarrow> string \<Rightarrow> 'z console_scheme \<Rightarrow> 'z console_scheme" where
  "logger_log_normal level msg st = logger_log (log_output_normal st) level msg st"

definition logger_log_error :: "log_level \<Rightarrow> string \<Rightarrow> 'z console_scheme \<Rightarrow> 'z console_scheme" where
  "logger_log_error level msg st = logger_log (log_output_error st) level msg st"

definition logger_close :: "'z console_scheme \<Rightarrow> 'z console_scheme" where
  "logger_close st = st\<lparr>log_output_normal := None, log_output_error := None\<rparr>"

text \<open>The macros of \<open>logger.h\<close>.\<close>

definition log_info :: "string \<Rightarrow> 'z console_scheme \<Rightarrow> 'z console_scheme" where
  "log_info = logger_log_normal LOG_INFO"

definition log_warn :: "string \<Rightarrow> 'z console_scheme \<Rightarrow> 'z console_scheme" where
  "log_warn = logger_log_normal LOG_WARN"

definition log_error :: "string \<Rightarrow> 'z console_scheme \<Rightarrow> 'z console_scheme" where
  "log_error = logger_log_normal LOG_ERROR"

section \<open>What a message leaves\<close>

lemma fprint_more [simp]: "console.more (fprint f s st) = console.more st"
  by (simp add: fprint_def split: stream.split)

lemma fprint_logger [simp]:
  "log_output_normal (fprint f s st) = log_output_normal st" "log_output_error (fprint f s st) = log_output_error st"
  "current_level (fprint f s st) = current_level st" "logger_flags (fprint f s st) = logger_flags st"
  "clock (fprint f s st) = clock st"
  by (simp_all add: fprint_def split: stream.split)

lemma fprint_append: "fprint f t (fprint f s st) = fprint f (s @ t) st"
  by (simp add: fprint_def split: stream.split)

text \<open>The line of a message under the flags of the logger.\<close>

definition log_line :: "32 word \<Rightarrow> string \<Rightarrow> log_level \<Rightarrow> string \<Rightarrow> string" where
  "log_line flags time level msg =
     (if and flags LOG_FLAG_NO_TIMESTAMP = 0 then ''['' @ time @ ''] '' else []) @
     (if and flags LOG_FLAG_NO_LEVEL = 0 then ''['' @ level_names level @ ''] '' else []) @ msg @ [LF]"

lemma logger_log_line:
  "logger_log f level msg st =
     (if level < current_level st then st
      else case f of None \<Rightarrow> st | Some s \<Rightarrow> fprint s (log_line (logger_flags st) (clock st) level msg) st)"
  by (auto simp: logger_log_def log_line_def Let_def fprint_append split: option.split)

lemma logger_log_more [simp]: "console.more (logger_log f level msg st) = console.more st"
  by (simp add: logger_log_line split: option.split)

lemma log_more [simp]:
  "console.more (log_info msg st) = console.more st" "console.more (log_warn msg st) = console.more st"
  "console.more (log_error msg st) = console.more st"
  by (simp_all add: log_info_def log_warn_def log_error_def logger_log_normal_def)

text \<open>
  C38: after \<open>logger_init\<close>, a message below the level writes nothing; any other message, an error
  too, is one line on the normal stream, with the timestamp and the level unless a flag suppresses
  them. The stream for errors is never written to.
\<close>

theorem logger_writes:
  "let st = logger_init (Some Stdout) (Some Stderr) level flags st0 in
    out (logger_log_normal l msg st) =
      out st0 @ (if level \<le> l then log_line flags (clock st0) l msg else []) \<and>
    err (logger_log_normal l msg st) = err st0 \<and>
    log_error msg st = logger_log_normal LOG_ERROR msg st"
  by (auto simp: logger_log_normal_def logger_log_line logger_init_def log_error_def fprint_def Let_def)

end
