(* ===== verification/Config.thy ===== *)
theory Config
  imports Logger
begin

text \<open>
  The configuration file (\<open>src/core/config.c\<close>): reading it, writing a new one and updating one
  in place. Files are byte strings under their names; which calls on them fail for other reasons
  than a missing file is a script in the state.
\<close>

section \<open>Files\<close>

text \<open>
  \<open>disk_fails\<close> lists whether the coming calls of \<open>fopen\<close>, \<open>remove\<close> and \<open>rename\<close> fail, \<open>heap\<close>
  the outcomes of allocations; \<open>errno_text\<close> is what \<open>strerror(errno)\<close> says.
\<close>

record filing = console +
  disk :: "string \<rightharpoonup> string"
  disk_fails :: "bool list"
  heap :: "bool list"
  errno_text :: string

definition disk_ok :: "'z filing_scheme \<Rightarrow> bool \<times> 'z filing_scheme" where
  "disk_ok st = (case disk_fails st of [] \<Rightarrow> (True, st) | b # r \<Rightarrow> (\<not> b, st\<lparr>disk_fails := r\<rparr>))"

definition fopen_read :: "string \<Rightarrow> 'z filing_scheme \<Rightarrow> string option \<times> 'z filing_scheme" where
  "fopen_read name st = (let (ok, st) = disk_ok st in (if ok then disk st name else None, st))"

definition fopen_write :: "string \<Rightarrow> 'z filing_scheme \<Rightarrow> bool \<times> 'z filing_scheme" where
  "fopen_write name st =
     (let (ok, st) = disk_ok st in if ok then (True, st\<lparr>disk := (disk st)(name \<mapsto> [])\<rparr>) else (False, st))"

definition remove_file :: "string \<Rightarrow> 'z filing_scheme \<Rightarrow> bool \<times> 'z filing_scheme" where
  "remove_file name st =
     (let (ok, st) = disk_ok st in
      if ok \<and> disk st name \<noteq> None then (True, st\<lparr>disk := (disk st)(name := None)\<rparr>) else (False, st))"

definition rename_file :: "string \<Rightarrow> string \<Rightarrow> 'z filing_scheme \<Rightarrow> bool \<times> 'z filing_scheme" where
  "rename_file old new st =
     (let (ok, st) = disk_ok st in
      case disk st old of
        None \<Rightarrow> (False, st)
      | Some s \<Rightarrow> if ok then (True, st\<lparr>disk := (disk st)(old := None, new \<mapsto> s)\<rparr>) else (False, st))"

definition strdup :: "string \<Rightarrow> 'z filing_scheme \<Rightarrow> string option \<times> 'z filing_scheme" where
  "strdup s st = (case heap st of [] \<Rightarrow> (Some s, st) | ok # r \<Rightarrow> (if ok then Some s else None, st\<lparr>heap := r\<rparr>))"

section \<open>The configuration\<close>

definition MAX_LINE :: nat where "MAX_LINE = 512"

record config =
  cfg_port :: int
  db_port :: int
  db_host :: "string option"
  db_database :: "string option"
  db_user :: "string option"
  db_pass :: "string option"

definition create_default_config :: config where
  "create_default_config =
     \<lparr>cfg_port = 0, db_port = 0, db_host = None, db_database = None, db_user = None, db_pass = None\<rparr>"

definition free_config :: "config \<Rightarrow> config" where
  "free_config c = c\<lparr>db_database := None, db_user := None, db_pass := None, db_host := None\<rparr>"

definition check_config :: "config \<Rightarrow> bool" where
  "check_config c \<longleftrightarrow> db_database c \<noteq> None \<and> db_user c \<noteq> None \<and> db_pass c \<noteq> None \<and>
     db_host c \<noteq> None \<and> db_port c \<noteq> 0 \<and> cfg_port c \<noteq> 0"

section \<open>Lines\<close>

text \<open>The loop of \<open>trim_newline\<close> on the first \<open>n\<close> bytes.\<close>

fun trim_loop :: "string \<Rightarrow> nat \<Rightarrow> string" where
  "trim_loop s 0 = []"
| "trim_loop s (Suc n) = (if s ! n = LF \<or> s ! n = CR then trim_loop s n else take (Suc n) s)"

definition trim_newline :: "string \<Rightarrow> string" where
  "trim_newline s = trim_loop s (length s)"

fun prepare_line :: "string \<Rightarrow> string" where
  "prepare_line [] = []"
| "prepare_line (c # s) =
     (if c = CHR ''#'' then [] else if \<not> isspace c then c # prepare_line s else prepare_line s)"

text \<open>What the loops read, one \<open>fgets\<close> after the other.\<close>

function config_lines :: "string \<Rightarrow> string list" where
  "config_lines s = (case fgets MAX_LINE s of None \<Rightarrow> [] | Some (l, r) \<Rightarrow> l # config_lines r)"
  by auto
termination
proof (relation "measure length", goal_cases)
  case (2 s x l r)
  then show ?case using fgets_shorter [of MAX_LINE s l r] by (simp add: MAX_LINE_def)
qed simp

declare config_lines.simps [simp del]

section \<open>Loading\<close>

definition set_key :: "string \<Rightarrow> string \<Rightarrow> config \<Rightarrow> 'z filing_scheme \<Rightarrow> config \<times> 'z filing_scheme" where
  "set_key key value config st =
     (if key = ''PORT'' then (config\<lparr>cfg_port := atoi value\<rparr>, st)
      else if key = ''DB_HOST'' then (let (v, st) = strdup value st in (config\<lparr>db_host := v\<rparr>, st))
      else if key = ''DB_DATABASE'' then (let (v, st) = strdup value st in (config\<lparr>db_database := v\<rparr>, st))
      else if key = ''DB_PORT'' then (config\<lparr>db_port := atoi value\<rparr>, st)
      else if key = ''DB_USER'' then (let (v, st) = strdup value st in (config\<lparr>db_user := v\<rparr>, st))
      else if key = ''DB_PASS'' then (let (v, st) = strdup value st in (config\<lparr>db_pass := v\<rparr>, st))
      else (config, log_warn (''Unknown config key: '' @ key) st))"

definition load_line :: "string \<Rightarrow> config \<Rightarrow> 'z filing_scheme \<Rightarrow> config \<times> 'z filing_scheme" where
  "load_line raw config st =
     (let line = trim_newline (cstr raw) in
      if line = [] \<or> hd line = CHR ''#'' then (config, st)
      else
        (let line = prepare_line line in
         case strchr line (CHR ''='') of
           None \<Rightarrow> (config, log_error (''Invalid line (no '' @ [CHR 0x27] @ ''='' @ [CHR 0x27] @ '' found): '' @ line) st)
         | Some eq \<Rightarrow> set_key (take (length line - length eq) line) (drop 1 eq) config st))"

fun load_lines :: "string list \<Rightarrow> config \<Rightarrow> 'z filing_scheme \<Rightarrow> config \<times> 'z filing_scheme" where
  "load_lines [] config st = (config, st)"
| "load_lines (l # ls) config st = (let (config, st) = load_line l config st in load_lines ls config st)"

definition load_config :: "string \<Rightarrow> 'z filing_scheme \<Rightarrow> config \<times> 'z filing_scheme" where
  "load_config filename st =
     (let (file, st) = fopen_read filename st in
      case file of
        None \<Rightarrow> (create_default_config, log_error (''Failed to open config file: '' @ errno_text st) st)
      | Some s \<Rightarrow> load_lines (config_lines s) create_default_config st)"

section \<open>Saving\<close>

definition saved_text :: "config \<Rightarrow> string" where
  "saved_text c =
     ''# SimpleProxy config file'' @ [LF] @
     ''PORT='' @ show_int (cfg_port c) @ [LF] @
     ''DB_DATABASE='' @ or_empty (db_database c) @ [LF] @
     ''DB_USER='' @ or_empty (db_user c) @ [LF] @
     ''DB_PASS='' @ or_empty (db_pass c) @ [LF] @
     ''DB_HOST='' @ or_empty (db_host c) @ [LF]"

definition save_config :: "string \<Rightarrow> config \<Rightarrow> 'z filing_scheme \<Rightarrow> 'z filing_scheme" where
  "save_config filename c st =
     (let (ok, st) = fopen_write filename st in
      if \<not> ok then log_error (''Failed to open config file for writing: '' @ errno_text st) st
      else st\<lparr>disk := (disk st)(filename \<mapsto> saved_text c)\<rparr>)"

section \<open>Updating in place\<close>

text \<open>What is written for a line that was read.\<close>

definition update_line :: "config \<Rightarrow> string \<Rightarrow> string" where
  "update_line c raw =
     (let original_line = cstr raw;
          line = prepare_line (trim_newline original_line)
      in case strchr line (CHR ''='') of
           None \<Rightarrow> original_line
         | Some eq \<Rightarrow>
             (let key = take (length line - length eq) line in
              if key = ''PORT'' then ''PORT='' @ show_int (cfg_port c) @ [LF]
              else if key = ''DB_PORT'' then ''DB_PORT='' @ show_int (db_port c) @ [LF]
              else if key = ''DB_HOST'' then ''DB_HOST='' @ or_empty (db_host c) @ [LF]
              else if key = ''DB_DATABASE'' then ''DB_DATABASE='' @ or_empty (db_database c) @ [LF]
              else if key = ''DB_USER'' then ''DB_USER='' @ or_empty (db_user c) @ [LF]
              else if key = ''DB_PASS'' then ''DB_PASS='' @ or_empty (db_pass c) @ [LF]
              else original_line))"

text \<open>
  A file name of 511 bytes is its own temporary name, since \<open>snprintf\<close> cuts the suffix off; then
  opening the one truncates the other.
\<close>

definition update_config_file :: "string \<Rightarrow> config \<Rightarrow> 'z filing_scheme \<Rightarrow> bool \<times> 'z filing_scheme" where
  "update_config_file filename c st =
     (let temp_filename = snprintf_buf MAX_LINE (filename @ ''.tmp'');
          (fin, st) = fopen_read filename st
      in case fin of
           None \<Rightarrow> (False, log_error (''Failed to open config file for reading: '' @ errno_text st) st)
         | Some s \<Rightarrow>
             (let (ok, st) = fopen_write temp_filename st in
              if \<not> ok
              then (False, log_error (''Failed to open temp config file for writing: '' @ errno_text st) st)
              else
                (let s = (if temp_filename = filename then [] else s);
                     st = st\<lparr>disk := (disk st)(temp_filename \<mapsto> concat (map (update_line c) (config_lines s)))\<rparr>;
                     (removed, st) = remove_file filename st
                 in if \<not> removed
                    then (False, log_error (''Failed to delete original config file: '' @ errno_text st) st)
                    else
                      (let (renamed, st) = rename_file temp_filename filename st in
                       if \<not> renamed
                       then (False, log_error (''Failed to rename temp file to config file: '' @ errno_text st) st)
                       else (True, st)))))"

section \<open>How a file is cut into lines\<close>

text \<open>
  A piece that one \<open>fgets\<close> returns: not empty, at most 511 bytes, a newline only at its end. All
  but the last end with a newline or have 511 bytes.
\<close>

definition piece :: "string \<Rightarrow> bool" where
  "piece l \<longleftrightarrow> l \<noteq> [] \<and> length l \<le> 511 \<and> LF \<notin> set (butlast l)"

definition complete :: "string \<Rightarrow> bool" where
  "complete l \<longleftrightarrow> last l = LF \<or> length l = 511"

fun pieces :: "string list \<Rightarrow> bool" where
  "pieces [] = True"
| "pieces (l # ls) \<longleftrightarrow> piece l \<and> (ls \<noteq> [] \<longrightarrow> complete l) \<and> pieces ls"

lemma fgets_chars_cut:
  "length l \<le> n \<Longrightarrow> LF \<notin> set (butlast l) \<Longrightarrow> l \<noteq> [] \<Longrightarrow> last l = LF \<or> length l = n \<or> r = [] \<Longrightarrow>
     fgets_chars n (l @ r) = (l, r)"
proof (induction l arbitrary: n)
  case (Cons c l)
  then obtain m where m: "n = Suc m" by (cases n) auto
  show ?case
  proof (cases "l = []")
    case True
    have "fgets_chars m r = ([], r)" if "m = 0 \<or> r = []" using that by (cases m; cases r) auto
    then show ?thesis using Cons.prems True m by auto
  next
    case False
    then show ?thesis using Cons m by (auto split: if_splits)
  qed
qed simp

lemma fgets_chars_piece:
  "fgets_chars n s = (l, r) \<Longrightarrow> LF \<notin> set (butlast l) \<and> (r \<noteq> [] \<longrightarrow> length l = n \<or> l \<noteq> [] \<and> last l = LF)"
proof (induction n s arbitrary: l rule: fgets_chars.induct)
  case (3 n c s)
  then show ?case by (cases "c = LF") (auto split: prod.splits if_splits)
qed auto

lemma config_lines_pieces: "pieces (config_lines s) \<and> concat (config_lines s) = s"
proof (induction s rule: config_lines.induct)
  case (1 s)
  show ?case
  proof (cases "fgets MAX_LINE s")
    case None
    then show ?thesis by (subst (1 2) config_lines.simps) (auto simp: fgets_def split: if_splits)
  next
    case (Some x)
    obtain l r where x: "x = (l, r)" by (cases x)
    have f: "fgets_chars 511 s = (l, r)" "s \<noteq> []"
      using Some x by (auto simp: fgets_def MAX_LINE_def split: if_splits)
    have IH: "pieces (config_lines r)" "concat (config_lines r) = r" using "1.IH" [OF Some x [symmetric]] by simp_all
    have s: "l @ r = s" using fgets_chars_append [OF f(1)] .
    have ne: "l \<noteq> []" using f by (cases s) (auto simp: numeral_eq_Suc split: if_splits prod.splits)
    have "complete l" if "config_lines r \<noteq> []"
    proof -
      have "r \<noteq> []" using that IH(2) by (subst (asm) config_lines.simps) (auto simp: fgets_def split: if_splits)
      then show ?thesis using fgets_chars_piece [OF f(1)] ne by (auto simp: complete_def)
    qed
    moreover have "piece l"
      using ne fgets_chars_length [OF f(1)] fgets_chars_piece [OF f(1)] by (simp add: piece_def)
    moreover have "config_lines s = l # config_lines r" by (subst config_lines.simps) (simp add: Some x)
    ultimately show ?thesis using IH s by simp
  qed
qed

lemma config_lines_concat: "pieces ls \<Longrightarrow> config_lines (concat ls) = ls"
proof (induction ls)
  case Nil
  show ?case by (subst config_lines.simps) (simp add: fgets_def)
next
  case (Cons l ls)
  have l: "l \<noteq> []" "length l \<le> 511" "LF \<notin> set (butlast l)" using Cons.prems by (simp_all add: piece_def)
  have "last l = LF \<or> length l = 511 \<or> concat ls = []" using Cons.prems by (cases "ls = []") (auto simp: complete_def)
  then have "fgets_chars 511 (l @ concat ls) = (l, concat ls)" using fgets_chars_cut [OF l(2,3,1)] by blast
  then have "fgets MAX_LINE (concat (l # ls)) = Some (l, concat ls)" using l(1) by (simp add: fgets_def MAX_LINE_def)
  then show ?case using Cons.IH Cons.prems by (subst config_lines.simps) simp
qed

section \<open>Preparing lines\<close>

lemma trim_loop_append: "n \<le> length s \<Longrightarrow> trim_loop (s @ t) n = trim_loop s n"
  by (induction n) (auto simp: nth_append)

lemma trim_newline_snoc:
  "trim_newline (s @ [x]) = (if x = LF \<or> x = CR then trim_newline s else s @ [x])"
  by (simp add: trim_newline_def trim_loop_append nth_append)

lemma trim_newline_Nil [simp]: "trim_newline [] = []"
  by (simp add: trim_newline_def)

lemma trim_newline_prefix: "\<exists>t. s = trim_newline s @ t"
proof (induction s rule: rev_induct)
  case (snoc x s)
  then obtain t where "s = trim_newline s @ t" by blast
  then have "s @ [x] = trim_newline s @ (t @ [x])" by simp
  then show ?case
    by (cases "x = LF \<or> x = CR") (metis trim_newline_snoc, simp add: trim_newline_snoc)
qed simp

text \<open>Text that \<open>prepare_line\<close> leaves alone, and that is a C string.\<close>

definition plain :: "string \<Rightarrow> bool" where
  "plain s \<longleftrightarrow> (\<forall>c \<in> set s. \<not> isspace c \<and> c \<noteq> CHR ''#'' \<and> c \<noteq> NUL)"

lemma plain_append [simp]: "plain (s @ t) \<longleftrightarrow> plain s \<and> plain t" "plain []"
  "plain (c # s) \<longleftrightarrow> \<not> isspace c \<and> c \<noteq> CHR ''#'' \<and> c \<noteq> NUL \<and> plain s"
  by (auto simp: plain_def)

lemma prepare_plain: "plain s \<Longrightarrow> prepare_line s = s"
  by (induction s) (auto simp: plain_def)

lemma prepare_line_set: "set (prepare_line s) \<subseteq> set s"
  by (induction s) auto

lemma trim_plain:
  assumes "plain s"
  shows "trim_newline s = s" "trim_newline (s @ [LF]) = s"
proof -
  show "trim_newline s = s"
  proof (cases s rule: rev_cases)
    case (snoc t x)
    then have "\<not> isspace x" using assms by (simp add: plain_def)
    then have "x \<noteq> LF" "x \<noteq> CR" by (auto simp: isspace_def)
    then show ?thesis using snoc by (simp add: trim_newline_snoc)
  qed simp
  then show "trim_newline (s @ [LF]) = s" by (simp add: trim_newline_snoc)
qed

lemma show_int_plain: "plain (show_int i)"
  unfolding plain_def
proof
  fix c assume "c \<in> set (show_int i)"
  then consider "isdigit c" | "c = CHR ''-''" using show_int_chars by blast
  then show "\<not> isspace c \<and> c \<noteq> CHR ''#'' \<and> c \<noteq> NUL"
    using isdigit_not isdigit_not_space by cases (blast, simp add: isspace_def)
qed

section \<open>Keys and values\<close>

text \<open>What \<open>load_config\<close> sees in a line.\<close>

definition parse_line :: "string \<Rightarrow> (string \<times> string) option" where
  "parse_line raw =
     (let line = prepare_line (trim_newline (cstr raw)) in
      case strchr line (CHR ''='') of
        None \<Rightarrow> None
      | Some eq \<Rightarrow> Some (take (length line - length eq) line, drop 1 eq))"

lemma parse_line_skipped:
  assumes "trim_newline (cstr raw) = [] \<or> hd (trim_newline (cstr raw)) = CHR ''#''"
  shows "parse_line raw = None"
proof -
  have "prepare_line (trim_newline (cstr raw)) = []" using assms by (cases "trim_newline (cstr raw)") auto
  moreover have "strchr [] (CHR ''='') = None" by (simp add: strchr_None_iff)
  ultimately show ?thesis by (simp add: parse_line_def)
qed

lemma parse_line_pair:
  assumes "plain k" and "plain v" and "CHR ''='' \<notin> set k"
  shows "parse_line (k @ CHR ''='' # v @ [LF]) = Some (k, v)"
proof -
  let ?l = "k @ CHR ''='' # v"
  have p: "plain ?l" using assms by (simp add: isspace_def)
  have "c_string (?l @ [LF])" using p by (auto simp: c_string_def plain_def)
  then have "cstr (?l @ [LF]) = ?l @ [LF]" by (rule cstr_id)
  then have "prepare_line (trim_newline (cstr (?l @ [LF]))) = ?l" using trim_plain(2) [OF p] prepare_plain [OF p] by simp
  then show ?thesis using assms(3) by (simp add: parse_line_def)
qed

text \<open>The effect of a pair on the configuration, allocations succeeding.\<close>

definition put_key :: "string \<times> string \<Rightarrow> config \<Rightarrow> config" where
  "put_key kv c =
     (let (key, value) = kv in
      if key = ''PORT'' then c\<lparr>cfg_port := atoi value\<rparr>
      else if key = ''DB_HOST'' then c\<lparr>db_host := Some value\<rparr>
      else if key = ''DB_DATABASE'' then c\<lparr>db_database := Some value\<rparr>
      else if key = ''DB_PORT'' then c\<lparr>db_port := atoi value\<rparr>
      else if key = ''DB_USER'' then c\<lparr>db_user := Some value\<rparr>
      else if key = ''DB_PASS'' then c\<lparr>db_pass := Some value\<rparr>
      else c)"

lemma filing_frame:
  fixes st st' :: "'z filing_scheme"
  assumes "console.more st' = console.more st"
  shows "disk st' = disk st" "disk_fails st' = disk_fails st" "heap st' = heap st" "errno_text st' = errno_text st"
    "filing.more st' = filing.more st"
  using assms by (cases st; cases st'; simp)+

lemma log_keeps [simp]:
  fixes st :: "'z filing_scheme"
  shows "disk (log_error msg st) = disk st" "disk_fails (log_error msg st) = disk_fails st"
    "heap (log_error msg st) = heap st" "errno_text (log_error msg st) = errno_text st"
    "filing.more (log_error msg st) = filing.more st"
  by (rule filing_frame; simp)+

lemma set_key_put: "heap st = [] \<Longrightarrow> \<exists>st'. set_key k v c st = (put_key (k, v) c, st') \<and> console.more st' = console.more st"
  by (simp add: set_key_def put_key_def strdup_def Let_def)

lemma load_line_put:
  assumes "heap st = []"
  shows "\<exists>st'. load_line raw c st = (case parse_line raw of None \<Rightarrow> c | Some kv \<Rightarrow> put_key kv c, st') \<and>
    console.more st' = console.more st"
proof (cases "trim_newline (cstr raw) = [] \<or> hd (trim_newline (cstr raw)) = CHR ''#''")
  case True
  then show ?thesis using parse_line_skipped by (auto simp: load_line_def Let_def)
next
  case False
  let ?l = "prepare_line (trim_newline (cstr raw))"
  show ?thesis
  proof (cases "strchr ?l (CHR ''='')")
    case None
    then show ?thesis using False by (auto simp: load_line_def parse_line_def Let_def)
  next
    case (Some eq)
    then have "parse_line raw = Some (take (length ?l - length eq) ?l, drop 1 eq)"
      "load_line raw c st = set_key (take (length ?l - length eq) ?l) (drop 1 eq) c st"
      using False by (simp_all add: parse_line_def load_line_def Let_def)
    then show ?thesis using set_key_put [OF assms] by simp
  qed
qed

lemma load_lines_fold:
  "heap st = [] \<Longrightarrow> \<exists>st'. load_lines ls c st =
     (fold (\<lambda>raw c. case parse_line raw of None \<Rightarrow> c | Some kv \<Rightarrow> put_key kv c) ls c, st') \<and>
   console.more st' = console.more st"
proof (induction ls arbitrary: c st)
  case (Cons l ls)
  obtain st1 where 1: "load_line l c st = (case parse_line l of None \<Rightarrow> c | Some kv \<Rightarrow> put_key kv c, st1)"
    "console.more st1 = console.more st"
    using load_line_put [OF Cons.prems] by blast
  have "heap st1 = []" using filing_frame(3) [OF 1(2)] Cons.prems by simp
  from Cons.IH [OF this, of "case parse_line l of None \<Rightarrow> c | Some kv \<Rightarrow> put_key kv c"]
  show ?case using 1 by auto
qed simp

text \<open>Pairs of a configuration, with the value a key has there, put over another configuration.\<close>

definition merge :: "config \<Rightarrow> string set \<Rightarrow> config \<Rightarrow> config" where
  "merge c K d =
     \<lparr>cfg_port = (if ''PORT'' \<in> K then cfg_port c else cfg_port d),
      db_port = (if ''DB_PORT'' \<in> K then db_port c else db_port d),
      db_host = (if ''DB_HOST'' \<in> K then db_host c else db_host d),
      db_database = (if ''DB_DATABASE'' \<in> K then db_database c else db_database d),
      db_user = (if ''DB_USER'' \<in> K then db_user c else db_user d),
      db_pass = (if ''DB_PASS'' \<in> K then db_pass c else db_pass d)\<rparr>"

text \<open>A configuration whose values survive the file: plain, short, and in the range of an \<open>int\<close>.\<close>

definition storable_text :: "string option \<Rightarrow> bool" where
  "storable_text v \<longleftrightarrow> (case v of None \<Rightarrow> False | Some s \<Rightarrow> plain s \<and> length s \<le> 400)"

definition storable_int :: "int \<Rightarrow> bool" where
  "storable_int i \<longleftrightarrow> - (2 ^ 31) \<le> i \<and> i < 2 ^ 31"

definition storable :: "config \<Rightarrow> bool" where
  "storable c \<longleftrightarrow> storable_int (cfg_port c) \<and> storable_int (db_port c) \<and> storable_text (db_host c) \<and>
     storable_text (db_database c) \<and> storable_text (db_user c) \<and> storable_text (db_pass c)"

text \<open>The text of a key's value.\<close>

definition value_of :: "config \<Rightarrow> string \<Rightarrow> string option" where
  "value_of c key =
     (if key = ''PORT'' then Some (show_int (cfg_port c))
      else if key = ''DB_PORT'' then Some (show_int (db_port c))
      else if key = ''DB_HOST'' then Some (or_empty (db_host c))
      else if key = ''DB_DATABASE'' then Some (or_empty (db_database c))
      else if key = ''DB_USER'' then Some (or_empty (db_user c))
      else if key = ''DB_PASS'' then Some (or_empty (db_pass c))
      else None)"

lemma update_line_key:
  "update_line c raw = (case parse_line raw of None \<Rightarrow> cstr raw
     | Some (k, v) \<Rightarrow> (case value_of c k of None \<Rightarrow> cstr raw | Some t \<Rightarrow> k @ CHR ''='' # t @ [LF]))"
  by (auto simp: update_line_def parse_line_def value_of_def Let_def split: option.split)

lemma show_nat_length: "n < 10 ^ k \<Longrightarrow> 0 < k \<Longrightarrow> length (show_nat n) \<le> k"
proof (induction k arbitrary: n)
  case (Suc k)
  show ?case
  proof (cases "n < 10")
    case True
    then show ?thesis by (subst show_nat.simps) simp
  next
    case False
    then have "n div 10 < 10 ^ k" "0 < k" using Suc.prems by (cases k; simp add: less_mult_imp_div_less mult.commute)+
    then show ?thesis using Suc.IH [of "n div 10"] False by (subst show_nat.simps) simp
  qed
qed simp

lemma show_int_length: "storable_int i \<Longrightarrow> length (show_int i) \<le> 11"
proof -
  assume "storable_int i"
  then have "nat (- i) \<le> nat (2 ^ 31)" "nat i \<le> nat (2 ^ 31)"
    by (intro nat_mono; simp add: storable_int_def)+
  moreover have "nat (2 ^ 31) < 10 ^ 10" by simp
  ultimately have "nat (- i) < 10 ^ 10" "nat i < 10 ^ 10" by (meson le_less_trans)+
  then have "length (show_nat (nat (- i))) \<le> 10" "length (show_nat (nat i)) \<le> 10"
    by (intro show_nat_length; simp)+
  then show ?thesis by (simp add: show_int_def)
qed

lemma value_of_storable:
  assumes "storable c" and "value_of c k = Some v"
  shows "plain k" "CHR ''='' \<notin> set k" "plain v" "length k \<le> 11" "length v \<le> 400"
proof -
  show "plain k" "CHR ''='' \<notin> set k" "length k \<le> 11"
    using assms(2) by (auto simp: value_of_def isspace_def split: if_splits)
  have t: "plain (or_empty x) \<and> length (or_empty x) \<le> 400" if "storable_text x" for x
    using that by (cases x) (simp_all add: storable_text_def or_empty_def)
  have i: "plain (show_int x) \<and> length (show_int x) \<le> 400" if "storable_int x" for x
    using show_int_plain show_int_length [OF that] by simp
  show "plain v" "length v \<le> 400"
    using assms t i by (auto simp: value_of_def storable_def split: if_splits)
qed

lemma value_of_put:
  assumes "storable c" and "value_of c k = Some v"
  shows "put_key (k, v) d = merge c {k} d"
proof -
  have i: "atoi (show_int x) = x" if "storable_int x" for x
    using that atoi_show_int by (simp add: storable_int_def)
  have t: "Some (or_empty x) = x" if "storable_text x" for x
    using that by (cases x) (simp_all add: storable_text_def or_empty_def)
  have c: "storable_int (cfg_port c)" "storable_int (db_port c)" "storable_text (db_host c)"
    "storable_text (db_database c)" "storable_text (db_user c)" "storable_text (db_pass c)"
    using assms(1) by (simp_all add: storable_def)
  note v = c(1,2) [THEN i] c(3-6) [THEN t]
  consider "k = ''PORT''" "v = show_int (cfg_port c)" | "k = ''DB_PORT''" "v = show_int (db_port c)"
    | "k = ''DB_HOST''" "v = or_empty (db_host c)" | "k = ''DB_DATABASE''" "v = or_empty (db_database c)"
    | "k = ''DB_USER''" "v = or_empty (db_user c)" | "k = ''DB_PASS''" "v = or_empty (db_pass c)"
    using assms(2) unfolding value_of_def by (auto split: if_splits)
  then show ?thesis by cases (simp_all add: put_key_def merge_def v)
qed

lemma unknown_key:
  assumes "value_of c k = None"
  shows "put_key (k, v) d = d" and "merge c (insert k K) d = merge c K d"
proof -
  have k: "k \<noteq> ''PORT''" "k \<noteq> ''DB_PORT''" "k \<noteq> ''DB_HOST''" "k \<noteq> ''DB_DATABASE''" "k \<noteq> ''DB_USER''" "k \<noteq> ''DB_PASS''"
    using assms unfolding value_of_def by (auto split: if_splits)
  show "put_key (k, v) d = d" by (simp add: put_key_def k)
  show "merge c (insert k K) d = merge c K d" by (simp add: merge_def k [symmetric])
qed

lemma merge_merge: "merge c K (merge c {k} d) = merge c (insert k K) d"
  by (rule config.equality) (simp_all add: merge_def)

lemma merge_empty: "merge c {} d = d"
  by (simp add: merge_def)

text \<open>The keys of a file.\<close>

definition keys_of :: "string list \<Rightarrow> string set" where
  "keys_of ls = {k. \<exists>v. Some (k, v) \<in> parse_line ` set ls}"

lemma keys_of_simps:
  "keys_of [] = {}"
  "keys_of (l # ls) = (case parse_line l of None \<Rightarrow> keys_of ls | Some (k, v) \<Rightarrow> insert k (keys_of ls))"
  by (auto simp: keys_of_def split: option.split)

lemma fold_updated:
  assumes "storable c" and "\<forall>l \<in> set ls. c_string l"
  shows "fold (\<lambda>raw c. case parse_line raw of None \<Rightarrow> c | Some kv \<Rightarrow> put_key kv c) (map (update_line c) ls) d =
    merge c (keys_of ls) d"
  using assms(2)
proof (induction ls arbitrary: d)
  case Nil
  then show ?case by (simp add: keys_of_simps merge_empty)
next
  case (Cons l ls)
  have l: "cstr l = l" using Cons.prems by simp
  show ?case
  proof (cases "parse_line l")
    case None
    then show ?thesis using Cons l by (simp add: update_line_key keys_of_simps)
  next
    case (Some kv)
    obtain k v where kv: "kv = (k, v)" by (cases kv)
    show ?thesis
    proof (cases "value_of c k")
      case None
      then show ?thesis using Cons l Some kv unknown_key [OF None] by (simp add: update_line_key keys_of_simps)
    next
      case (Some t)
      note s = value_of_storable [OF assms(1) Some]
      have "parse_line (update_line c l) = Some (k, t)"
        using \<open>parse_line l = Some kv\<close> kv Some parse_line_pair [OF s(1,3,2)] by (simp add: update_line_key)
      then show ?thesis
        using Cons \<open>parse_line l = Some kv\<close> kv value_of_put [OF assms(1) Some] by (simp add: keys_of_simps merge_merge)
    qed
  qed
qed

lemma pieces_updated:
  assumes "storable c" and "\<forall>l \<in> set ls. c_string l" and "pieces ls"
  shows "pieces (map (update_line c) ls)"
proof -
  have upd: "update_line c l = l \<or> piece (update_line c l) \<and> complete (update_line c l)" if "c_string l" for l
  proof (cases "parse_line l")
    case None
    then show ?thesis using that by (simp add: update_line_key)
  next
    case (Some kv)
    obtain k v where kv: "kv = (k, v)" by (cases kv)
    show ?thesis
    proof (cases "value_of c k")
      case None
      then show ?thesis using that Some kv by (simp add: update_line_key)
    next
      case t: (Some t)
      note s = value_of_storable [OF assms(1) t]
      have "LF \<notin> set k" "LF \<notin> set t" using s(1,3) by (auto simp: plain_def isspace_def)
      then have "piece (k @ CHR ''='' # t @ [LF]) \<and> complete (k @ CHR ''='' # t @ [LF])"
        using s(4,5) by (auto simp: piece_def complete_def butlast_append)
      then show ?thesis using Some kv t by (simp add: update_line_key)
    qed
  qed
  show ?thesis
    using assms(2,3) by (induction ls) (use upd in fastforce)+
qed

section \<open>Writing and reading back\<close>

lemma load_present:
  assumes "disk st f = Some s" and "disk_fails st = []" and "heap st = []"
  shows "fst (load_config f st) = fold (\<lambda>raw c. case parse_line raw of None \<Rightarrow> c | Some kv \<Rightarrow> put_key kv c)
    (config_lines s) create_default_config"
  using load_lines_fold [OF assms(3), of "config_lines s" create_default_config] assms(1,2)
  by (auto simp: load_config_def fopen_read_def disk_ok_def)

lemma load_heap:
  assumes "disk st f = Some s" and "disk_fails st = []" and "heap st = []"
  shows "heap (snd (load_config f st)) = []"
proof -
  obtain c st' where l: "load_lines (config_lines s) create_default_config st = (c, st')" "console.more st' = console.more st"
    using load_lines_fold [OF assms(3)] by blast
  have "heap st' = []" using filing_frame(3) [OF l(2)] assms(3) by simp
  then show ?thesis using assms(1,2) l(1) by (simp add: load_config_def fopen_read_def disk_ok_def)
qed

text \<open>An update in which no call on the files fails.\<close>

lemma update_succeeds:
  assumes "disk st f = Some s" and "disk_fails st = []" and "length f < 500"
  shows "update_config_file f c st =
    (True, st\<lparr>disk := (disk st)(f @ ''.tmp'' := None, f \<mapsto> concat (map (update_line c) (config_lines s)))\<rparr>)"
proof -
  have t: "snprintf_buf MAX_LINE (f @ ''.tmp'') = f @ ''.tmp''" using assms(3) by (simp add: snprintf_buf_def MAX_LINE_def)
  have "(disk st)(f @ ''.tmp'' \<mapsto> x, f := None, f @ ''.tmp'' := None, f \<mapsto> y) =
      (disk st)(f @ ''.tmp'' := None, f \<mapsto> y)" for x y
    by (rule ext) simp
  then show ?thesis
    using assms(1,2)
    by (simp add: update_config_file_def t fopen_read_def fopen_write_def remove_file_def rename_file_def disk_ok_def Let_def)
qed

lemma load_updated:
  assumes "disk st f = Some (concat (map (update_line c) (config_lines s)))" and "c_string s" and "storable c"
    and "disk_fails st = []" and "heap st = []"
  shows "fst (load_config f st) = merge c (keys_of (config_lines s)) create_default_config"
proof -
  let ?ls = "config_lines s"
  have "concat ?ls = s" and p: "pieces ?ls" using config_lines_pieces [of s] by simp_all
  then have "set l \<subseteq> set s" if "l \<in> set ?ls" for l using that by (metis UN_upper set_concat)
  then have cs: "\<forall>l \<in> set ?ls. c_string l" using assms(2) by (auto simp: c_string_def)
  have "config_lines (concat (map (update_line c) ?ls)) = map (update_line c) ?ls"
    by (rule config_lines_concat [OF pieces_updated [OF assms(3) cs p]])
  then show ?thesis
    using load_present [OF assms(1,4,5)] fold_updated [OF assms(3) cs] by simp
qed


definition packaged_text :: string where
  "packaged_text = ''# Configuration of simpleproxy program'' @ [LF, LF] @ ''PORT=3128'' @ [LF] @
     ''DB_DATABASE=simpleproxy'' @ [LF] @ ''DB_PORT=3306'' @ [LF] @ ''DB_USER=mysql'' @ [LF] @
     ''DB_PASS=mysql'' @ [LF] @ ''DB_HOST=127.0.0.1'' @ [LF]"

definition packaged_disk :: filing where
  "packaged_disk = \<lparr>out = [], err = [], log_output_normal = Some Stdout, log_output_error = Some Stderr,
     current_level = LOG_DEBUG, logger_flags = 3, clock = [], disk = [''c'' \<mapsto> packaged_text],
     disk_fails = [], heap = [], errno_text = ''No such file or directory''\<rparr>"

definition sample_config :: config where
  "sample_config = \<lparr>cfg_port = 8080, db_port = 3307, db_host = Some ''db.local'', db_database = Some ''px'',
     db_user = Some ''root'', db_pass = Some ''s=cret''\<rparr>"

lemma sample_storable: "storable sample_config"
  by (simp add: storable_def sample_config_def storable_int_def storable_text_def isspace_def)

lemma packaged_keys:
  "keys_of (config_lines packaged_text) = {''PORT'', ''DB_DATABASE'', ''DB_PORT'', ''DB_USER'', ''DB_PASS'', ''DB_HOST''}"
proof -
  let ?ls = "[''# Configuration of simpleproxy program'' @ [LF], [LF], ''PORT'' @ CHR ''='' # ''3128'' @ [LF],
    ''DB_DATABASE'' @ CHR ''='' # ''simpleproxy'' @ [LF], ''DB_PORT'' @ CHR ''='' # ''3306'' @ [LF],
    ''DB_USER'' @ CHR ''='' # ''mysql'' @ [LF], ''DB_PASS'' @ CHR ''='' # ''mysql'' @ [LF],
    ''DB_HOST'' @ CHR ''='' # ''127.0.0.1'' @ [LF]]"
  have "concat ?ls = packaged_text" by (simp add: packaged_text_def)
  moreover have "pieces ?ls" by (simp add: piece_def complete_def)
  ultimately have "config_lines packaged_text = ?ls" using config_lines_concat by metis
  moreover have "parse_line (''# Configuration of simpleproxy program'' @ [LF]) = None" "parse_line [LF] = None"
    by code_simp+
  moreover have
    "parse_line (''PORT'' @ CHR ''='' # ''3128'' @ [LF]) = Some (''PORT'', ''3128'')"
    "parse_line (''DB_DATABASE'' @ CHR ''='' # ''simpleproxy'' @ [LF]) = Some (''DB_DATABASE'', ''simpleproxy'')"
    "parse_line (''DB_PORT'' @ CHR ''='' # ''3306'' @ [LF]) = Some (''DB_PORT'', ''3306'')"
    "parse_line (''DB_USER'' @ CHR ''='' # ''mysql'' @ [LF]) = Some (''DB_USER'', ''mysql'')"
    "parse_line (''DB_PASS'' @ CHR ''='' # ''mysql'' @ [LF]) = Some (''DB_PASS'', ''mysql'')"
    "parse_line (''DB_HOST'' @ CHR ''='' # ''127.0.0.1'' @ [LF]) = Some (''DB_HOST'', ''127.0.0.1'')"
    by (rule parse_line_pair; simp add: isspace_def)+
  ultimately show ?thesis by (simp only: keys_of_simps option.case prod.case)
qed


text \<open>
  What \<open>save_config\<close> writes is read back without the port of the database, which it does not
  write: such a file never passes \<open>check_config\<close>, with which the proxy starts.
\<close>

theorem save_loses_db_port:
  assumes "storable c" and "disk_fails st = []" and "heap st = []"
  shows "fst (load_config f (save_config f c st)) = c\<lparr>db_port := 0\<rparr> \<and>
    \<not> check_config (fst (load_config f (save_config f c st)))"
proof -
  let ?v = "\<lambda>k. k @ CHR ''='' # (case value_of c k of None \<Rightarrow> [] | Some v \<Rightarrow> v) @ [LF]"
  let ?ls = "(''# SimpleProxy config file'' @ [LF]) #
    map ?v [''PORT'', ''DB_DATABASE'', ''DB_USER'', ''DB_PASS'', ''DB_HOST'']"
  have val: "value_of c ''PORT'' = Some (show_int (cfg_port c))"
    "value_of c ''DB_DATABASE'' = Some (or_empty (db_database c))" "value_of c ''DB_USER'' = Some (or_empty (db_user c))"
    "value_of c ''DB_PASS'' = Some (or_empty (db_pass c))" "value_of c ''DB_HOST'' = Some (or_empty (db_host c))"
    by (simp_all add: value_of_def)
  have saved: "concat ?ls = saved_text c" by (simp add: saved_text_def val)
  have line: "piece (?v k) \<and> complete (?v k) \<and> parse_line (?v k) = Some (k, v)" if "value_of c k = Some v" for k v
  proof -
    note s = value_of_storable [OF assms(1) that]
    have "LF \<notin> set k" "LF \<notin> set v" using s(1,3) by (auto simp: plain_def isspace_def)
    then show ?thesis
      using s(4,5) parse_line_pair [OF s(1,3,2)] that by (simp add: piece_def complete_def butlast_append)
  qed
  have "piece (''# SimpleProxy config file'' @ [LF]) \<and> complete (''# SimpleProxy config file'' @ [LF])"
    by (simp add: piece_def complete_def)
  then have ps: "pieces ?ls" using val [THEN line] unfolding list.map pieces.simps by blast
  have lines: "config_lines (saved_text c) = ?ls"
    unfolding saved [symmetric] by (rule config_lines_concat [OF ps])
  have hash: "parse_line (''# SimpleProxy config file'' @ [LF]) = None" by code_simp
  let ?st = "save_config f c st"
  have st: "disk ?st f = Some (saved_text c)" "disk_fails ?st = []" "heap ?st = []"
    using assms(2,3) by (simp_all add: save_config_def fopen_write_def disk_ok_def Let_def)
  have put: "put_key (k, v) d = merge c {k} d" if "value_of c k = Some v" for k v d
    using value_of_put [OF assms(1) that] .
  have "fst (load_config f ?st) = merge c {''DB_HOST''} (merge c {''DB_PASS''} (merge c {''DB_USER''}
      (merge c {''DB_DATABASE''} (merge c {''PORT''} create_default_config))))"
    using load_present [OF st] val [THEN line] val [THEN put]
    unfolding lines list.map fold.simps hash o_def id_def by (simp only: option.case)
  then have "fst (load_config f ?st) = c\<lparr>db_port := 0\<rparr>" by (simp add: merge_def create_default_config_def)
  then show ?thesis by (simp add: check_config_def)
qed

theorem save_loses_db_port_witness:
  "db_port (fst (load_config ''c'' (save_config ''c'' sample_config packaged_disk))) = 0 \<and> db_port sample_config = 3307"
  using save_loses_db_port [OF sample_storable, of packaged_disk "''c''"]
  by (simp add: packaged_disk_def sample_config_def)

lemma prepare_line_filter: "prepare_line s = filter (\<lambda>c. \<not> isspace c) (takeWhile (\<lambda>c. c \<noteq> CHR ''#'') s)"
  by (induction s) auto

lemma prepare_line_append: "plain k \<Longrightarrow> prepare_line (k @ s) = k @ prepare_line s"
  by (induction k) auto

text \<open>
  A value is read without its white space and only up to the first number sign, so a password
  that contains one of them is not the one that is used.
\<close>

theorem load_cuts_value:
  assumes "disk st f = Some (''DB_PASS='' @ v @ [LF])" and "disk_fails st = []" and "heap st = []"
    and "c_string v" and "LF \<notin> set v" and "CR \<notin> set v" and "length v \<le> 500"
  shows "db_pass (fst (load_config f st)) =
    Some (filter (\<lambda>c. \<not> isspace c) (takeWhile (\<lambda>c. c \<noteq> CHR ''#'') v))"
proof -
  let ?l = "''DB_PASS='' @ v @ [LF]"
  have "piece ?l" using assms(5,7) by (simp add: piece_def butlast_append)
  then have "config_lines (concat [?l]) = [?l]" by (intro config_lines_concat) simp
  then have ls: "config_lines ?l = [?l]" by simp
  have "trim_newline (''DB_PASS='' @ v) = ''DB_PASS='' @ v"
  proof (cases v rule: rev_cases)
    case (snoc u x)
    then have "x \<noteq> LF" "x \<noteq> CR" using assms(5,6) by auto
    then show ?thesis using snoc trim_newline_snoc [of "''DB_PASS='' @ u" x] by simp
  next
    case Nil
    then show ?thesis using trim_newline_snoc [of "''DB_PASS''" "CHR ''=''"] by simp
  qed
  then have "trim_newline (cstr ?l) = ''DB_PASS='' @ v"
    using trim_newline_snoc [of "''DB_PASS='' @ v" LF] assms(4) by simp
  moreover have "plain ''DB_PASS=''" by (simp add: isspace_def)
  ultimately have "prepare_line (trim_newline (cstr ?l)) = ''DB_PASS'' @ CHR ''='' # prepare_line v"
    using prepare_line_append [of "''DB_PASS=''" v] by simp
  moreover have "strchr (''DB_PASS'' @ CHR ''='' # prepare_line v) (CHR ''='') = Some (CHR ''='' # prepare_line v)"
    by (rule strchr_found) simp
  ultimately have "parse_line ?l = Some (''DB_PASS'', prepare_line v)"
    unfolding parse_line_def Let_def by simp
  then have "fst (load_config f st) = put_key (''DB_PASS'', prepare_line v) create_default_config"
    using load_present [OF assms(1-3)] unfolding ls by simp
  then show ?thesis by (simp add: put_key_def prepare_line_filter)
qed

theorem load_cuts_value_witness:
  "db_pass (fst (load_config ''c'' (packaged_disk\<lparr>disk := [''c'' \<mapsto> ''DB_PASS=pass word#1'' @ [LF]]\<rparr>))) = Some ''password''"
  using load_cuts_value [of "packaged_disk\<lparr>disk := [''c'' \<mapsto> ''DB_PASS=pass word#1'' @ [LF]]\<rparr>" "''c''" "''pass word#1''"]
  by (simp add: packaged_disk_def isspace_def)

text \<open>
  C37: the update is not atomic: if the temporary file cannot be renamed, the configuration file is
  already gone, and the next start finds none.
\<close>

theorem update_not_atomic:
  assumes "disk st f = Some s" and "disk_fails st = [False, False, False, True]" and "length f < 500"
  shows "\<exists>st'. update_config_file f c st = (False, st') \<and> disk st' f = None \<and>
    \<not> check_config (fst (load_config f st'))"
proof -
  have t: "snprintf_buf MAX_LINE (f @ ''.tmp'') = f @ ''.tmp''" using assms(3) by (simp add: snprintf_buf_def MAX_LINE_def)
  have "\<exists>m st1. update_config_file f c st = (False, log_error m st1) \<and> disk st1 f = None"
    using assms(1,2)
    by (simp add: update_config_file_def t fopen_read_def fopen_write_def remove_file_def rename_file_def disk_ok_def Let_def)
      (intro exI conjI, rule refl, simp)
  then obtain st' where u: "update_config_file f c st = (False, st')" "disk st' f = None"
    using filing_frame(1) [OF log_more(3)] by metis
  have "fst (load_config f st') = create_default_config"
    using u(2) by (auto simp: load_config_def fopen_read_def disk_ok_def Let_def split: list.split)
  then show ?thesis using u by (simp add: check_config_def create_default_config_def)
qed

theorem update_not_atomic_witness:
  "\<exists>st'. update_config_file ''c'' sample_config (packaged_disk\<lparr>disk_fails := [False, False, False, True]\<rparr>) = (False, st') \<and>
     disk st' ''c'' = None"
  using update_not_atomic [of "packaged_disk\<lparr>disk_fails := [False, False, False, True]\<rparr>" "''c''" packaged_text sample_config]
  by (auto simp: packaged_disk_def)

end
