(* ===== verification/Setup.thy ===== *)
theory Setup
  imports Config
begin

text \<open>
  The questions of the configuration tool (\<open>src/proxy_config/setup.c\<close>) and the helpers of
  \<open>src/core/util.c\<close> they use: standard input is the list of bytes not read yet, and what the
  tool runs with \<open>system\<close> ends with the wait status the state lists next.
\<close>

section \<open>State\<close>

text \<open>
  \<open>statuses\<close> are the coming results of \<open>system\<close> (-1 when it cannot run a shell), \<open>ran\<close> the
  commands it was given; \<open>euid\<close> is the effective user.
\<close>

record terminal = filing +
  input :: string
  euid :: nat
  statuses :: "int list"
  ran :: "string list"

definition say :: "string \<Rightarrow> 'z console_scheme \<Rightarrow> 'z console_scheme" where
  "say s = fprint Stdout (s @ [LF])"

definition complain :: "string \<Rightarrow> 'z console_scheme \<Rightarrow> 'z console_scheme" where
  "complain s = fprint Stderr (s @ [LF])"

text \<open>Output leaves everything else alone.\<close>

lemma print_keeps [simp]:
  "input (fprint f s st) = input st" "heap (fprint f s st) = heap st" "disk (fprint f s st) = disk st"
  "disk_fails (fprint f s st) = disk_fails st" "euid (fprint f s st) = euid st"
  "statuses (fprint f s st) = statuses st" "ran (fprint f s st) = ran st" "errno_text (fprint f s st) = errno_text st"
  by (simp_all add: fprint_def split: stream.split)

lemma say_keeps [simp]:
  "input (say s st) = input st" "heap (say s st) = heap st" "disk (say s st) = disk st"
  "disk_fails (say s st) = disk_fails st" "euid (say s st) = euid st"
  "statuses (say s st) = statuses st" "ran (say s st) = ran st" "errno_text (say s st) = errno_text st"
  "input (complain s st) = input st" "heap (complain s st) = heap st" "disk (complain s st) = disk st"
  "disk_fails (complain s st) = disk_fails st" "statuses (complain s st) = statuses st" "ran (complain s st) = ran st"
  by (simp_all add: say_def complain_def)

definition fgets_stdin :: "nat \<Rightarrow> 'z terminal_scheme \<Rightarrow> string option \<times> 'z terminal_scheme" where
  "fgets_stdin n st =
     (case fgets n (input st) of None \<Rightarrow> (None, st) | Some (l, r) \<Rightarrow> (Some (cstr l), st\<lparr>input := r\<rparr>))"

section \<open>Helpers\<close>

definition get_program_name :: "string \<Rightarrow> string" where
  "get_program_name path = (case after_last (CHR ''/'') path of Some s \<Rightarrow> s | None \<Rightarrow> path)"

text \<open>The password, or \<open>None\<close>; the terminal's echo is switched off meanwhile.\<close>

definition get_password :: "string \<Rightarrow> 'z terminal_scheme \<Rightarrow> string option \<times> 'z terminal_scheme" where
  "get_password prompt st =
     (let (ok, m) = (case heap st of [] \<Rightarrow> (True, []) | b # r \<Rightarrow> (b, r));
          st = st\<lparr>heap := m\<rparr>
      in if \<not> ok then (None, st)
         else
           (let st = fprint Stdout prompt st;
                (line, st) = fgets_stdin 256 st
            in (map_option cut_newline line, fprint Stdout [LF] st)))"

definition get_input :: "nat \<Rightarrow> string \<Rightarrow> 'z terminal_scheme \<Rightarrow> string option \<times> 'z terminal_scheme" where
  "get_input buffer_len prompt st =
     (let st = fprint Stdout prompt st;
          (line, st) = fgets_stdin buffer_len st
      in (map_option cut_newline line, st))"

definition is_all_digits :: "string \<Rightarrow> bool" where
  "is_all_digits str = (if str = [] then False else list_all isdigit str)"

definition VERSION :: string where "VERSION = ''2.1.2''"

definition check_print_version :: "string list \<Rightarrow> 'z console_scheme \<Rightarrow> bool \<times> 'z console_scheme" where
  "check_print_version argv st =
     (if length argv > 1 \<and> (argv ! 1 = ''--version'' \<or> argv ! 1 = ''-v'')
      then (True, say (''simpleProxy version '' @ VERSION) st) else (False, st))"

section \<open>Questions\<close>

definition DEFAULT_PORT :: int where "DEFAULT_PORT = 3128"
definition DEFAULT_DB_PORT :: int where "DEFAULT_DB_PORT = 3306"
definition DEFAULT_DB_DATABASE :: string where "DEFAULT_DB_DATABASE = ''simpleproxy''"
definition DEFAULT_DB_HOST :: string where "DEFAULT_DB_HOST = ''127.0.0.1''"

text \<open>The size of the buffer all questions are answered into.\<close>

definition BUFFER_SIZE :: nat where "BUFFER_SIZE = 256"

definition bad_port :: string where
  "bad_port = ''Invalid port number: must be between 1 and 65535.''"

lemma get_input_shorter:
  assumes "get_input BUFFER_SIZE prompt st = (Some s, st')"
  shows "length (input st') < length (input st)"
proof -
  obtain l r where "fgets BUFFER_SIZE (input st) = Some (l, r)" "st' = (fprint Stdout prompt st)\<lparr>input := r\<rparr>"
    using assms by (auto simp: get_input_def fgets_stdin_def Let_def split: option.splits)
  then show ?thesis using fgets_shorter [of BUFFER_SIZE] by (simp add: BUFFER_SIZE_def)
qed

text \<open>A question is asked again until it is answered well; every answer uses up input.\<close>

function ask_port :: "'z terminal_scheme \<Rightarrow> int \<times> 'z terminal_scheme" where
  "ask_port st =
     (case get_input BUFFER_SIZE
        (''Select port on which proxy will run (DEFAULT: '' @ show_int DEFAULT_PORT @ '') -> '') st of
        (None, st) \<Rightarrow> (- 1, complain ''Reading from input failed'' st)
      | (Some buffer, st1) \<Rightarrow>
          if buffer = [] then (DEFAULT_PORT, st1)
          else if \<not> is_all_digits buffer then ask_port (say bad_port st1)
          else
            (let port = atoi buffer in
             if port < 0 \<and> port > 65535 then ask_port (say bad_port st1) else (port, st1)))"
  by pat_completeness auto
termination
  by (relation "measure (\<lambda>st. length (input st))") (auto dest!: get_input_shorter [OF sym])

function ask_db_port :: "'z terminal_scheme \<Rightarrow> int \<times> 'z terminal_scheme" where
  "ask_db_port st =
     (case get_input BUFFER_SIZE
        (''Select port on which your mysql database is running (DEFAULT: '' @ show_int DEFAULT_DB_PORT @ '') -> '') st of
        (None, st) \<Rightarrow> (- 1, complain ''Reading from input failed'' st)
      | (Some buffer, st1) \<Rightarrow>
          if buffer = [] then (DEFAULT_DB_PORT, st1)
          else if \<not> is_all_digits buffer then ask_db_port (say bad_port st1)
          else
            (let port = atoi buffer in
             if port < 0 \<or> port > 65535 then ask_db_port (say bad_port st1) else (port, st1)))"
  by pat_completeness auto
termination
  by (relation "measure (\<lambda>st. length (input st))") (auto dest!: get_input_shorter [OF sym])

definition ask_db_host :: "'z terminal_scheme \<Rightarrow> string option \<times> 'z terminal_scheme" where
  "ask_db_host st =
     (case get_input BUFFER_SIZE (''Select host of your mysql database (DEFAULT: '' @ DEFAULT_DB_HOST @ '') -> '') st of
        (None, st) \<Rightarrow> (None, complain ''Reading from input failed'' st)
      | (Some buffer, st) \<Rightarrow> strdup (if buffer = [] then DEFAULT_DB_HOST else buffer) st)"

definition ask_db_database :: "'z terminal_scheme \<Rightarrow> string option \<times> 'z terminal_scheme" where
  "ask_db_database st =
     (case get_input BUFFER_SIZE (''Select name of your mysql database (DEFAULT: '' @ DEFAULT_DB_DATABASE @ '') -> '') st of
        (None, st) \<Rightarrow> (None, complain ''Reading from input failed'' st)
      | (Some buffer, st) \<Rightarrow> strdup (if buffer = [] then DEFAULT_DB_DATABASE else buffer) st)"

function ask_db_user :: "'z terminal_scheme \<Rightarrow> string option \<times> 'z terminal_scheme" where
  "ask_db_user st =
     (case get_input BUFFER_SIZE ''Select username of user in database -> '' st of
        (None, st) \<Rightarrow> (None, complain ''Reading from input failed'' st)
      | (Some buffer, st1) \<Rightarrow>
          if buffer = [] then ask_db_user (say ''No user selected'' st1) else strdup buffer st1)"
  by pat_completeness auto
termination
  by (relation "measure (\<lambda>st. length (input st))") (auto dest!: get_input_shorter [OF sym])

function ask_db_pass :: "'z terminal_scheme \<Rightarrow> string option \<times> 'z terminal_scheme" where
  "ask_db_pass st =
     (case get_input BUFFER_SIZE ''Select password of user in database -> '' st of
        (None, st) \<Rightarrow> (None, complain ''Reading from input failed'' st)
      | (Some buffer, st1) \<Rightarrow>
          if buffer = [] then ask_db_pass (say ''No password selected'' st1) else strdup buffer st1)"
  by pat_completeness auto
termination
  by (relation "measure (\<lambda>st. length (input st))") (auto dest!: get_input_shorter [OF sym])

declare ask_port.simps [simp del] ask_db_port.simps [simp del] ask_db_user.simps [simp del] ask_db_pass.simps [simp del]

section \<open>The service\<close>

definition SERVICE_NAME :: string where "SERVICE_NAME = ''simpleproxy.service''"

definition EXIT_SUCCESS :: int where "EXIT_SUCCESS = 0"
definition EXIT_FAILURE :: int where "EXIT_FAILURE = 1"

text \<open>The macros on a wait status.\<close>

definition WIFEXITED :: "int \<Rightarrow> bool" where "WIFEXITED s \<longleftrightarrow> s mod 128 = 0"
definition WEXITSTATUS :: "int \<Rightarrow> int" where "WEXITSTATUS s = (s div 256) mod 256"

definition system_call :: "string \<Rightarrow> 'z terminal_scheme \<Rightarrow> int \<times> 'z terminal_scheme" where
  "system_call command st =
     (let st = st\<lparr>ran := ran st @ [command]\<rparr> in
      case statuses st of [] \<Rightarrow> (0, st) | r # rs \<Rightarrow> (r, st\<lparr>statuses := rs\<rparr>))"

definition run_systemctl :: "string option \<Rightarrow> string option \<Rightarrow> 'z terminal_scheme \<Rightarrow> int \<times> 'z terminal_scheme" where
  "run_systemctl action service_name st =
     (case (action, service_name) of
        (Some a, Some n) \<Rightarrow>
          (let command = snprintf_buf 256 (''systemctl '' @ a @ '' '' @ n);
               st = say (''Running: '' @ command) st;
               (res, st) = system_call command st
           in if res = - 1 then (- 1, complain (''Failed to execute system command: '' @ errno_text st) st)
              else if WIFEXITED res \<and> WEXITSTATUS res = 0
              then (0, say (''systemctl '' @ a @ '' '' @ n @ '' succeeded.'') st)
              else (- 1, complain (''systemctl '' @ a @ '' '' @ n @ '' failed with exit code '' @
                     show_int (WEXITSTATUS res)) st))
      | _ \<Rightarrow> (- 1, complain ''Invalid systemctl action or service name'' st))"

definition start_enable_service :: "'z terminal_scheme \<Rightarrow> int \<times> 'z terminal_scheme" where
  "start_enable_service st =
     (let (r, st) = run_systemctl (Some ''enable'') (Some SERVICE_NAME) st in
      if r \<noteq> 0 then (EXIT_FAILURE, complain ''Error enabling the service.'' st)
      else
        (let (r, st) = run_systemctl (Some ''start'') (Some SERVICE_NAME) st in
         if r \<noteq> 0 then (EXIT_FAILURE, complain ''Error starting the service.'' st)
         else (EXIT_SUCCESS, st)))"

text \<open>The negation binds tighter than the comparison, so 0 or 1 is compared with a letter.\<close>

definition prompt_and_enable_service :: "'z terminal_scheme \<Rightarrow> int \<times> 'z terminal_scheme" where
  "prompt_and_enable_service st =
     (let st = fprint Stdout ([LF] @ ''Would you like to enable and start the service automatically? [y/N]: '') st;
          (line, st) = fgets_stdin 16 st
      in case line of
           None \<Rightarrow> (EXIT_FAILURE, complain ''Input error'' st)
         | Some l \<Rightarrow>
             (let answer = cut_newline l;
                  first = (if answer = [] then NUL else hd answer);
                  negated = (if tolower first = NUL then 1 else 0)
              in if negated = code (CHR ''y'')
                 then (EXIT_SUCCESS,
                   say (''  sudo systemctl start '' @ SERVICE_NAME)
                     (say (''  sudo systemctl enable '' @ SERVICE_NAME)
                       (say ''Okay. You can enable and start the service manually:'' st)))
                 else start_enable_service st))"

section \<open>Answers\<close>

text \<open>What the questions leave alone.\<close>

definition untouched :: "'z terminal_scheme \<Rightarrow> 'z terminal_scheme \<Rightarrow> bool" where
  "untouched st st' \<longleftrightarrow> disk st' = disk st \<and> disk_fails st' = disk_fails st \<and> heap st' = heap st \<and>
     euid st' = euid st \<and> statuses st' = statuses st \<and> ran st' = ran st"

lemma untouched_simps [simp]:
  "untouched st st" "untouched (say s st) st' = untouched st st'" "untouched st ((fprint f s st1)\<lparr>input := r\<rparr>) = untouched st st1"
  by (simp_all add: untouched_def)

lemma untouched_trans: "untouched st st1 \<Longrightarrow> untouched st1 st2 \<Longrightarrow> untouched st st2"
  by (simp add: untouched_def)

text \<open>A line that fits the buffer is read as it was typed.\<close>

lemma fgets_stdin_line:
  assumes "input st = l @ LF # r" and "LF \<notin> set l" and "length l < 255" and "c_string l"
  shows "fgets_stdin 256 st = (Some (l @ [LF]), st\<lparr>input := r\<rparr>)" and "cut_newline (l @ [LF]) = l"
proof -
  have "fgets 256 (l @ LF # r) = Some (l @ [LF], r)"
    using fgets_chars_line [OF assms(2), of 255 r] assms(3) by (simp add: fgets_def)
  moreover have "cstr (l @ [LF]) = l @ [LF]" using assms(4) by (intro cstr_id) simp
  ultimately show "fgets_stdin 256 st = (Some (l @ [LF]), st\<lparr>input := r\<rparr>)"
    by (simp add: fgets_stdin_def assms(1))
  show "cut_newline (l @ [LF]) = l"
    unfolding cut_newline_def using assms(2) by (intro takeWhile_append_stop) auto
qed

text \<open>The answers that \<open>ask_db_port\<close> takes, and the number it makes of them.\<close>

definition good_port :: "string \<Rightarrow> bool" where
  "good_port l \<longleftrightarrow> l = [] \<or> is_all_digits l \<and> 0 \<le> atoi l \<and> atoi l \<le> 65535"

definition typed :: "string \<Rightarrow> bool" where
  "typed l \<longleftrightarrow> LF \<notin> set l \<and> length l < 255 \<and> c_string l"

text \<open>How a question goes on with the answer \<open>l\<close>, and what is left to read.\<close>

lemma get_typed:
  assumes "input st = l @ LF # r" and "typed l"
  shows "get_input BUFFER_SIZE prompt st = (Some l, (fprint Stdout prompt st)\<lparr>input := r\<rparr>)"
  using fgets_stdin_line [of "fprint Stdout prompt st" l r] assms
  by (simp add: get_input_def typed_def BUFFER_SIZE_def Let_def)

lemma ask_db_port_step:
  assumes "input st = l @ LF # r" and "typed l"
  shows "\<exists>st1. input st1 = r \<and> untouched st st1 \<and>
    ask_db_port st = (if good_port l then (if l = [] then DEFAULT_DB_PORT else atoi l, st1) else ask_db_port st1)"
proof -
  let ?p = "''Select port on which your mysql database is running (DEFAULT: '' @ show_int DEFAULT_DB_PORT @ '') -> ''"
  let ?st1 = "(fprint Stdout ?p st)\<lparr>input := r\<rparr>"
  note g = get_typed [OF assms, of ?p]
  show ?thesis
  proof (cases "good_port l")
    case True
    then have "ask_db_port st = (if l = [] then DEFAULT_DB_PORT else atoi l, ?st1)"
      by (simp only: ask_db_port.simps [of st] g prod.case option.case) (auto simp: Let_def good_port_def)
    then show ?thesis using True by (intro exI [of _ ?st1]) simp
  next
    case False
    then have "ask_db_port st = ask_db_port (say bad_port ?st1)"
      by (simp only: ask_db_port.simps [of st] g prod.case option.case) (auto simp: Let_def good_port_def)
    then show ?thesis using False by (intro exI [of _ "say bad_port ?st1"]) (simp add: untouched_def)
  qed
qed

lemma ask_port_step:
  assumes "input st = l @ LF # r" and "typed l" and "l = [] \<or> is_all_digits l"
  shows "\<exists>st1. input st1 = r \<and> untouched st st1 \<and> ask_port st = (if l = [] then DEFAULT_PORT else atoi l, st1)"
proof -
  let ?p = "''Select port on which proxy will run (DEFAULT: '' @ show_int DEFAULT_PORT @ '') -> ''"
  have "ask_port st = (if l = [] then DEFAULT_PORT else atoi l, (fprint Stdout ?p st)\<lparr>input := r\<rparr>)"
    using assms(3) by (simp only: ask_port.simps [of st] get_typed [OF assms(1,2)] prod.case option.case) (auto simp: Let_def)
  then show ?thesis by (intro exI [of _ "(fprint Stdout ?p st)\<lparr>input := r\<rparr>"]) simp
qed

lemma ask_text_step:
  assumes "input st = l @ LF # r" and "typed l" and "heap st = []"
  shows "\<exists>st1. input st1 = r \<and> untouched st st1 \<and> ask_db_host st = (Some (if l = [] then DEFAULT_DB_HOST else l), st1)"
    and "\<exists>st1. input st1 = r \<and> untouched st st1 \<and>
      ask_db_database st = (Some (if l = [] then DEFAULT_DB_DATABASE else l), st1)"
    and "l \<noteq> [] \<Longrightarrow> \<exists>st1. input st1 = r \<and> untouched st st1 \<and> ask_db_user st = (Some l, st1)"
    and "l \<noteq> [] \<Longrightarrow> \<exists>st1. input st1 = r \<and> untouched st st1 \<and> ask_db_pass st = (Some l, st1)"
  by (simp_all add: ask_db_host_def ask_db_database_def ask_db_user.simps [of st] ask_db_pass.simps [of st]
      get_typed [OF assms(1,2)] strdup_def assms(3))

text \<open>
  The question for the database port is repeated until it is answered: whatever unusable lines
  are typed first, the result is the number of the first usable one (or the default for an empty
  line), it is at most 65535, and no input after that line is used up.
\<close>

theorem ask_db_port_retries:
  assumes "input st = concat (map (\<lambda>l. l @ [LF]) bad) @ l @ LF # r"
    and "\<forall>b \<in> set bad. typed b \<and> \<not> good_port b" and "typed l" and "good_port l"
  shows "\<exists>st'. ask_db_port st = (if l = [] then 3306 else atoi l, st') \<and> input st' = r \<and>
    0 \<le> fst (ask_db_port st) \<and> fst (ask_db_port st) \<le> 65535"
  using assms(1,2)
proof (induction bad arbitrary: st)
  case Nil
  obtain st1 where "input st1 = r" "ask_db_port st = (if l = [] then DEFAULT_DB_PORT else atoi l, st1)"
    using ask_db_port_step [of st l r] Nil(1) assms(3,4) by auto
  then show ?case using assms(4) by (auto simp: DEFAULT_DB_PORT_def good_port_def)
next
  case (Cons b bad)
  have i: "input st = b @ LF # (concat (map (\<lambda>l. l @ [LF]) bad) @ l @ LF # r)" using Cons.prems(1) by simp
  obtain st1 where "input st1 = concat (map (\<lambda>l. l @ [LF]) bad) @ l @ LF # r" "ask_db_port st = ask_db_port st1"
    using ask_db_port_step [OF i] Cons.prems(2) by auto
  then show ?case using Cons.IH [of st1] Cons.prems(2) by simp
qed

definition sample_terminal :: terminal where
  "sample_terminal = \<lparr>out = [], err = [], log_output_normal = Some Stdout, log_output_error = Some Stderr,
     current_level = LOG_DEBUG, logger_flags = 3, clock = [], disk = Map.empty, disk_fails = [], heap = [],
     errno_text = [], input = [], euid = 0, statuses = [], ran = []\<rparr>"

theorem ask_db_port_retries_witness:
  "\<exists>st'. ask_db_port (sample_terminal\<lparr>input := ''many'' @ [LF] @ ''70000'' @ [LF] @ ''3307'' @ [LF] @ ''x''\<rparr>) =
     (3307, st') \<and> input st' = ''x''"
proof -
  have b: "typed ''many''" "typed ''70000''" "typed ''3307''" by (simp_all add: typed_def)
  have g: "\<not> good_port ''many''" "\<not> good_port ''70000''" "good_port ''3307''" "atoi ''3307'' = 3307" by code_simp+
  show ?thesis
    using ask_db_port_retries [of "sample_terminal\<lparr>input := ''many'' @ [LF] @ ''70000'' @ [LF] @ ''3307'' @ [LF] @ ''x''\<rparr>"
        "[''many'', ''70000'']" "''3307''" "''x''"] b g by auto
qed

text \<open>
  The test in the question for the proxy's own port is a conjunction that no number satisfies:
  the first line of digits is taken, whatever its value.
\<close>

theorem ask_port_unchecked:
  assumes "input st = l @ LF # r" and "typed l" and "is_all_digits l"
  shows "\<exists>st'. ask_port st = (atoi l, st') \<and> input st' = r"
proof -
  have "l \<noteq> []" using assms(3) by (auto simp: is_all_digits_def)
  then show ?thesis using ask_port_step [OF assms(1,2)] assms(3) by auto
qed

theorem ask_port_unchecked_witness:
  "\<exists>st'. ask_port (sample_terminal\<lparr>input := ''99999'' @ [LF]\<rparr>) = (99999, st')"
proof -
  have "typed ''99999''" "is_all_digits ''99999''" "atoi ''99999'' = 99999" by code_simp+
  then show ?thesis using ask_port_unchecked [of "sample_terminal\<lparr>input := ''99999'' @ [LF]\<rparr>" "''99999''" "[]"] by auto
qed

section \<open>The service\<close>

lemma run_systemctl_ran:
  "ran (snd (run_systemctl (Some a) (Some n) st)) = ran st @ [snprintf_buf 256 (''systemctl '' @ a @ '' '' @ n)]"
  by (auto simp: run_systemctl_def system_call_def Let_def split: list.split)

lemma system_keeps [simp]:
  "disk (snd (system_call c st)) = disk st" "disk_fails (snd (system_call c st)) = disk_fails st"
  "heap (snd (system_call c st)) = heap st"
  by (simp_all add: system_call_def Let_def split: list.split)

lemma run_systemctl_keeps [simp]:
  "disk (snd (run_systemctl a n st)) = disk st" "disk_fails (snd (run_systemctl a n st)) = disk_fails st"
  "heap (snd (run_systemctl a n st)) = heap st"
  by (simp_all add: run_systemctl_def Let_def split: option.split prod.split)
     (metis system_keeps say_keeps snd_conv)+

lemma start_enable_keeps [simp]:
  "disk (snd (start_enable_service st)) = disk st" "disk_fails (snd (start_enable_service st)) = disk_fails st"
  "heap (snd (start_enable_service st)) = heap st"
  by (simp_all add: start_enable_service_def split: prod.split) (metis run_systemctl_keeps snd_conv)+

lemma fgets_stdin_keeps [simp]:
  "disk (snd (fgets_stdin n st)) = disk st" "disk_fails (snd (fgets_stdin n st)) = disk_fails st"
  "heap (snd (fgets_stdin n st)) = heap st"
  by (simp_all add: fgets_stdin_def split: option.split)

lemma prompt_keeps [simp]:
  "disk (snd (prompt_and_enable_service st)) = disk st"
  "disk_fails (snd (prompt_and_enable_service st)) = disk_fails st"
  "heap (snd (prompt_and_enable_service st)) = heap st"
  by (simp_all add: prompt_and_enable_service_def Let_def split: option.split prod.split)
     (metis fgets_stdin_keeps print_keeps snd_conv)+

text \<open>
  The answer to the question whether the service is to be enabled is ignored: with any line
  typed, \<open>n\<close> too, the tool runs the command that enables it.
\<close>

theorem service_always_enabled:
  assumes "input st \<noteq> []"
  shows "\<exists>more. ran (snd (prompt_and_enable_service st)) = ran st @ ''systemctl enable simpleproxy.service'' # more"
proof -
  have y: "(if b then 1 else 0) \<noteq> code (CHR ''y'')" for b by (simp add: code_def)
  obtain l r where f: "fgets 16 (input st) = Some (l, r)" using assms by (cases "fgets_chars 15 (input st)") (simp add: fgets_def)
  have g: "fgets_stdin 16 (fprint Stdout p st) = (Some (cstr l), (fprint Stdout p st)\<lparr>input := r\<rparr>)" for p
    by (simp add: fgets_stdin_def f)
  obtain p where "prompt_and_enable_service st = start_enable_service ((fprint Stdout p st)\<lparr>input := r\<rparr>)"
    by (simp only: prompt_and_enable_service_def Let_def g prod.case option.case y if_False)
  moreover have "ran ((fprint Stdout p st)\<lparr>input := r\<rparr>) = ran st" by simp
  moreover have "\<exists>more. ran (snd (start_enable_service st1)) = ran st1 @ ''systemctl enable simpleproxy.service'' # more" for st1 :: "'a terminal_scheme"
  proof -
    obtain x st2 where 1: "run_systemctl (Some ''enable'') (Some SERVICE_NAME) st1 = (x, st2)" by fastforce
    obtain y st3 where 2: "run_systemctl (Some ''start'') (Some SERVICE_NAME) st2 = (y, st3)" by fastforce
    have "snprintf_buf 256 (''systemctl '' @ ''enable'' @ '' '' @ SERVICE_NAME) = ''systemctl enable simpleproxy.service''"
      by (simp add: snprintf_buf_def SERVICE_NAME_def)
    then show ?thesis
      using run_systemctl_ran [of "''enable''" SERVICE_NAME st1] run_systemctl_ran [of "''start''" SERVICE_NAME st2]
      by (simp add: start_enable_service_def 1 2)
  qed
  ultimately show ?thesis by metis
qed

theorem service_always_enabled_witness:
  "\<exists>more. ran (snd (prompt_and_enable_service (sample_terminal\<lparr>input := ''n'' @ [LF]\<rparr>))) =
     ''systemctl enable simpleproxy.service'' # more"
  using service_always_enabled [of "sample_terminal\<lparr>input := ''n'' @ [LF]\<rparr>"] by (simp add: sample_terminal_def)

end
