(* ===== verification/Commands.thy ===== *)
theory Commands
  imports Setup Database
begin

text \<open>
  The connection of \<open>src/core/db/db.c\<close> and the configuration tool: the commands of
  \<open>src/proxy_config/commands.c\<close> and the \<open>main\<close> of \<open>proxy_config.c\<close>. A command returns its
  exit code, the connection and the state of the process; what the code does with memory it
  does not own is an \<open>Inl\<close>.
\<close>

section \<open>The connection\<close>

text \<open>
  \<open>my_init\<close> answers with the handle that has the reconnect option set. A connection that fails is
  closed at once; the lock has no effect in a process with one thread.
\<close>

definition db_create :: "'s mysql \<Rightarrow> config \<Rightarrow> 'z console_scheme \<Rightarrow> 's option \<times> 'z console_scheme" where
  "db_create my config st =
     (case my_init my of
        None \<Rightarrow> (None, log_error ''mysql_init() failed'' st)
      | Some conn \<Rightarrow>
          (case my_connect my conn (db_host config) (db_user config) (db_pass config) (db_database config)
             (db_port config) of
             None \<Rightarrow> (None, log_error (''mysql_real_connect() failed Error: '' @ my_error my conn) st)
           | Some conn \<Rightarrow> (Some conn, st)))"

text \<open>A statement with the line \<open>db_execute\<close> logs when it fails.\<close>

definition run_statement ::
    "'s mysql \<Rightarrow> 's \<Rightarrow> string \<Rightarrow> 'z console_scheme \<Rightarrow> db_result \<times> 's \<times> 'z console_scheme" where
  "run_statement my conn query st =
     (let (failed, asked) = my_query my conn query;
          st = (if failed then log_error (''Query failed: '' @ my_error my asked) st else st);
          (res, conn) = db_execute my conn query
      in (res, conn, st))"

section \<open>The setup command\<close>

definition CONF_PATH :: string where "CONF_PATH = ''/etc/simpleproxy/simpleproxy.conf''"

text \<open>The questions of \<open>cmd_setup\<close>: the configuration, or nothing when one of them fails.\<close>

definition ask_config :: "'z terminal_scheme \<Rightarrow> config option \<times> 'z terminal_scheme" where
  "ask_config st =
     (let config = create_default_config;
          (port, st) = ask_port st;
          config = config\<lparr>cfg_port := port\<rparr>
      in if cfg_port config = - 1 then (None, st) else
     (let st = say (''Selected port -> '' @ show_int (cfg_port config)) st;
          (port, st) = ask_db_port st;
          config = config\<lparr>db_port := port\<rparr>
      in if db_port config = - 1 then (None, st) else
     (let st = say (''Selected database port -> '' @ show_int (db_port config)) st;
          (host, st) = ask_db_host st;
          config = config\<lparr>db_host := host\<rparr>
      in if db_host config = None then (None, st) else
     (let st = say (''Selected database host -> '' @ or_empty (db_host config)) st;
          (name, st) = ask_db_database st;
          config = config\<lparr>db_database := name\<rparr>
      in if db_database config = None then (None, st) else
     (let st = say (''Selected database name -> '' @ or_empty (db_database config)) st;
          (user, st) = ask_db_user st;
          config = config\<lparr>db_user := user\<rparr>
      in if db_user config = None then (None, st) else
     (let st = say (''Selected database user -> '' @ or_empty (db_user config)) st;
          (pass, st) = ask_db_pass st;
          config = config\<lparr>db_pass := pass\<rparr>
      in if db_pass config = None then (None, st) else
     (Some config, say (''Selected database password -> '' @ or_empty (db_pass config)) st)))))))"

definition root_message :: string where
  "root_message = [LF] @ ''This action requires root permissions.'' @ [LF] @
     ''Please run this command with sudo:'' @ [LF, LF] @ ''sudo simpleproxy-config setup'' @ [LF, LF]"

definition cmd_setup :: "'z terminal_scheme \<Rightarrow> int \<times> 'z terminal_scheme" where
  "cmd_setup st =
     (let st = say ''Setting up proxy configurations...'' st in
      if euid st \<noteq> 0 then (EXIT_FAILURE, fprint Stderr root_message st)
      else
        (let (config, st) = ask_config st in
         case config of
           None \<Rightarrow> (EXIT_FAILURE, st)
         | Some config \<Rightarrow>
             (let (ok, st) = update_config_file CONF_PATH config st in
              if \<not> ok then (EXIT_FAILURE,
                say (''In order for proxy to work correctly configure it yourself by editing '' @ CONF_PATH)
                  (say ''Configurating failed'' st))
              else
                (let st = say ''Configurations successfully set up'' st;
                     (r, st) = prompt_and_enable_service st
                 in (if r \<noteq> 0 then EXIT_FAILURE else EXIT_SUCCESS, st)))))"

definition cmd_setup_service :: "'z terminal_scheme \<Rightarrow> int \<times> 'z terminal_scheme" where
  "cmd_setup_service st = start_enable_service st"

section \<open>The database commands\<close>

definition cmd_migrate ::
    "'s mysql \<Rightarrow> 's \<Rightarrow> 'z terminal_scheme \<Rightarrow> (int \<times> 's \<times> 'z terminal_scheme) result" where
  "cmd_migrate my conn st =
     (let st = say ''Migrating...'' st in
      bindR (db_user_migration (heap st)) (\<lambda>(query, m).
        let st = st\<lparr>heap := m\<rparr> in
        case query of
          None \<Rightarrow> Inr (1, conn, complain ''Migration failed: could not create query.'' st)
        | Some query \<Rightarrow>
            (let (res, conn, st) = run_statement my conn query st in
             if res = DbDone then Inr (0, conn, say ''Migration successful.'' st)
             else Inr (1, conn, complain ''Migration failed: query execution failed.'' st))))"

definition cmd_drop ::
    "'s mysql \<Rightarrow> 's \<Rightarrow> 'z terminal_scheme \<Rightarrow> (int \<times> 's \<times> 'z terminal_scheme) result" where
  "cmd_drop my conn st =
     (let st = say ''Dropping database...'' st in
      bindR (db_drop_database my conn (heap st)) (\<lambda>(query, conn, m).
        let st = st\<lparr>heap := m\<rparr> in
        case query of
          None \<Rightarrow> Inr (1, conn, complain ''Drop failed: could not create query.'' st)
        | Some query \<Rightarrow>
            (let (res, conn, st) = run_statement my conn query st in
             if res = DbDone then Inr (0, conn, say ''Drop successful.'' st)
             else Inr (1, conn, complain ''Drop failed: query execution failed.'' st))))"

definition cmd_reset ::
    "'s mysql \<Rightarrow> 's \<Rightarrow> 'z terminal_scheme \<Rightarrow> (int \<times> 's \<times> 'z terminal_scheme) result" where
  "cmd_reset my conn st =
     (let st = say ''Resetting database...'' st in
      bindR (db_drop_database my conn (heap st)) (\<lambda>(dropping, conn, m).
      bindR (db_user_migration m) (\<lambda>(migrate, m).
        let st = st\<lparr>heap := m\<rparr> in
        case (dropping, migrate) of
          (Some dropping, Some migrate) \<Rightarrow>
            (let (res1, conn, st) = run_statement my conn dropping st;
                 (res2, conn, st) = run_statement my conn migrate st
             in if res1 = DbDone \<and> res2 = DbDone then Inr (0, conn, say ''Reset successful.'' st)
                else Inr (1, conn, complain ''Reset failed: query execution failed.'' st))
        | _ \<Rightarrow> Inr (1, conn, complain ''Failed to create queries for reset.'' st))))"

text \<open>The test of the arguments that \<open>add\<close> and \<open>remove\<close> share.\<close>

definition names_user :: "string list \<Rightarrow> bool" where
  "names_user argv \<longleftrightarrow> \<not> (length argv \<noteq> 4 \<or> (argv ! 2 \<noteq> ''-u'' \<and> argv ! 2 \<noteq> ''--user''))"

definition cmd_add ::
    "'s mysql \<Rightarrow> string list \<Rightarrow> 's \<Rightarrow> 'z terminal_scheme \<Rightarrow> (int \<times> 's \<times> 'z terminal_scheme) result" where
  "cmd_add my argv conn st =
     (if \<not> names_user argv
      then Inr (1, conn, complain (''Usage: '' @ argv ! 0 @ '' add -u <username>'') st)
      else
        (let name = argv ! 3;
             st = say (''Adding user: '' @ name) st;
             (pass, st) = get_password ''Password: '' st
         in case pass of
              None \<Rightarrow> Inr (1, conn, complain ''Failed to read password.'' st)
            | Some pass \<Rightarrow>
                (let (query, m) = db_user_add name pass (heap st);
                     st = st\<lparr>heap := m\<rparr>
                 in case query of
                      None \<Rightarrow> Inr (1, conn, complain ''Failed to create add user query.'' st)
                    | Some query \<Rightarrow>
                        (let (res, conn, st) = run_statement my conn query st in
                         if res = DbDone then Inr (0, conn, say ''User added.'' st)
                         else Inr (1, conn, complain ''Add failed: query execution failed.'' st)))))"

definition cmd_remove ::
    "'s mysql \<Rightarrow> string list \<Rightarrow> 's \<Rightarrow> 'z terminal_scheme \<Rightarrow> (int \<times> 's \<times> 'z terminal_scheme) result" where
  "cmd_remove my argv conn st =
     (if \<not> names_user argv
      then Inr (1, conn, complain (''Usage: '' @ argv ! 0 @ '' remove -u <username>'') st)
      else
        (let name = argv ! 3;
             st = say (''Removing user: '' @ name) st;
             (query, m) = db_user_remove name (heap st);
             st = st\<lparr>heap := m\<rparr>
         in case query of
              None \<Rightarrow> Inr (1, conn, complain ''Failed to create remove user query.'' st)
            | Some query \<Rightarrow>
                (let (res, conn, st) = run_statement my conn query st in
                 if res = DbDone then Inr (0, conn, say ''User removed.'' st)
                 else Inr (1, conn, complain ''Remove failed: query execution failed.'' st))))"

section \<open>The table of commands\<close>

text \<open>A command is called with a pointer to the connection, null for \<open>setup\<close>.\<close>

type_synonym ('s, 'z) command =
  "string list \<Rightarrow> 's option \<Rightarrow> 'z terminal_scheme \<Rightarrow> (int \<times> 's option \<times> 'z terminal_scheme) result"

definition without_db :: "('z terminal_scheme \<Rightarrow> int \<times> 'z terminal_scheme) \<Rightarrow> ('s, 'z) command" where
  "without_db f argv db st = (let (r, st) = f st in Inr (r, db, st))"

definition with_db ::
    "(string list \<Rightarrow> 's \<Rightarrow> 'z terminal_scheme \<Rightarrow> (int \<times> 's \<times> 'z terminal_scheme) result) \<Rightarrow> ('s, 'z) command" where
  "with_db f argv db st =
     (case db of
        None \<Rightarrow> Inl NullDeref
      | Some conn \<Rightarrow> bindR (f argv conn st) (\<lambda>(r, conn, st). Inr (r, Some conn, st)))"

definition COMMANDS :: "'s mysql \<Rightarrow> (string \<times> string \<times> ('s, 'z) command) list" where
  "COMMANDS my =
     [(''setup'', ''Sets up configurations for proxy'', without_db cmd_setup),
      (''setup-service'', ''Sets up only systemd service for proxy'', without_db cmd_setup_service),
      (''migrate'', ''Create all necessary tables'', with_db (\<lambda>_. cmd_migrate my)),
      (''drop'', ''Remove all tables'', with_db (\<lambda>_. cmd_drop my)),
      (''reset'', ''Drop and re-create all tables'', with_db (\<lambda>_. cmd_reset my)),
      (''add'', ''Add a new user'', with_db (cmd_add my)),
      (''remove'', ''Remove an existing user'', with_db (cmd_remove my))]"

text \<open>The format \<open>%-15s\<close>.\<close>

definition pad15 :: "string \<Rightarrow> string" where
  "pad15 s = s @ replicate (15 - length s) (CHR '' '')"

definition help_line :: "string \<Rightarrow> string \<Rightarrow> string" where
  "help_line name description = ''  '' @ pad15 name @ '' '' @ description"

definition print_command_help ::
    "(string \<times> string \<times> ('s, 'z) command) list \<Rightarrow> string \<Rightarrow> 'z terminal_scheme \<Rightarrow> 'z terminal_scheme" where
  "print_command_help commands program_name st =
     (let st = say [] (say (''Usage: '' @ program_name @ '' <command> [OPTIONS]'') st);
          st = say ''Available commands:'' st;
          st = fold (\<lambda>(name, description, f). say (help_line name description)) commands st;
          st = say (help_line ''-v / --version'' ''Prints version of simpleproxy package'') st;
          st = say ''Examples:'' (say [] st);
          st = say (''  '' @ program_name @ '' migrate'') st
      in say (''  '' @ program_name @ '' add -u admin'') st)"

section \<open>The tool\<close>

definition proxy_config_main ::
    "'s mysql \<Rightarrow> string list \<Rightarrow> 'z terminal_scheme \<Rightarrow> (int \<times> 's option \<times> 'z terminal_scheme) result" where
  "proxy_config_main my argv st =
     (let (version, st) = check_print_version argv st in
      if version then Inr (EXIT_SUCCESS, None, st)
      else
        (let st = logger_init (Some Stdout) (Some Stderr) LOG_DEBUG (or LOG_FLAG_NO_LEVEL LOG_FLAG_NO_TIMESTAMP) st
         in case argv of
              [] \<Rightarrow> Inl NullDeref
            | path # _ \<Rightarrow>
                (let program_name = get_program_name path in
                 if length argv < 2 then Inr (EXIT_FAILURE, None, print_command_help (COMMANDS my) program_name st)
                 else
                   (let cmd = argv ! 1 in
                    if cmd = ''setup'' then (snd (snd (COMMANDS my ! 0))) argv None st
                    else
                      (let (config, st) = load_config CONF_PATH st in
                       if \<not> check_config config
                       then Inr (EXIT_FAILURE, None, complain ''Configuration file is incomplete or corrupted'' st)
                       else
                         (let (db, st) = db_create my config st in
                          case db of
                            None \<Rightarrow> Inr (EXIT_FAILURE, None, complain ''Failed to connect to database.'' st)
                          | Some conn \<Rightarrow>
                              (case find (\<lambda>(name, _). name = cmd) (COMMANDS my) of
                                 Some (_, _, func) \<Rightarrow>
                                   bindR (func argv (Some conn) st) (\<lambda>(result, db, st).
                                     Inr (if result = 0 then EXIT_SUCCESS else EXIT_FAILURE, db, st))
                               | None \<Rightarrow>
                                   Inr (EXIT_FAILURE, Some conn, print_command_help (COMMANDS my) program_name
                                     (complain (''Unknown command: '' @ cmd) st)))))))))"

section \<open>The questions together\<close>

text \<open>The configuration that six lines of answers stand for.\<close>

definition answered :: "string \<Rightarrow> string \<Rightarrow> string \<Rightarrow> string \<Rightarrow> string \<Rightarrow> string \<Rightarrow> config" where
  "answered p q h d u w =
     \<lparr>cfg_port = (if p = [] then DEFAULT_PORT else atoi p), db_port = (if q = [] then DEFAULT_DB_PORT else atoi q),
      db_host = Some (if h = [] then DEFAULT_DB_HOST else h),
      db_database = Some (if d = [] then DEFAULT_DB_DATABASE else d), db_user = Some u, db_pass = Some w\<rparr>"

lemma ask_config_answers:
  assumes "input st = p @ LF # q @ LF # h @ LF # d @ LF # u @ LF # w @ LF # r"
    and "typed p" "typed q" "typed h" "typed d" "typed u" "typed w" "heap st = []"
    and "p = [] \<or> is_all_digits p" "good_port q" "u \<noteq> []" "w \<noteq> []"
    and "cfg_port (answered p q h d u w) \<noteq> - 1"
  shows "\<exists>st1. input st1 = r \<and> untouched st st1 \<and> ask_config st = (Some (answered p q h d u w), st1)"
proof -
  let ?c = "answered p q h d u w"
  obtain st1 where 1: "input st1 = q @ LF # h @ LF # d @ LF # u @ LF # w @ LF # r" "untouched st st1"
      "ask_port st = (cfg_port ?c, st1)"
    using ask_port_step [OF assms(1,2,9)] by (auto simp: answered_def)
  have q: "db_port ?c \<noteq> - 1" using assms(10) by (auto simp: answered_def good_port_def DEFAULT_DB_PORT_def)
  have 2: "\<exists>st2. input st2 = h @ LF # d @ LF # u @ LF # w @ LF # r \<and> untouched st1 st2 \<and>
      ask_db_port (say s st1) = (db_port ?c, st2)" for s
    using ask_db_port_step [of "say s st1", OF _ assms(3)] 1(1) assms(10) by (auto simp: answered_def)
  obtain st2 where 2: "input st2 = h @ LF # d @ LF # u @ LF # w @ LF # r" "untouched st1 st2"
      "ask_db_port (say (''Selected port -> '' @ show_int (cfg_port ?c)) st1) = (db_port ?c, st2)"
    using 2 by blast
  have hp: "heap st2 = []" using 1(2) 2(2) assms(8) by (simp add: untouched_def)
  let ?s2 = "say (''Selected database port -> '' @ show_int (db_port ?c)) st2"
  obtain st3 where 3: "input st3 = d @ LF # u @ LF # w @ LF # r" "untouched st2 st3"
      "ask_db_host ?s2 = (db_host ?c, st3)"
    using ask_text_step(1) [of ?s2, OF _ assms(4)] 2(1) hp unfolding answered_def by auto
  have hp: "heap st3 = []" using 3(2) hp by (simp add: untouched_def)
  let ?s3 = "say (''Selected database host -> '' @ or_empty (db_host ?c)) st3"
  obtain st4 where 4: "input st4 = u @ LF # w @ LF # r" "untouched st3 st4"
      "ask_db_database ?s3 = (db_database ?c, st4)"
    using ask_text_step(2) [of ?s3, OF _ assms(5)] 3(1) hp unfolding answered_def by auto
  have hp: "heap st4 = []" using 4(2) hp by (simp add: untouched_def)
  let ?s4 = "say (''Selected database name -> '' @ or_empty (db_database ?c)) st4"
  obtain st5 where 5: "input st5 = w @ LF # r" "untouched st4 st5" "ask_db_user ?s4 = (db_user ?c, st5)"
    using ask_text_step(3) [of ?s4, OF _ assms(6)] 4(1) hp assms(11) unfolding answered_def by auto
  have hp: "heap st5 = []" using 5(2) hp by (simp add: untouched_def)
  let ?s5 = "say (''Selected database user -> '' @ or_empty (db_user ?c)) st5"
  obtain st6 where 6: "input st6 = r" "untouched st5 st6" "ask_db_pass ?s5 = (db_pass ?c, st6)"
    using ask_text_step(4) [of ?s5, OF _ assms(7)] 5(1) hp assms(12) unfolding answered_def by auto
  have some: "db_host ?c \<noteq> None" "db_database ?c \<noteq> None" "db_user ?c \<noteq> None" "db_pass ?c \<noteq> None"
    by (simp_all add: answered_def)
  have c: "\<lparr>cfg_port = cfg_port ?c, db_port = db_port ?c, db_host = db_host ?c,
      db_database = db_database ?c, db_user = db_user ?c, db_pass = db_pass ?c\<rparr> = ?c"
    by simp
  have "ask_config st = (Some ?c, say (''Selected database password -> '' @ or_empty (db_pass ?c)) st6)"
    unfolding ask_config_def create_default_config_def
    by (simp only: Let_def 1(3) 2(3) 3(3) 4(3) 5(3) 6(3) prod.case config.select_convs config.update_convs assms(13) q some if_False c)
  moreover have "untouched st st6" using 1(2) 2(2) 3(2) 4(2) 5(2) 6(2) by (meson untouched_trans)
  ultimately show ?thesis using 6(1) by (intro exI [of _ "say (''Selected database password -> '' @ or_empty (db_pass ?c)) st6"]) (simp add: untouched_def)
qed

lemma merge_complete:
  assumes "{''PORT'', ''DB_PORT'', ''DB_HOST'', ''DB_DATABASE'', ''DB_USER'', ''DB_PASS''} \<subseteq> K"
  shows "merge c K d = c"
  using assms by (simp add: merge_def)

lemma atoi_bound: "- (2 ^ 31) \<le> atoi s" "atoi s < 2 ^ 31"
proof -
  have b: "- (2 ^ 31) \<le> to_int32 x" "to_int32 x < 2 ^ 31" for x
    using pos_mod_bound [of "2 ^ 32" "x + 2 ^ 31"] by (simp_all add: to_int32_def)
  show "- (2 ^ 31) \<le> atoi s" "atoi s < 2 ^ 31"
    using b by (simp_all only: atoi_def split: list.split)
       simp_all
qed

lemma CONF_PATH_short: "length CONF_PATH < 500"
  by (simp add: CONF_PATH_def)

lemma cmd_setup_saves:
  assumes "ask_config (say ''Setting up proxy configurations...'' st) = (Some c, st1)" and "euid st = 0"
    and "disk st1 CONF_PATH = Some s" and "disk_fails st1 = []" and "heap st1 = []" and "c_string s" and "storable c"
  shows "disk (snd (cmd_setup st)) CONF_PATH = Some (concat (map (update_line c) (config_lines s)))"
    and "fst (load_config CONF_PATH (snd (cmd_setup st))) = merge c (keys_of (config_lines s)) create_default_config"
    and "fst (cmd_setup st) \<noteq> 0 \<longleftrightarrow> fst (prompt_and_enable_service (say ''Configurations successfully set up''
      (snd (update_config_file CONF_PATH c st1)))) \<noteq> 0"
proof -
  note u = update_succeeds [OF assms(3,4) CONF_PATH_short, of c]
  let ?st2 = "say ''Configurations successfully set up'' (snd (update_config_file CONF_PATH c st1))"
  have e: "snd (cmd_setup st) = snd (prompt_and_enable_service ?st2)"
    "fst (cmd_setup st) = (if fst (prompt_and_enable_service ?st2) \<noteq> 0 then EXIT_FAILURE else EXIT_SUCCESS)"
    by (simp_all only: cmd_setup_def Let_def assms(1) u prod.case option.case say_keeps assms(2) snd_conv
        simp_thms if_False split_beta fst_conv)
  show d: "disk (snd (cmd_setup st)) CONF_PATH = Some (concat (map (update_line c) (config_lines s)))"
    unfolding e prompt_keeps by (simp add: u)
  show "fst (load_config CONF_PATH (snd (cmd_setup st))) = merge c (keys_of (config_lines s)) create_default_config"
    using d assms(6,7) by (rule load_updated) (simp_all add: e u assms(4,5))
  show "fst (cmd_setup st) \<noteq> 0 \<longleftrightarrow> fst (prompt_and_enable_service ?st2) \<noteq> 0"
    by (simp add: e(2) EXIT_FAILURE_def EXIT_SUCCESS_def)
qed



section \<open>The database commands\<close>

lemma run_statement_db:
  "\<exists>st'. run_statement my conn q st = (fst (db_execute my conn q), snd (db_execute my conn q), st') \<and>
     console.more st' = console.more st"
  by (auto simp: run_statement_def Let_def split: prod.split)

lemma terminal_frame:
  fixes st st' :: "'z terminal_scheme"
  assumes "console.more st' = console.more st"
  shows "input st' = input st" "euid st' = euid st" "statuses st' = statuses st" "ran st' = ran st"
    "terminal.more st' = terminal.more st"
  using assms by (cases st; cases st'; simp)+

lemma run_statement_keeps:
  assumes "run_statement my conn q st = (res, conn', st')"
  shows "res = fst (db_execute my conn q)" "conn' = snd (db_execute my conn q)" "console.more st' = console.more st"
  using run_statement_db [of my conn q st] assms by auto

text \<open>The statements of \<open>add\<close> and \<open>remove\<close>, as the buffers of \<open>user.c\<close> hold them.\<close>

definition insertion :: "string \<Rightarrow> string \<Rightarrow> string" where
  "insertion name pw = snprintf_buf 1024
     (''INSERT INTO `users` (username, password) VALUES ('' @ [QUOTE] @ name @ [QUOTE] @ '', '' @ [QUOTE] @ pw @ [QUOTE] @ '');'')"

definition removal :: "string \<Rightarrow> string" where
  "removal name = snprintf_buf 1024 (''DELETE FROM `users` WHERE username = '' @ [QUOTE] @ name @ [QUOTE])"

lemma statements_Nil [simp]:
  "db_user_add name pw [] = (Some (insertion name pw), [])" "db_user_remove name [] = (Some (removal name), [])"
  by (simp_all add: db_user_add_def insertion_def db_user_remove_def removal_def TABLE_NAME_def)

lemma get_password_typed:
  assumes "input st = pw @ LF # r" and "typed pw" and "heap st = []"
  shows "\<exists>st'. get_password prompt st = (Some pw, st') \<and> input st' = r \<and> untouched st st'"
proof -
  let ?st = "fprint Stdout prompt (st\<lparr>heap := []\<rparr>)"
  have "input ?st = pw @ LF # r" using assms(1) by simp
  from fgets_stdin_line [OF this] assms(2)
  have "fgets_stdin 256 ?st = (Some (pw @ [LF]), ?st\<lparr>input := r\<rparr>)" "cut_newline (pw @ [LF]) = pw"
    by (simp_all add: typed_def)
  then have "get_password prompt st = (Some pw, fprint Stdout [LF] (?st\<lparr>input := r\<rparr>))"
    by (simp add: get_password_def assms(3) Let_def split_beta)
  then show ?thesis by (simp add: untouched_def assms(3))
qed

lemma cmd_add_inserting:
  assumes "names_user argv" and "input st = pw @ LF # r" and "typed pw" and "heap st = []"
  shows "\<exists>st'. cmd_add my argv conn st =
    Inr (if fst (db_execute my conn (insertion (argv ! 3) pw)) = DbDone then 0 else 1,
         snd (db_execute my conn (insertion (argv ! 3) pw)), st') \<and> input st' = r"
proof -
  let ?q = "insertion (argv ! 3) pw"
  obtain st1 where 1: "get_password ''Password: '' (say (''Adding user: '' @ argv ! 3) st) = (Some pw, st1)"
      "input st1 = r" "heap st1 = []"
    using get_password_typed [OF _ assms(3), of "say (''Adding user: '' @ argv ! 3) st" r] assms(2,4)
    by (auto simp: untouched_def)
  obtain res conn' st2 where 2: "run_statement my conn ?q (st1\<lparr>heap := []\<rparr>) = (res, conn', st2)" by (rule prod_cases3)
  note k = run_statement_keeps [OF 2]
  have "input st2 = r" using terminal_frame(1) [OF k(3)] 1(2) by simp
  then show ?thesis
    using 2 k(1,2) by (simp only: cmd_add_def Let_def assms(1) 1 prod.case option.case statements_Nil simp_thms if_False) auto
qed

lemma cmd_remove_deleting:
  assumes "names_user argv" and "heap st = []"
  shows "\<exists>st'. cmd_remove my argv conn st =
    Inr (if fst (db_execute my conn (removal (argv ! 3))) = DbDone then 0 else 1,
         snd (db_execute my conn (removal (argv ! 3))), st')"
proof -
  obtain res conn' st2 where 2: "run_statement my conn (removal (argv ! 3))
      ((say (''Removing user: '' @ argv ! 3) st)\<lparr>heap := []\<rparr>) = (res, conn', st2)" by (rule prod_cases3)
  show ?thesis
    using run_statement_keeps(1,2) [OF 2]
    by (simp only: cmd_remove_def Let_def assms say_keeps 2 prod.case option.case statements_Nil simp_thms if_False) auto
qed

text \<open>
  \<open>add\<close> sends one statement, the insertion of exactly the name of the command line and the
  password typed, and ends with 0 just when the server completed it; in every other case, a
  refused statement or one that has rows, with 1.
\<close>

theorem cmd_add_inserts:
  assumes "names_user argv" and "input st = pw @ LF # r" and "typed pw" and "heap st = []"
  shows "\<exists>st'. cmd_add my argv conn st =
    Inr (if fst (db_execute my conn (insertion (argv ! 3) pw)) = DbDone then 0 else 1,
         snd (db_execute my conn (insertion (argv ! 3) pw)), st') \<and> input st' = r"
  by (rule cmd_add_inserting [OF assms])

text \<open>A server that completes every statement and keeps the last one.\<close>

definition obliging_server :: "string mysql" where
  "obliging_server =
     \<lparr>my_init = Some [], my_connect = (\<lambda>_ _ _ _ _ _. Some []), my_query = (\<lambda>_ q. (False, q)),
      my_store_result = (\<lambda>q. (None, q)), my_field_count = (\<lambda>_. 0), my_ping = (\<lambda>_. True), my_error = (\<lambda>_. [])\<rparr>"

theorem cmd_add_inserts_witness:
  "\<exists>st'. cmd_add obliging_server [''simpleproxy-config'', ''add'', ''-u'', ''bob''] []
     (sample_terminal\<lparr>input := ''pw'' @ [LF]\<rparr>) =
   Inr (0, ''INSERT INTO `users` (username, password) VALUES ('' @ [QUOTE] @ ''bob'' @ [QUOTE] @ '', '' @ [QUOTE] @
     ''pw'' @ [QUOTE] @ '');'', st')"
proof -
  have n: "names_user [''simpleproxy-config'', ''add'', ''-u'', ''bob'']" by code_simp
  have e: "db_execute obliging_server [] q = (DbDone, q)" for q by (simp add: db_execute_def obliging_server_def)
  show ?thesis
    using cmd_add_inserts [OF n, of "sample_terminal\<lparr>input := ''pw'' @ [LF]\<rparr>" "''pw''" "[]" obliging_server "[]"]
    by (auto simp: e insertion_def typed_def snprintf_buf_def sample_terminal_def)
qed

lemma db_drop_none:
  assumes "get_all_tables my conn m = Inr (None, conn', m')"
  shows "db_drop_database my conn m = Inr (None, conn', m')"
  by (simp add: db_drop_database_def assms)

lemma db_user_migration_Nil: "\<exists>q. db_user_migration [] = Inr (Some q, [])"
  unfolding db_user_migration_def
  by (rule exI, rule create_table_fit)
     (simp_all add: table_text_def table_header_def users_table_def column_text_def or_empty_def
        TABLE_NAME_def show_int_def show_nat.simps SQL_SIZE_def c_simps)

text \<open>
  \<open>reset\<close> does not re-create the tables of a database that has none: the names of the tables
  are null then, the command reports that it has no query, and the connection is in the state
  the question for the names left it in; the table of users is never created.
\<close>

theorem reset_needs_tables:
  assumes "get_all_tables my conn [] = Inr (None, conn', [])" and "heap st = []"
  shows "\<exists>st'. cmd_reset my conn st = Inr (1, conn', st')"
proof -
  obtain q where "db_user_migration [] = Inr (Some q, [])" using db_user_migration_Nil by blast
  then show ?thesis using assms by (simp add: cmd_reset_def db_drop_none Let_def)
qed

text \<open>The answer of a database without tables: one row with a null column.\<close>

definition empty_server :: "string list mysql" where
  "empty_server =
     \<lparr>my_init = Some [], my_connect = (\<lambda>_ _ _ _ _ _. Some []), my_query = (\<lambda>qs q. (False, qs @ [q])),
      my_store_result = (\<lambda>qs. (if qs \<noteq> [] \<and> last qs = all_tables_query then Some [[None]] else None, qs)),
      my_field_count = (\<lambda>_. 0), my_ping = (\<lambda>_. True), my_error = (\<lambda>_. [])\<rparr>"

theorem reset_needs_tables_witness:
  "\<exists>st'. cmd_reset empty_server [] sample_terminal = Inr (1, [all_tables_query], st')"
proof -
  have "get_all_tables empty_server [] [] = Inr (None, [all_tables_query], [])"
    by (simp add: get_all_tables_def empty_server_def row_col_def)
  then show ?thesis by (rule reset_needs_tables) (simp add: sample_terminal_def)
qed

section \<open>The tool\<close>

text \<open>A query for one column has rows of one column, as the library documents.\<close>

definition answers_columns :: "'s mysql \<Rightarrow> bool" where
  "answers_columns my \<longleftrightarrow> (\<forall>c rows c'. my_store_result my c = (Some rows, c') \<longrightarrow> (\<forall>row \<in> set rows. row \<noteq> []))"

lemma get_all_tables_returns:
  assumes "answers_columns my"
  shows "\<exists>t conn'. get_all_tables my conn [] = Inr (t, conn', [])"
proof -
  obtain c1 where q: "my_query my conn all_tables_query = (False, c1) \<or> fst (my_query my conn all_tables_query)"
    by (metis (full_types) prod.collapse)
  obtain rows c2 where s: "my_store_result my c1 = (rows, c2)" by fastforce
  show ?thesis
  proof (cases "fst (my_query my conn all_tables_query)")
    case True
    then show ?thesis by (auto simp: get_all_tables_def split: prod.split)
  next
    case False
    then have q: "my_query my conn all_tables_query = (False, c1)" using q by simp
    show ?thesis
    proof (cases rows)
      case (Some rs)
      then have "\<forall>row \<in> set rs. row \<noteq> []" using assms s by (auto simp: answers_columns_def)
      then show ?thesis using q s Some
        by (auto simp: get_all_tables_def row_col_def neq_Nil_conv split: list.split option.split)
    qed (auto simp: get_all_tables_def q s)
  qed
qed

text \<open>A command that returns, with exit code 0 or 1.\<close>

definition returns :: "(int \<times> 'a \<times> 'b) result \<Rightarrow> bool" where
  "returns x \<longleftrightarrow> (\<exists>r a b. x = Inr (r, a, b) \<and> (r = 0 \<or> r = 1))"

lemma returns_simps [simp]: "returns (Inr (r, a, b)) \<longleftrightarrow> r = 0 \<or> r = 1" "\<not> returns (Inl u)"
  by (auto simp: returns_def)

lemma get_password_heap: "heap st = [] \<Longrightarrow> heap (snd (get_password prompt st)) = []"
  by (simp add: get_password_def Let_def split_beta)

lemma db_drop_returns:
  assumes "answers_columns my"
  shows "\<exists>q conn'. db_drop_database my conn [] = Inr (q, conn', [])"
proof -
  obtain t conn' where "get_all_tables my conn [] = Inr (t, conn', [])" using get_all_tables_returns [OF assms] by blast
  then show ?thesis by (cases t) (simp_all add: db_drop_database_def)
qed

lemma commands_return:
  assumes "heap st = []" and "answers_columns my"
  shows "returns (cmd_migrate my conn st)" "returns (cmd_drop my conn st)" "returns (cmd_reset my conn st)"
    "returns (cmd_add my argv conn st)" "returns (cmd_remove my argv conn st)"
proof -
  obtain q where q: "db_user_migration [] = Inr (Some q, [])" using db_user_migration_Nil by blast
  obtain d conn' where d: "db_drop_database my conn [] = Inr (d, conn', [])" using db_drop_returns [OF assms(2)] by blast
  show "returns (cmd_migrate my conn st)" by (simp add: cmd_migrate_def assms(1) q Let_def split: prod.split)
  show "returns (cmd_drop my conn st)" by (simp add: cmd_drop_def assms(1) d Let_def split: prod.split option.split)
  show "returns (cmd_reset my conn st)" by (simp add: cmd_reset_def assms(1) q d Let_def split: prod.split option.split)
  show "returns (cmd_remove my argv conn st)" by (simp add: cmd_remove_def assms(1) Let_def split: prod.split)
  obtain pw st1 where g: "get_password ''Password: '' (say (''Adding user: '' @ argv ! 3) st) = (pw, st1)" by fastforce
  then have "heap st1 = []"
    using get_password_heap [of "say (''Adding user: '' @ argv ! 3) st" "''Password: ''"] assms(1) by simp
  then show "returns (cmd_add my argv conn st)"
    by (simp only: cmd_add_def Let_def g prod.case statements_Nil split: if_split option.split) (auto split: prod.split)
qed

lemma services_return: "fst (start_enable_service st) \<in> {0, 1}" "fst (cmd_setup st) \<in> {0, 1}"
proof -
  show "fst (start_enable_service st) \<in> {0, 1}"
    by (simp add: start_enable_service_def EXIT_FAILURE_def EXIT_SUCCESS_def split: prod.split)
  show "fst (cmd_setup st) \<in> {0, 1}"
    by (simp add: cmd_setup_def Let_def EXIT_FAILURE_def EXIT_SUCCESS_def split: prod.split option.split)
qed

lemma table_returns:
  assumes "heap st = []" and "answers_columns my" and "(name, description, func) \<in> set (COMMANDS my)"
  shows "returns (func argv (Some conn) st)"
proof -
  have w: "returns (with_db f argv (Some conn) st)" if "returns (f argv conn st)" for f
    using that by (auto simp: with_db_def returns_def)
  have n: "returns (without_db f argv (Some conn) st)" if "fst (f st) \<in> {0, 1}" for f
    using that by (auto simp: without_db_def split: prod.splits)
  have "returns (without_db cmd_setup argv (Some conn) st)" by (intro n services_return)
  moreover have "returns (without_db cmd_setup_service argv (Some conn) st)"
    by (intro n) (simp only: cmd_setup_service_def services_return)
  ultimately show ?thesis
    using assms(3) commands_return [OF assms(1,2)] by (auto simp: COMMANDS_def w simp del: returns_simps)
qed

lemma load_config_heap: "heap st = [] \<Longrightarrow> heap (snd (load_config f st)) = []"
proof -
  assume h: "heap st = []"
  have "heap (snd (load_lines ls c st')) = []" if "heap st' = []" for ls c and st' :: "'a filing_scheme"
    using load_lines_fold [OF that, of ls c] that by (auto dest: filing_frame(3))
  then show ?thesis using h
    by (auto simp: load_config_def fopen_read_def disk_ok_def split: option.splits list.splits prod.splits)
qed

text \<open>
  C27: the tool never touches memory it does not own and always ends, with exit code 0 or 1,
  whatever the command line, the input, the configuration file and the answers of the server; the
  null connection is passed to the one command that does not use it.
\<close>

theorem proxy_config_main_returns:
  fixes my :: "'s mysql" and st :: "'z terminal_scheme"
  assumes "argv \<noteq> []" and "heap st = []" and "answers_columns my"
  shows "\<exists>r db st'. proxy_config_main my argv st = Inr (r, db, st') \<and> (r = 0 \<or> r = 1)"
proof -
  obtain path rest where a: "argv = path # rest" using assms(1) by (cases argv) auto
  obtain v st1 where v: "check_print_version (path # rest) st = (v, st1)" by fastforce
  then have h1: "heap st1 = []" using assms(2) by (auto simp: check_print_version_def split: if_splits)
  let ?st2 = "logger_init (Some Stdout) (Some Stderr) LOG_DEBUG (or LOG_FLAG_NO_LEVEL LOG_FLAG_NO_TIMESTAMP) st1"
  have h2: "heap ?st2 = []" using h1 by (simp add: logger_init_def)
  obtain c st3 where c: "load_config CONF_PATH ?st2 = (c, st3)" by fastforce
  have h3: "heap st3 = []" using load_config_heap [OF h2, of CONF_PATH] c by simp
  obtain db st4 where d: "db_create my c st3 = (db, st4)" by fastforce
  have h4: "heap st4 = []" using h3 d by (auto simp: db_create_def split: option.splits)
  have t: "\<exists>r x y. func (path # rest) (Some conn) st4 = Inr (r, x, y)"
    if f: "find (\<lambda>(name, _). name = (path # rest) ! 1) (COMMANDS my) = Some (n, e, func)" for conn n e func
  proof -
    have "(n, e, func) \<in> set (COMMANDS my)" using f by (metis (no_types, lifting) find_Some_iff nth_mem)
    then show ?thesis using table_returns [OF h4 assms(3)] by (fastforce simp: returns_def)
  qed
  have s: "snd (snd (COMMANDS my ! 0)) = without_db cmd_setup" by (simp add: COMMANDS_def)
  have "returns (proxy_config_main my (path # rest) st)"
  proof (cases "v \<or> length (path # rest) < 2 \<or> (path # rest) ! 1 = ''setup'' \<or> \<not> check_config c \<or> db = None")
    case True
    have "returns (without_db cmd_setup (path # rest) None ?st2 :: (int \<times> 's option \<times> 'z terminal_scheme) result)"
      using services_return(2) [of ?st2] by (auto simp: without_db_def split: prod.split)
    then show ?thesis using True
      by (auto simp: proxy_config_main_def v c d s Let_def EXIT_FAILURE_def EXIT_SUCCESS_def)
  next
    case False
    then obtain conn where "db = Some conn" by blast
    note defs = proxy_config_main_def v c d Let_def EXIT_FAILURE_def EXIT_SUCCESS_def
    show ?thesis
    proof (cases "find (\<lambda>(name, _). name = (path # rest) ! 1) (COMMANDS my :: (string \<times> string \<times> ('s, 'z) command) list)")
      case None
      with False \<open>db = Some conn\<close> show ?thesis by (simp add: defs)
    next
      case (Some entry)
      obtain n e func where e: "entry = (n, e, func)" by (rule prod_cases3)
      obtain r x y where "func (path # rest) (Some conn) st4 = Inr (r, x, y)" using t [of n e func conn] Some e by blast
      with False \<open>db = Some conn\<close> Some e show ?thesis by (simp add: defs)
    qed
  qed
  then show ?thesis by (auto simp: a returns_def)
qed

theorem proxy_config_main_returns_witness:
  "\<exists>r db st'. proxy_config_main empty_server [''/usr/bin/simpleproxy-config'', ''reset'']
     (sample_terminal\<lparr>disk := [CONF_PATH \<mapsto> packaged_text]\<rparr>) = Inr (r, db, st') \<and> (r = 0 \<or> r = 1)"
  by (rule proxy_config_main_returns) (auto simp: sample_terminal_def answers_columns_def empty_server_def split: if_splits)

end
