(* ===== verification/Accounts.thy ===== *)
theory Accounts
  imports Commands Auth
begin

text \<open>
  The table of users between the two programs: the tool (\<open>commands.c\<close>) writes it, the proxy
  (\<open>auth.c\<close>) reads it, and the server is what both of them rely on.
\<close>

section \<open>What the server promises\<close>

text \<open>
  A completed insertion of a name and a password without quotes and backslashes, within the
  columns' widths, is what a query for that name answers from then on; after a completed removal
  of a name there is no row for it.
\<close>

definition keeps_accounts :: "'s mysql \<Rightarrow> bool" where
  "keeps_accounts my \<longleftrightarrow>
     (\<forall>c n p. literal_safe n \<and> length n \<le> 50 \<and> literal_safe p \<and> length p \<le> 100 \<and>
        fst (db_execute my c (insertion n p)) = DbDone \<longrightarrow>
        db_password my (snd (db_execute my c (insertion n p))) n = Some p) \<and>
     (\<forall>c n. literal_safe n \<and> length n \<le> 50 \<and> fst (db_execute my c (removal n)) = DbDone \<longrightarrow>
        db_password my (snd (db_execute my c (removal n))) n = None)"

lemma keeps_insertion:
  "keeps_accounts my \<Longrightarrow> literal_safe n \<Longrightarrow> length n \<le> 50 \<Longrightarrow> literal_safe p \<Longrightarrow> length p \<le> 100 \<Longrightarrow>
   fst (db_execute my c (insertion n p)) = DbDone \<Longrightarrow>
   db_password my (snd (db_execute my c (insertion n p))) n = Some p"
  by (simp add: keeps_accounts_def)

lemma keeps_removal:
  "keeps_accounts my \<Longrightarrow> literal_safe n \<Longrightarrow> length n \<le> 50 \<Longrightarrow> fst (db_execute my c (removal n)) = DbDone \<Longrightarrow>
   db_password my (snd (db_execute my c (removal n))) n = None"
  by (simp add: keeps_accounts_def)

section \<open>A server\<close>

text \<open>
  A server that keeps the accounts in a list, by the texts of the three statements: it takes a
  name or a password from the quote that opens it to the next one, refuses a name it has, and
  keeps the rows of a selection until they are fetched.
\<close>

definition strip :: "string \<Rightarrow> string \<Rightarrow> string option" where
  "strip pre s = (if take (length pre) s = pre then Some (drop (length pre) s) else None)"

definition literal :: "string \<Rightarrow> string" where
  "literal s = takeWhile (\<lambda>c. c \<noteq> QUOTE) s"

type_synonym accounts = "(string \<times> string) list \<times> row list option"

definition account_query :: "accounts \<Rightarrow> string \<Rightarrow> bool \<times> accounts" where
  "account_query a q =
     (let (users, _) = a in
      case strip (''INSERT INTO `users` (username, password) VALUES ('' @ [QUOTE]) q of
        Some s \<Rightarrow>
          (let n = literal s; p = literal (drop (length n + 4) s) in
           if map_of users n = None then (False, (n, p) # users, None) else (True, users, None))
      | None \<Rightarrow>
          (case strip (''SELECT username, password FROM `users` WHERE username = '' @ [QUOTE]) q of
             Some s \<Rightarrow>
               (False, users, Some (case map_of users (literal s) of None \<Rightarrow> [] | Some p \<Rightarrow> [[Some (literal s), Some p]]))
           | None \<Rightarrow>
               (case strip (''DELETE FROM `users` WHERE username = '' @ [QUOTE]) q of
                  Some s \<Rightarrow> (False, filter (\<lambda>(n, _). n \<noteq> literal s) users, None)
                | None \<Rightarrow> (True, users, None))))"

definition account_server :: "accounts mysql" where
  "account_server =
     \<lparr>my_init = Some ([], None), my_connect = (\<lambda>c _ _ _ _ _. Some c), my_query = account_query,
      my_store_result = (\<lambda>(users, res). (res, (users, None))), my_field_count = (\<lambda>_. 0),
      my_ping = (\<lambda>_. True), my_error = (\<lambda>_. [])\<rparr>"

lemma strip_append [simp]: "strip pre (pre @ s) = Some s"
  by (simp add: strip_def)

lemma strip_other: "take (length pre) s \<noteq> pre \<Longrightarrow> strip pre s = None"
  by (simp add: strip_def)

lemma literal_quoted: "literal_safe n \<Longrightarrow> literal (n @ QUOTE # s) = n"
  unfolding literal_def by (rule takeWhile_append_stop) (auto simp: literal_safe_def)

lemma account_insertion:
  assumes "literal_safe n" "length n \<le> 50" "literal_safe p" "length p \<le> 100"
  shows "account_query (users, res) (insertion n p) =
    (if map_of users n = None then (False, (n, p) # users, None) else (True, users, None))"
proof -
  let ?pre = "''INSERT INTO `users` (username, password) VALUES ('' @ [QUOTE]"
  let ?s = "n @ QUOTE # (CHR '','' # CHR '' '' # QUOTE # p @ QUOTE # '');'')"
  have "insertion n p = ?pre @ ?s"
    using assms(2,4) by (simp add: insertion_def snprintf_buf_def)
  moreover have "literal ?s = n" by (rule literal_quoted [OF assms(1)])
  moreover have "literal (drop (length n + 4) ?s) = p"
    using literal_quoted [OF assms(3)] by (simp add: drop_Cons')
  ultimately show ?thesis by (simp only: account_query_def strip_append Let_def prod.case option.case)
qed

lemma account_selection:
  assumes "literal_safe n" "length n \<le> 50"
  shows "account_query (users, res) (user_query n) =
    (False, users, Some (case map_of users n of None \<Rightarrow> [] | Some p \<Rightarrow> [[Some n, Some p]]))"
proof -
  let ?pre = "''SELECT username, password FROM `users` WHERE username = '' @ [QUOTE]"
  have q: "user_query n = ?pre @ n @ QUOTE # '' LIMIT 1;''"
    using assms(2) by (simp add: user_query_def snprintf_buf_def TABLE_NAME_def)
  moreover have "literal (n @ QUOTE # '' LIMIT 1;'') = n" by (rule literal_quoted [OF assms(1)])
  moreover have "strip (''INSERT INTO `users` (username, password) VALUES ('' @ [QUOTE]) (user_query n) = None"
    unfolding q by (rule strip_other) simp
  ultimately show ?thesis by (simp only: account_query_def strip_append Let_def prod.case option.case)
qed

lemma account_removal:
  assumes "literal_safe n" "length n \<le> 50"
  shows "account_query (users, res) (removal n) = (False, filter (\<lambda>(m, _). m \<noteq> n) users, None)"
proof -
  let ?pre = "''DELETE FROM `users` WHERE username = '' @ [QUOTE]"
  have q: "removal n = ?pre @ n @ QUOTE # []"
    using assms(2) by (simp add: removal_def snprintf_buf_def)
  moreover have "literal (n @ QUOTE # []) = n" by (rule literal_quoted [OF assms(1)])
  moreover have "strip (''INSERT INTO `users` (username, password) VALUES ('' @ [QUOTE]) (removal n) = None"
    "strip (''SELECT username, password FROM `users` WHERE username = '' @ [QUOTE]) (removal n) = None"
    unfolding q by (rule strip_other; simp)+
  ultimately show ?thesis by (simp only: account_query_def strip_append Let_def prod.case option.case)
qed

lemma account_password:
  assumes "literal_safe n" "length n \<le> 50"
  shows "db_password account_server (users, None) n = map_of users n"
  using account_selection [OF assms]
  by (simp add: db_password_def db_execute_def account_server_def split: option.split)

lemma map_of_removed: "map_of (filter (\<lambda>(m, _). m \<noteq> n) users) n = None"
  by (induction users) auto

lemma account_server_keeps: "keeps_accounts account_server"
proof -
  have "db_password account_server (snd (db_execute account_server c (insertion n p))) n = Some p"
    if "literal_safe n" "length n \<le> 50" "literal_safe p" "length p \<le> 100"
      "fst (db_execute account_server c (insertion n p)) = DbDone" for c n p
    using that account_insertion [OF that(1-4)] account_password [OF that(1,2)]
    by (cases c) (auto simp: db_execute_def account_server_def split: if_splits)
  moreover have "db_password account_server (snd (db_execute account_server c (removal n))) n = None"
    if "literal_safe n" "length n \<le> 50" for c n
    using account_removal [OF that] account_password [OF that] map_of_removed
    by (cases c) (auto simp: db_execute_def account_server_def)
  ultimately show ?thesis unfolding keeps_accounts_def by blast
qed

section \<open>Properties\<close>

lemma creds_rfc4648:
  assumes "cred_ok n p" and "length (n @ CHR '':'' # p) mod 3 \<noteq> 1"
  shows "creds_of (rfc4648 (n @ CHR '':'' # p)) = Some (n, p)"
  using get_user_rfc4648 [OF assms(1)] assms(2) by (simp add: creds_of_def)


definition added :: accounts where
  "added = ([(''bob'', ''passw0rd'')], None)"


text \<open>
  C14: and a removal takes it away: when \<open>remove\<close> ends with 0, no token of that name is accepted, with
  any password, unless the proxy has it in its cache.
\<close>

theorem remove_then_rejected:
  assumes "keeps_accounts my"
    and "names_user argv" and "argv ! 3 = n" and "heap st = []"
    and "cmd_remove my argv conn st = Inr (0, conn', st')" and "literal_safe n" and "length n \<le> 50"
    and "basic_auth_bytes req = Some tok" and "creds_of tok = Some (n, p)" and "db_conn a = conn'"
    and "\<not> cached a tok"
  shows "has_valid_auth my req a \<noteq> Inr (True, a')"
proof -
  let ?e = "db_execute my conn (removal n)"
  have "fst ?e = DbDone" "conn' = snd ?e"
    using cmd_remove_deleting [OF assms(2,4), of my conn] assms(3,5) by (auto split: if_splits)
  then have "db_password my (db_conn a) n = None" using keeps_removal [OF assms(1,6,7)] assms(10) by simp
  then show ?thesis using has_valid_auth_True [of my req a a'] assms(8,9,11) by auto
qed

theorem remove_then_rejected_witness:
  "(\<exists>st'. cmd_remove account_server [''simpleproxy-config'', ''remove'', ''--user'', ''bob''] added sample_terminal =
     Inr (0, ([], None), st')) \<and>
   \<not> (\<exists>a'. has_valid_auth account_server (request_with (rfc4648 ''bob:passw0rd''))
     \<lparr>allocs = [], auth_cache = None, db_conn = ([], None), now = 1000\<rparr> = Inr (True, a'))"
proof
  let ?argv = "[''simpleproxy-config'', ''remove'', ''--user'', ''bob'']"
  let ?a = "\<lparr>allocs = [], auth_cache = None, db_conn = ([], None), now = 1000\<rparr> :: accounts auth_state"
  have n: "names_user ?argv" by code_simp
  have t: "literal_safe ''bob''" "cred_ok ''bob'' ''passw0rd''" by (simp_all add: literal_safe_def cred_ok_def isspace_def)
  have e: "db_execute account_server added (removal ''bob'') = (DbDone, ([], None))"
    using account_removal [of "''bob''" "[(''bob'', ''passw0rd'')]" None] t
    by (simp add: db_execute_def account_server_def added_def)
  show r: "\<exists>st'. cmd_remove account_server ?argv added sample_terminal = Inr (0, ([], None), st')"
    using cmd_remove_deleting [OF n, of sample_terminal account_server added] by (simp add: e sample_terminal_def)
  then obtain st' where r: "cmd_remove account_server ?argv added sample_terminal = Inr (0, ([], None), st')" by blast
  have tok: "basic_auth_bytes (request_with (rfc4648 ''bob:passw0rd'')) = Some (rfc4648 (''bob'' @ CHR '':'' # ''passw0rd''))"
    using request_with_bytes [OF rfc4648_no_cr, of "''bob'' @ CHR '':'' # ''passw0rd''"] by (simp only: append.simps)
  have c: "creds_of (rfc4648 (''bob'' @ CHR '':'' # ''passw0rd'')) = Some (''bob'', ''passw0rd'')"
    by (rule creds_rfc4648 [OF t(2)]) simp
  have k: "\<not> cached ?a tk" for tk by (simp add: cached_def cache_map_def hashmap_get_create)
  have "has_valid_auth account_server (request_with (rfc4648 ''bob:passw0rd'')) ?a \<noteq> Inr (True, a')" for a'
    by (rule remove_then_rejected [OF account_server_keeps n _ _ r t(1) _ tok c _ k]) (simp_all add: sample_terminal_def)
  then show "\<not> (\<exists>a'. has_valid_auth account_server (request_with (rfc4648 ''bob:passw0rd'')) ?a = Inr (True, a'))"
    by blast
qed

end
