(* ===== verification/Cache.thy ===== *)
theory Cache
  imports Phases
begin

text \<open>
  What the event loop does to the cache of verified tokens (the static map of
  \<open>has_valid_auth\<close>, \<open>src/main/auth.c\<close>): only the check of credentials touches it, so a run of
  the loop changes it by verified tokens only.
\<close>

section \<open>Calls that leave the cache alone\<close>

named_theorems cache_frames

lemma set_sock_cache [simp]: "auth_cache (set_sock fd s st) = auth_cache st"
  by (simp add: set_sock_def)

lemma pure_cache [simp]:
  "auth_cache (close_fd fd st) = auth_cache st"
  "auth_cache (set_nonblocking fd st) = auth_cache st"
  "auth_cache (put_client p c w) = auth_cache w"
  by (simp_all add: close_fd_def set_nonblocking_def put_client_def split: option.split)

lemma outcome_cache [cache_frames]:
  "sys_ok st = (ok, st') \<Longrightarrow> auth_cache st' = auth_cache st"
  "timer_read st = (ok, st') \<Longrightarrow> auth_cache st' = auth_cache st"
  "ctl_ok st = (ok, st') \<Longrightarrow> auth_cache st' = auth_cache st"
  "malloc st = (ok, st') \<Longrightarrow> auth_cache st' = auth_cache st"
  "open_fd s st = (fd, st') \<Longrightarrow> auth_cache st' = auth_cache st"
  by (auto simp: sys_ok_def timer_read_def ctl_ok_def malloc_def open_fd_def Let_def split: list.splits prod.splits)

lemma socket_cache [cache_frames]:
  "socket st = (fd, st') \<Longrightarrow> auth_cache st' = auth_cache st"
  "accept_connection st = (a, st') \<Longrightarrow> auth_cache st' = auth_cache st"
  "so_error fd st = (e, st') \<Longrightarrow> auth_cache st' = auth_cache st"
  "connect fd addr n st = (c, st') \<Longrightarrow> auth_cache st' = auth_cache st"
  by (auto simp: socket_def accept_connection_def so_error_def connect_def Let_def dest!: outcome_cache(5)
      split: list.splits option.splits prod.splits if_splits)

lemma epoll_cache [cache_frames]:
  "epoll_add_fd fd ev d st = (ok, st') \<Longrightarrow> auth_cache st' = auth_cache st"
  "epoll_mod_fd fd ev d st = (ok, st') \<Longrightarrow> auth_cache st' = auth_cache st"
  "epoll_del_fd fd st = (ok, st') \<Longrightarrow> auth_cache st' = auth_cache st"
  by (auto simp: epoll_add_fd_def epoll_mod_fd_def epoll_del_fd_def Let_def dest!: outcome_cache(3)
      split: prod.splits if_splits)

lemma del_cache [simp]: "auth_cache (snd (epoll_del_fd fd st)) = auth_cache st"
  by (rule epoll_cache(3) [OF surjective_pairing])

lemma io_cache [cache_frames]:
  "recv fd n st = (r, st') \<Longrightarrow> auth_cache st' = auth_cache st"
  "send f fd b st = Inr (s, st') \<Longrightarrow> auth_cache st' = auth_cache st"
  by (auto simp: recv_def send_def split: option.splits list.splits rx.splits tx.splits if_splits)

lemma answer_cache [cache_frames]:
  "send_https_established fd st = Inr st' \<Longrightarrow> auth_cache st' = auth_cache st"
  "send_proxy_auth_required fd st = Inr st' \<Longrightarrow> auth_cache st' = auth_cache st"
  by (auto simp: send_https_established_def send_proxy_auth_required_def bindR_eq_Inr dest!: io_cache)

lemma recv_loop_cache [cache_frames]:
  "recv_loop fd cap tot buf len st = Inr (r, buf', len', st') \<Longrightarrow> auth_cache st' = auth_cache st"
proof (induction fd cap tot buf len st rule: recv_loop.induct)
  case (1 fd cap tot buf len st)
  obtain res st1 where r: "recv fd (size_diff cap len) st = (res, st1)" by fastforce
  then show ?case
    using 1 io_cache(1) [OF r] by (subst (asm) (2) recv_loop.simps) (auto simp: r bindR_eq_Inr split: recv_result.splits)
qed

lemma send_loop_cache [cache_frames]:
  "send_loop fd tot buf len st = Inr (r, buf', len', st') \<Longrightarrow> auth_cache st' = auth_cache st"
proof (induction fd tot buf len st rule: send_loop.induct)
  case (1 fd tot buf len st)
  show ?case
  proof (cases "len = 0")
    case True
    then show ?thesis using "1.prems" by (simp add: send_loop.simps)
  next
    case False
    obtain res st1 where r: "send True fd (take len buf) st = Inr (res, st1)" using send_nosignal by (metis surj_pair)
    show ?thesis
      using "1.prems" "1.IH" [OF False r refl] io_cache(2) [OF r] False
      by (subst (asm) send_loop.simps) (auto simp: r split: send_result.splits if_splits)
  qed
qed

lemma forward_cache [cache_frames]:
  "forward_recv_client c st = Inr (c', st') \<Longrightarrow> auth_cache st' = auth_cache st"
  "forward_send_target c st = Inr (c', st') \<Longrightarrow> auth_cache st' = auth_cache st"
  "forward_recv_target c st = Inr (c', st') \<Longrightarrow> auth_cache st' = auth_cache st"
  "forward_send_client c st = Inr (c', st') \<Longrightarrow> auth_cache st' = auth_cache st"
  by (auto simp: forward_recv_client_def forward_send_target_def forward_recv_target_def forward_send_client_def
      recv_into_buffer_def send_from_buffer_def bindR_eq_Inr Let_def dest!: recv_loop_cache send_loop_cache)

lemma do_if_cache:
  assumes "do_if b f x = Inr y" and "\<And>c st c' st'. f c st = Inr (c', st') \<Longrightarrow> auth_cache st' = auth_cache st"
  shows "auth_cache (snd y) = auth_cache (snd x)"
  using assms by (cases x; cases y) (auto simp: do_if_def split: if_splits)

lemma connect_cache [cache_frames]:
  "connection_connect c st = Inr (r, c', st') \<Longrightarrow> auth_cache st' = auth_cache st"
  by (auto simp: connection_connect_def Let_def bindR_eq_Inr
      split: option.splits prod.splits if_splits conn.splits dest!: socket_cache answer_cache)

lemma relay_cache [cache_frames]:
  assumes "connection_forward t ev c st = Inr (r, c', st')"
  shows "auth_cache st' = auth_cache st"
proof -
  obtain b1 b2 b3 b4 x1 x2 x3 where
    "do_if b1 forward_recv_client (c, st) = Inr x1" "do_if b2 forward_send_target x1 = Inr x2"
    "do_if b3 forward_recv_target x2 = Inr x3" "do_if b4 forward_send_client x3 = Inr (c', st')"
    using assms by (auto simp: connection_forward_def Let_def bindR_eq_Inr)
  note this [THEN do_if_cache]
  from this(1) [OF forward_cache(1)] this(2) [OF forward_cache(2)] this(3) [OF forward_cache(3)] this(4) [OF forward_cache(4)]
  show ?thesis by simp
qed

lemma data_cache [cache_frames]:
  "epoll_create_data t p w = (d, w') \<Longrightarrow> auth_cache w' = auth_cache w"
  "create_client_state fd w = (p, w') \<Longrightarrow> auth_cache w' = auth_cache w"
  "free_edata p w = Inr w' \<Longrightarrow> auth_cache w' = auth_cache w"
  "free_client_state p w = Inr w' \<Longrightarrow> auth_cache w' = auth_cache w"
  by (auto simp: epoll_create_data_def create_client_state_def free_edata_def free_client_state_def Let_def bindR_eq_Inr
      dest!: outcome_cache(4) split: prod.splits if_splits)

lemma register_cache [cache_frames]:
  "epoll_register_client fd ev w = Inr (p, w') \<Longrightarrow> auth_cache w' = auth_cache w"
  "register_forwarding_fds p c w = Inr (b, w') \<Longrightarrow> auth_cache w' = auth_cache w"
  by (auto simp: epoll_register_client_def register_forwarding_fds_def Let_def bindR_eq_Inr
      dest!: data_cache epoll_cache split: prod.splits if_splits)

section \<open>What the check of credentials puts into it\<close>

text \<open>The token holds a name with the password that the database has for it.\<close>

definition verified :: "'s mysql \<Rightarrow> ('s, 'z) auth_state_scheme \<Rightarrow> string \<Rightarrow> bool" where
  "verified my st tok \<longleftrightarrow> (\<exists>u p. creds_of tok = Some (u, p) \<and> db_password my (db_conn st) u = Some p)"

text \<open>The time at which the cached entry of a token ends.\<close>

definition expiry :: "('s, 'z) auth_state_scheme \<Rightarrow> string \<rightharpoonup> int" where
  "expiry st = hashmap_get (cache_map st)"

lemma expiry_cong: "auth_cache st' = auth_cache st \<Longrightarrow> expiry st' = expiry st"
  by (simp add: expiry_def cache_map_def)

lemma cache_inv_cong: "auth_cache st' = auth_cache st \<Longrightarrow> cache_inv st' = cache_inv st"
  by (simp add: cache_inv_def cache_map_def)

text \<open>A step in which only verified tokens enter the cache, each for an hour.\<close>

definition vouching :: "'s mysql \<Rightarrow> ('s, 'z) auth_state_scheme \<Rightarrow> ('s, 'y) auth_state_scheme \<Rightarrow> bool" where
  "vouching my st st' \<longleftrightarrow> (cache_inv st \<longrightarrow> cache_inv st' \<and>
     (\<forall>tok ttl. expiry st' tok = Some ttl \<longrightarrow> expiry st tok = Some ttl \<or> verified my st tok \<and> ttl = now st + CACHE_TTL))"

lemma vouching_same: "auth_cache st' = auth_cache st \<Longrightarrow> vouching my st st'"
  using cache_inv_cong [of st' st] by (simp add: vouching_def expiry_def cache_inv_def cache_map_def)

lemma vouching_after:
  "vouching my st st1 \<Longrightarrow> auth_cache st2 = auth_cache st1 \<Longrightarrow> vouching my st st2"
  by (simp add: vouching_def expiry_def cache_inv_def cache_map_def)

lemma vouching_before:
  "vouching my st1 st2 \<Longrightarrow> auth_cache st1 = auth_cache st \<Longrightarrow> now st1 = now st \<Longrightarrow> db_conn st1 = db_conn st \<Longrightarrow> vouching my st st2"
  by (simp add: vouching_def expiry_def cache_inv_def cache_map_def verified_def)

lemma auth_rest_vouching:
  assumes run: "auth_rest my req st = Inr (b, st')"
  shows "vouching my st st'"
proof -
  have "expiry st tok' = Some ttl \<or> verified my st tok' \<and> ttl = now st + CACHE_TTL"
    if inv: "cache_inv st" and t: "expiry st' tok' = Some ttl" for tok' ttl
  proof -
    obtain tok0 m where tok: "extract_basic_auth_b64 req (allocs st) = (tok0, m)" by fastforce
    show ?thesis
    proof (cases tok0)
      case None
      then show ?thesis using run t by (auto simp: auth_rest_defs tok expiry_def)
    next
      case (Some tok1)
      show ?thesis
      proof (cases "cached st tok1")
        case True
        then have "auth_cache st' = Some (cache_map st)"
          using run by (auto simp: auth_rest_defs tok Some cached_def Let_def split: option.splits)
        then show ?thesis using t by (simp add: expiry_def)
      next
        case False
        obtain s where s: "auth_frame st s" "auth_cache s = Some (purged st tok1)" "db_conn s = db_conn st"
          "check_database my tok1 (purged st tok1) s = Inr (b, st')"
          using auth_rest_miss [of req st tok1 m] False tok Some run by metis
        have p: "hm_inv (purged st tok1)" "hashmap_get (purged st tok1) = (expiry st)(tok1 := None)"
          using inv by (auto simp: purged_def expiry_def cache_inv_def hashmap_laws)
        consider "auth_cache st' = Some (purged st tok1)"
          | b "auth_cache st' = Some (hashmap_add (purged st tok1) tok1 (now st + CACHE_TTL) 8)"
          using check_database_cases [OF s(4)] s(1,2) by (auto simp: auth_frame_def)
        then show ?thesis
        proof cases
          case 1
          then show ?thesis using t p(2) by (auto simp: expiry_def split: if_splits)
        next
          case 2
          then have "check_database my tok1 (purged st tok1) s = Inr (True, st')" using s(4) by simp
          then have "verified my st tok1" using check_database_True s(3) by (fastforce simp: verified_def)
          then show ?thesis using t 2(2) p by (auto simp: expiry_def hashmap_laws split: if_splits)
        qed
      qed
    qed
  qed
  then show ?thesis using auth_rest_cache_inv [OF run] by (auto simp: vouching_def)
qed

lemma has_valid_auth_vouching:
  assumes "has_valid_auth my req st = Inr (b, st')"
  shows "vouching my st st'"
  using assms by (elim has_valid_auth_Inr) (drule auth_rest_vouching, erule vouching_before, simp_all)

section \<open>Events\<close>

lemma again_same_cache:
  assumes run: "handle_client_n n my d ev w = Inr w'" and e: "edatas w d = Some e" "d \<noteq> 0"
    and p: "client_ptr e = p" "p \<noteq> 0" and c: "clients w p = Some c" "phase c \<notin> {READING_REQUEST, AUTHENTICATING, CONNECTING}"
  shows "auth_cache w' = auth_cache w"
proof (cases n)
  case (Suc m)
  note st = handle_client_step [OF e(1), of c m my ev, unfolded p(1), OF c(1) e(2) p(2)]
  have i: "auth_cache w' = auth_cache w" if "handle_initialize_connection p c w = Inr w'"
    using that by (auto simp: handle_initialize_connection_def bindR_eq_Inr Let_def
        dest!: connect_cache data_cache epoll_cache split: if_splits prod.splits)
  have f: "auth_cache w' = auth_cache w" if "handle_forwarding (fd_type e) ev p c w = Inr w'"
    using that by (auto simp: handle_forwarding_def bindR_eq_Inr dest!: relay_cache split: if_splits)
  have l: "auth_cache w' = auth_cache w" if "handle_closing d p c w = Inr w'"
    using that by (auto simp: handle_closing_def drop_fd_def dest!: data_cache(3))
  show ?thesis
    using run st i f l c(2) unfolding Suc by (cases "phase c") (auto split: if_splits)
qed (use run in simp)

lemma connecting_cache:
  assumes run: "handle_client_n n my d ev w = Inr w'" and e: "edatas w d = Some e" "d \<noteq> 0"
    and p: "client_ptr e = p" "p \<noteq> 0" and c: "clients w p = Some c" "phase c = CONNECTING"
  shows "auth_cache w' = auth_cache w"
proof (cases n)
  case (Suc m)
  note st = handle_client_step [OF e(1), of c m my ev, unfolded p(1), OF c(1) e(2) p(2)]
  obtain err w1 where so: "so_error (target_fd c) w = (err, w1)" by fastforce
  have ed: "edatas (close_fd (target_fd c) w1) d = Some e"
    using quiet_world(1) [OF so_error_quiet [OF so]] os_more_world(1) [OF close_fd_keeps(1), of "target_fd c" w1] e(1) by simp
  have a: "auth_cache w' = auth_cache w1"
    if "handle_client_n m my d ev (put_client p (c\<lparr>target_fd := - 1, phase := CLOSING\<rparr>) (close_fd (target_fd c) w1)) = Inr w'"
    using again_same_cache [OF that] ed e(2) p by simp
  have h: "auth_cache w' = auth_cache w" if "handle_connecting (handle_client_n m my d ev) p c w = Inr w'"
    using that a socket_cache(3) [OF so]
    by (auto simp: handle_connecting_def so bindR_eq_Inr Let_def dest!: answer_cache register_cache(2) split: if_splits)
  show ?thesis using run st h c(2) unfolding Suc by (auto split: if_splits)
qed (use run in simp)

lemma authenticating_vouching:
  assumes run: "handle_client_n n my d ev w = Inr w'" and e: "edatas w d = Some e" "d \<noteq> 0"
    and p: "client_ptr e = p" "p \<noteq> 0" and c: "clients w p = Some c" "phase c = AUTHENTICATING"
  shows "vouching my w w'"
proof (cases n)
  case (Suc m)
  note st = handle_client_step [OF e(1), of c m my ev, unfolded p(1), OF c(1) e(2) p(2)]
  let ?req = "cstr (request_buffer c)"
  have h: "vouching my w w'" if h: "handle_authenticating my (handle_client_n m my d ev) p c w = Inr w'"
  proof -
    obtain b w1 where v: "has_valid_auth my ?req w = Inr (b, w1)"
      using h by (cases "has_valid_auth my ?req w") (auto simp: handle_authenticating_def)
    have ed: "edatas w1 d = Some e" using has_valid_auth_quiet [OF v] quiet_world(1) e(1) by metis
    have a: "auth_cache w' = auth_cache w2"
      if "handle_client_n m my d ev (put_client p c2 w2) = Inr w'" "phase c2 \<in> {CLOSING, INITIALIZE_CONNECTION}" "edatas w2 d = Some e"
      for c2 w2
      using again_same_cache [OF that(1), of e p c2] that(2,3) e(2) p by auto
    have s: "edatas w2 d = Some e \<and> auth_cache w2 = auth_cache w1" if "send_proxy_auth_required (client_fd c) w1 = Inr w2" for w2
      using auth_required_cases [OF that] quiet_world(1) [of w1 w2] ed answer_cache(2) [OF that] by (auto simp: only_fd_def)
    have "(\<exists>c2. w' = put_client p c2 w1) \<or>
      (\<exists>c2 w2. handle_client_n m my d ev (put_client p c2 w2) = Inr w' \<and> phase c2 \<in> {CLOSING, INITIALIZE_CONNECTION} \<and>
        edatas w2 d = Some e \<and> auth_cache w2 = auth_cache w1)"
    proof (cases b)
      case True
      then show ?thesis using h ed by (fastforce simp: handle_authenticating_def v Let_def split: option.splits prod.splits)
    next
      case False
      then obtain w2 where "send_proxy_auth_required (client_fd c) w1 = Inr w2"
        "handle_client_n m my d ev (put_client p (c\<lparr>phase := CLOSING\<rparr>) w2) = Inr w'"
        using h by (auto simp: handle_authenticating_def v bindR_eq_Inr)
      then show ?thesis using s by (intro disjI2 exI [of _ "c\<lparr>phase := CLOSING\<rparr>"] exI [of _ w2]) simp
    qed
    then have "auth_cache w' = auth_cache w1" using a by (metis pure_cache(3))
    then show ?thesis by (rule vouching_after [OF has_valid_auth_vouching [OF v]])
  qed
  show ?thesis using run st h c(2) unfolding Suc by (auto split: if_splits intro: vouching_same)
qed (use run in simp)

lemma client_vouching:
  assumes inv: "world_inv w" and e: "edatas w d = Some e" "is_conn (fd_type e)" "d \<noteq> 0"
    and c: "clients w (client_ptr e) = Some c" and run: "handle_client_n n my d ev w = Inr w'"
  shows "vouching my w w'"
proof -
  let ?p = "client_ptr e"
  have p: "?p \<noteq> 0" using inv c(1) by (auto simp: world_inv_def memory_ok_def)
  consider "phase c = READING_REQUEST" | "phase c = AUTHENTICATING" | "phase c = CONNECTING"
    | "phase c \<notin> {READING_REQUEST, AUTHENTICATING, CONNECTING}" by blast
  then show ?thesis
  proof cases
    case 1
    show ?thesis
    proof (cases n)
      case (Suc m)
      note st = handle_client_step [OF e(1), of c m my ev, OF c(1) e(3) p]
      have "vouching my w w'" if h: "handle_reading_request (handle_client_n m my d ev) ?p c w = Inr w'"
      proof -
        obtain r c1 w1 where rd: "read_request_nonblocking c w = Inr (r, c1, w1)"
          using h by (cases "read_request_nonblocking c w") (auto simp: handle_reading_request_def)
        have b: "bufs_ok c" using world_client_ok [OF inv c] by (simp add: client_ok_def)
        have q: "quiet w w1" using read_request_cases [OF rd b] by simp
        have ed: "edatas w1 d = Some e" using quiet_world(1) [OF q] e(1) by simp
        note same = read_request_auth [OF rd]
        consider "r < 0" | "\<not> r < 0" "r = 1" | "\<not> r < 0" "r \<noteq> 1" by blast
        then show ?thesis
        proof cases
          case 1
          then have "handle_client_n m my d ev (put_client ?p (c1\<lparr>phase := CLOSING\<rparr>) w1) = Inr w'"
            using h by (simp add: handle_reading_request_def rd)
          from again_same_cache [OF this, of e ?p] show ?thesis using ed e(3) p same by (simp add: vouching_same)
        next
          case 2
          let ?w = "put_client ?p (c1\<lparr>phase := AUTHENTICATING\<rparr>) w1"
          have a: "handle_client_n m my d ev ?w = Inr w'" using h 2 by (simp add: handle_reading_request_def rd)
          have "now ?w = now w1" "db_conn ?w = db_conn w1" by (simp_all add: put_client_def)
          moreover have "vouching my ?w w'" using authenticating_vouching [OF a, of e ?p] ed e(3) p by simp
          ultimately show ?thesis using vouching_before [of my ?w w' w] same by simp
        next
          case 3
          then have "auth_cache w' = auth_cache w1" using h by (auto simp: handle_reading_request_def rd)
          then show ?thesis using same by (simp add: vouching_same)
        qed
      qed
      then show ?thesis using run st 1 unfolding Suc by (auto split: if_splits intro: vouching_same)
    qed (use run in simp)
  next
    case 2
    then show ?thesis using authenticating_vouching [OF run e(1,3) refl p c] by simp
  next
    case 3
    then show ?thesis using connecting_cache [OF run e(1,3) refl p c] by (simp add: vouching_same)
  next
    case 4
    then show ?thesis using again_same_cache [OF run e(1,3) refl p c] by (simp add: vouching_same)
  qed
qed

lemma listener_cache: "handle_listener_event w = Inr w' \<Longrightarrow> auth_cache w' = auth_cache w"
proof (induction w rule: handle_listener_event.induct)
  case (1 w)
  obtain a w1 where a: "accept_connection w = (a, w1)" by fastforce
  note c1 = socket_cache(2) [OF a]
  show ?case
  proof (cases a)
    case None
    then show ?thesis using "1.prems" c1 by (simp add: handle_listener_event.simps [of w] a)
  next
    case (Some fd)
    then obtain p w2 where r: "epoll_register_client fd EPOLLIN w1 = Inr (p, w2)"
      using "1.prems" by (cases "epoll_register_client fd EPOLLIN w1") (auto simp: handle_listener_event.simps [of w] a)
    note c2 = register_cache(1) [OF r]
    obtain i t where i: "state_registry_add p (registry w2) = (i, t)" by fastforce
    show ?thesis
    proof (cases "p = 0 \<or> i = None")
      case True
      then show ?thesis using "1.prems" c1 c2 Some
        by (auto simp: handle_listener_event.simps [of w] a r i dest!: data_cache(4) split: if_splits)
    next
      case False
      then obtain n where n: "i = Some n" by blast
      then obtain c where c: "deref (clients w2) p = Inr c"
        using "1.prems" False Some by (cases "deref (clients w2) p") (auto simp: handle_listener_event.simps [of w] a r i)
      let ?w = "put_client p (c\<lparr>slot := n\<rparr>) (w2\<lparr>registry := t\<rparr>)"
      have "handle_listener_event ?w = Inr w'"
        using "1.prems" False Some n c by (simp add: handle_listener_event.simps [of w] a r i)
      from "1.IH" [OF a [symmetric] Some r refl _ i [symmetric] n this] False show ?thesis using c1 c2 by simp
    qed
  qed
qed

lemma timer_cache:
  assumes "handle_timer_event w = Inr w'"
  shows "auth_cache w' = auth_cache w"
proof -
  obtain full w1 where t: "timer_read w = (full, w1)" by fastforce
  have step: "auth_cache v' = auth_cache w" if "timeout_callback p v = Inr v'" "auth_cache v = auth_cache w" for p and v v' :: "'a world"
    using that by (auto simp: timeout_callback_def bindR_eq_Inr Let_def dest!: data_cache(4) split: if_splits)
  have "auth_cache w' = auth_cache w" if "state_registry_for_each registry timeout_callback w1 = Inr w'"
    using that [unfolded state_registry_for_each_def]
    by (rule for_each_slot_inv [where I = "\<lambda>v. auth_cache v = auth_cache w", rotated 2])
      (erule (1) step [rotated], rule outcome_cache(2) [OF t])
  then show ?thesis using assms outcome_cache(2) [OF t] by (auto simp: handle_timer_event_def t split: if_splits)
qed

text \<open>Every event of the loop.\<close>

lemma event_vouching:
  assumes inv: "world_inv w" and live: "ev_live w d" and run: "handle_event my (d, ev) w = Inr w'"
  shows "vouching my w w'"
proof -
  obtain e where e: "d \<noteq> 0" "edatas w d = Some e" using live by (auto simp: ev_live_def)
  note run = run [unfolded handle_event_dispatch [OF e]]
  show ?thesis
  proof (cases "is_conn (fd_type e)")
    case True
    then obtain c where c: "clients w (client_ptr e) = Some c" using live e by (auto simp: ev_live_def)
    have "handle_client my d ev w = Inr w'" using run True by (auto simp: is_conn_def split: if_splits)
    then show ?thesis using client_vouching [OF inv e(2) True e(1) c] by (simp add: handle_client_def)
  next
    case False
    then show ?thesis using run
      by (auto split: if_splits intro: vouching_same dest!: listener_cache timer_cache)
  qed
qed

lemma startup_cache:
  "register_timer w = Inr (tfd, w1) \<Longrightarrow> auth_cache w1 = auth_cache w"
  "run_loop_start g w = Inr (True, g', w2) \<Longrightarrow> auth_cache w2 = auth_cache w"
proof -
  show t: "auth_cache w1 = auth_cache w" if "register_timer w = Inr (tfd, w1)" for w w1 :: "'a world" and tfd
    using that by (auto simp: register_timer_def create_timer_fd_def Let_def bindR_eq_Inr
        dest!: outcome_cache(1,5) data_cache(1,3) epoll_cache(1) split: prod.splits if_splits)
  show "auth_cache w2 = auth_cache w" if "run_loop_start g w = Inr (True, g', w2)"
    using that by (auto simp: run_loop_start_def exit_with_error_def Let_def bindR_eq_Inr
        dest!: outcome_cache(1,5) data_cache(1,3) epoll_cache(1) t split: prod.splits if_splits)
qed

end
