(* ===== verification/Signals.thy ===== *)
theory Signals
  imports Config
begin

text \<open>
  The signals of the proxy: what \<open>register_signal_handler\<close> of \<open>src/main/main.c\<close> leaves of the
  process's reactions to them. The handler itself is \<open>cleanup\<close> in \<open>ProxyMain\<close>.
\<close>

datatype signal = SIGINT | SIGTERM | SIGPIPE

datatype reaction = DefaultAction | CleanupHandler

text \<open>
  The process before its loop: streams, logger, files and memory, with the reaction to every
  signal; \<open>sig_fails\<close> lists whether the coming calls of \<open>sigaction\<close> fail.
\<close>

record process = filing +
  reactions :: "signal \<Rightarrow> reaction"
  sig_fails :: "bool list"

definition sigaction :: "signal \<Rightarrow> reaction \<Rightarrow> 'z process_scheme \<Rightarrow> bool \<times> 'z process_scheme" where
  "sigaction sig r st =
     (case sig_fails st of
        [] \<Rightarrow> (True, st\<lparr>reactions := (reactions st)(sig := r)\<rparr>)
      | b # rest \<Rightarrow>
          (let st = st\<lparr>sig_fails := rest\<rparr>
           in if b then (False, st) else (True, st\<lparr>reactions := (reactions st)(sig := r)\<rparr>)))"

definition perror :: "string \<Rightarrow> 'z filing_scheme \<Rightarrow> 'z filing_scheme" where
  "perror msg st = fprint Stderr (msg @ '': '' @ errno_text st @ [LF]) st"

definition register_signal_handler :: "reaction \<Rightarrow> 'z process_scheme \<Rightarrow> 'z process_scheme" where
  "register_signal_handler handler st =
     (let (ok, st) = sigaction SIGINT handler st;
          st = (if \<not> ok then perror ''sigaction SIGINT'' st else st);
          (ok, st) = sigaction SIGTERM handler st
      in if \<not> ok then perror ''sigaction SIGTERM'' st else st)"

section \<open>What is registered\<close>

lemma perror_frame [simp]: "console.more (perror msg st) = console.more st"
  by (simp add: perror_def)

lemma reactions_cong:
  fixes st st' :: "'z process_scheme"
  assumes "filing.more st' = filing.more st"
  shows "reactions st' = reactions st" "sig_fails st' = sig_fails st"
  using assms by (cases st; cases st'; simp)+

lemma perror_reactions [simp]:
  fixes st :: "'z process_scheme"
  shows "reactions (perror msg st) = reactions st" "sig_fails (perror msg st) = sig_fails st"
  by (rule reactions_cong; rule filing_frame(5); simp)+

lemma sigaction_cases:
  assumes "sigaction sig r st = (ok, st')"
  shows "reactions st' = (if ok then (reactions st)(sig := r) else reactions st)"
    and "sig_fails st = [] \<Longrightarrow> ok \<and> sig_fails st' = []"
    and "disk st' = disk st \<and> disk_fails st' = disk_fails st \<and> heap st' = heap st"
  using assms by (auto simp: sigaction_def Let_def split: list.splits if_splits)

text \<open>Both signals get the handler unless \<open>sigaction\<close> fails, and no other signal is touched.\<close>

lemma registered:
  fixes st :: "'z process_scheme"
  shows "sig_fails st = [] \<Longrightarrow> reactions (register_signal_handler h st) = (reactions st)(SIGINT := h, SIGTERM := h)"
    and "reactions (register_signal_handler h st) SIGPIPE = reactions st SIGPIPE"
    and "disk (register_signal_handler h st) = disk st" "disk_fails (register_signal_handler h st) = disk_fails st"
    and "heap (register_signal_handler h st) = heap st"
proof -
  obtain ok1 st1 where 1: "sigaction SIGINT h st = (ok1, st1)" by fastforce
  let ?st1 = "if \<not> ok1 then perror ''sigaction SIGINT'' st1 else st1"
  obtain ok2 st2 where 2: "sigaction SIGTERM h ?st1 = (ok2, st2)" by fastforce
  note c1 = sigaction_cases [OF 1] and c2 = sigaction_cases [OF 2]
  have d: "register_signal_handler h st = (if \<not> ok2 then perror ''sigaction SIGTERM'' st2 else st2)"
    by (simp add: register_signal_handler_def 1 2 Let_def)
  have p: "disk (perror m v) = disk v" "disk_fails (perror m v) = disk_fails v" "heap (perror m v) = heap v"
    for m and v :: "'z process_scheme" by (rule filing_frame; simp)+
  show "sig_fails st = [] \<Longrightarrow> reactions (register_signal_handler h st) = (reactions st)(SIGINT := h, SIGTERM := h)"
    using c1 c2 by (auto simp: d split: if_splits)
  show "reactions (register_signal_handler h st) SIGPIPE = reactions st SIGPIPE" using c1 c2 by (auto simp: d split: if_splits)
  show "disk (register_signal_handler h st) = disk st" "disk_fails (register_signal_handler h st) = disk_fails st"
    "heap (register_signal_handler h st) = heap st"
    using c1(3) c2(3) by (auto simp: d p split: if_splits)
qed

section \<open>Nothing else of the start touches them\<close>

lemma load_config_reactions:
  fixes st :: "'z process_scheme"
  shows "reactions (snd (load_config f st)) = reactions st"
proof -
  have s: "filing.more v' = filing.more v" if "strdup s v = (x, v')" for s x and v v' :: "('z process_ext) filing_scheme"
    using that by (auto simp: strdup_def split: list.splits)
  have k: "filing.more (snd (set_key k x c v)) = filing.more v" for k x c and v :: "('z process_ext) filing_scheme"
    by (auto simp: set_key_def log_warn_def logger_log_normal_def Let_def intro!: filing_frame(5) dest!: s split: prod.splits)
  have l: "filing.more (snd (load_line r c v)) = filing.more v" for r c and v :: "('z process_ext) filing_scheme"
    by (simp add: load_line_def Let_def k split: option.split)
  have ls: "filing.more (snd (load_lines rs c v)) = filing.more v" for rs c and v :: "('z process_ext) filing_scheme"
    by (induction rs arbitrary: c v) (auto simp: l split: prod.splits dest!: arg_cong [where f = snd] intro: trans [OF _ l])
  have "filing.more (snd (load_config f st)) = filing.more st"
    by (auto simp: load_config_def fopen_read_def disk_ok_def Let_def ls split: list.splits option.splits prod.splits)
  then show ?thesis by (rule reactions_cong)
qed

end
