(* ===== verification/ProxyMain.thy ===== *)
theory ProxyMain
  imports Startup Commands Signals
begin

text \<open>
  The proxy as a program: \<open>main\<close> and the signal handler of \<open>src/main/main.c\<close>, from the command
  line to the loop. The state is that of the process before the loop (streams, logger, files, signals) and
  the world of the loop; the connection to the database and what is left of the memory are handed
  over from one to the other.
\<close>

section \<open>The program\<close>

definition no_globals :: globals where
  "no_globals = \<lparr>server_sock = - 1, epoll_fd = - 1, timer_fd = - 1\<rparr>"

definition BACKLOG :: nat where "BACKLOG = 128"

text \<open>\<open>main\<close> up to \<open>run_loop\<close>: an exit code, or nothing when the loop is to be run.\<close>

definition proxy_boot ::
    "'s mysql \<Rightarrow> string list \<Rightarrow> 'z process_scheme \<Rightarrow> 's world \<Rightarrow> int option \<times> globals \<times> 'z process_scheme \<times> 's world" where
  "proxy_boot my argv st w =
     (let (version, st) = check_print_version argv st in
      if version then (Some EXIT_SUCCESS, no_globals, st, w)
      else
        (let st = register_signal_handler CleanupHandler st;
             st = logger_init (Some Stdout) (Some Stderr) LOG_DEBUG_ULTRA 0 st;
             (config, st) = load_config CONF_PATH st
         in if \<not> check_config config
            then (Some EXIT_FAILURE, no_globals,
              log_error (''Configuration file is incomplete or corrupted'' @ [LF]) st, w)
            else
              (let (db, st) = db_create my config st in
               case db of
                 None \<Rightarrow> (Some EXIT_FAILURE, no_globals, log_error ''Failed to connect to database.'' st, w)
               | Some conn \<Rightarrow>
                   (let w = w\<lparr>db_conn := conn, allocs := heap st\<rparr>;
                        (fd, w) = create_server_socket (cfg_port config) BACKLOG w;
                        g = no_globals\<lparr>server_sock := fd\<rparr>
                    in if fd < 0 then (Some EXIT_FAILURE, g, st, w)
                       else (None, g, log_info (''Proxy server running on port '' @ show_int (cfg_port config) @ ''...'') st, w)))))"

text \<open>
  With the results \<open>ws\<close> of \<open>epoll_wait\<close>: the exit code, or nothing while the loop is running.
\<close>

definition proxy_main ::
    "'s mysql \<Rightarrow> string list \<Rightarrow> wait list \<Rightarrow> 'z process_scheme \<Rightarrow> 's world \<Rightarrow>
     (int option \<times> globals \<times> 'z process_scheme \<times> 's world) result" where
  "proxy_main my argv ws st w =
     (let (status, g, st, w) = proxy_boot my argv st w in
      case status of
        Some c \<Rightarrow> Inr (Some c, g, st, w)
      | None \<Rightarrow>
          bindR (run_loop_start g w) (\<lambda>(entered, g, w).
            if \<not> entered then Inr (Some EXIT_FAILURE, g, st, w)
            else
              bindR (run_loop my g ws w) (\<lambda>(running, g, w).
                Inr (if running then None else Some EXIT_FAILURE, g, st, w))))"

text \<open>The handler of SIGINT and SIGTERM.\<close>

definition cleanup :: "globals \<Rightarrow> 'z process_scheme \<Rightarrow> 's world \<Rightarrow> int \<times> globals \<times> 'z process_scheme \<times> 's world" where
  "cleanup g st w =
     (let st = fprint Stdout ([LF] @ ''Cleaning up and exiting...'' @ [LF]) st;
          st = fprint Stdout (''Closing socket'' @ [LF]) st;
          (g, w) = cleanup_resources g w
      in (EXIT_SUCCESS, g, st, w))"

text \<open>A signal that reaches the process: the default action of all three ends it at once.\<close>

definition deliver :: "signal \<Rightarrow> globals \<Rightarrow> 'z process_scheme \<Rightarrow> 's world \<Rightarrow> (int \<times> globals \<times> 'z process_scheme \<times> 's world) result" where
  "deliver sig g st w = (case reactions st sig of CleanupHandler \<Rightarrow> Inr (cleanup g st w) | DefaultAction \<Rightarrow> Inl Killed)"

section \<open>Up to the loop\<close>

text \<open>A process that has just been started: what it has open is not watched, and there are no clients.\<close>

definition fresh_process :: "'s world \<Rightarrow> bool" where
  "fresh_process w \<longleftrightarrow> edatas w = Map.empty \<and> clients w = Map.empty \<and> interest w = Map.empty \<and>
     0 < brk w \<and> registry w = state_registry_init"

lemma fresh_process_inv: "fresh_process w \<Longrightarrow> world_inv w"
  by (auto simp: fresh_process_def world_inv_def memory_ok_def opens_def sock_of_def split: if_splits)

lemma fresh_process_quiet: "quiet w w' \<Longrightarrow> fresh_process w \<Longrightarrow> fresh_process w'"
  using quiet_world(1-5) [of w w'] by (simp add: fresh_process_def)

lemma fresh_process_close: "fresh_process w \<Longrightarrow> fresh_process (close_fd fd w)"
  using close_world(1,3-6) [OF fresh_process_inv, of w fd] by (simp add: fresh_process_def)

lemma server_socket_boots:
  fixes w w' :: "'s world"
  assumes "fresh_process w" and "create_server_socket server_port backlog w = (fd, w')"
  shows "fresh_process w'" and "fd < 0 \<or> sock_of w' fd \<noteq> None"
    and "fd < 0 \<or> listening w' = Some (fd, htons server_port, backlog)"
proof -
  obtain s w1 where 1: "socket w = (s, w1)" by fastforce
  obtain ok2 w2 where 2: "sys_ok w1 = (ok2, w2)" by fastforce
  obtain ok3 w3 where 3: "sys_ok w2 = (ok3, w3)" by fastforce
  obtain ok4 w4 where 4: "sys_ok w3 = (ok4, w4)" by fastforce
  note sc = socket_cases [OF 1]
  have f1: "fresh_process w1"
    using sc assms(1) os_more_world [of w1 w] by (simp add: fresh_process_def)
  note q2 = sys_ok_quiet [OF 2] and q3 = sys_ok_quiet [OF 3] and q4 = sys_ok_quiet [OF 4]
  have f: "fresh_process w2" "fresh_process w3" "fresh_process w4"
    using f1 fresh_process_quiet [OF q2] fresh_process_quiet [OF q3] fresh_process_quiet [OF q4] by simp_all
  have o: "opens w4 = opens w2" using quiet_world(6) [OF q3] quiet_world(6) [OF q4] by simp
  note w' = assms(2) [unfolded create_server_socket_def 1 2 3 4 Let_def prod.case]
  have l: "fresh_process (v\<lparr>listening := l\<rparr>)" if "fresh_process v" for v :: "'s world" and l
    using that by (simp add: fresh_process_def)
  show "fresh_process w'" using w' f1 f fresh_process_close by (auto simp: 3 4 intro!: l split: if_splits)
  have "sock_of w4 s \<noteq> None" if "sock_of w2 s \<noteq> None" using o that unfolding opens_def by blast
  then show "fd < 0 \<or> sock_of w' fd \<noteq> None" using w' by (auto simp: 3 4 sock_of_def split: if_splits)
  show "fd < 0 \<or> listening w' = Some (fd, htons server_port, backlog)" using w' by (auto simp: 3 4 split: if_splits)
qed

text \<open>The process when it reads its configuration.\<close>

definition ready_to_load :: "'z process_scheme \<Rightarrow> 'z process_scheme" where
  "ready_to_load st = logger_init (Some Stdout) (Some Stderr) LOG_DEBUG_ULTRA 0 (register_signal_handler CleanupHandler st)"

lemma ready_keeps [simp]:
  "disk (ready_to_load st) = disk st" "disk_fails (ready_to_load st) = disk_fails st" "heap (ready_to_load st) = heap st"
  "reactions (ready_to_load st) = reactions (register_signal_handler CleanupHandler st)"
  by (simp_all add: ready_to_load_def logger_init_def registered)

lemma proxy_boot_cases:
  assumes "fresh_process w" and "proxy_boot my argv st w = (status, g, st', w')"
  shows "status = None \<and> booted g w' \<and> \<not> fst (check_print_version argv st) \<and> g = no_globals\<lparr>server_sock := server_sock g\<rparr> \<or>
    (\<exists>c. status = Some c \<and> (c = 0 \<or> c = 1) \<and> (c = 0 \<longleftrightarrow> fst (check_print_version argv st)) \<and>
      server_sock g < 0 \<and> epoll_fd g < 0 \<and> timer_fd g < 0)"
proof -
  obtain v st1 where v: "check_print_version argv st = (v, st1)" by fastforce
  obtain c st2 where c: "load_config CONF_PATH (ready_to_load st1) = (c, st2)"
    by fastforce
  obtain db st3 where d: "db_create my c st2 = (db, st3)" by fastforce
  note defs = proxy_boot_def v c [unfolded ready_to_load_def] d Let_def no_globals_def EXIT_FAILURE_def EXIT_SUCCESS_def
  show ?thesis
  proof (cases "\<not> v \<and> check_config c \<and> db \<noteq> None")
    case False
    then show ?thesis using assms(2) by (auto simp: defs split: if_splits)
  next
    case True
    then obtain conn where conn: "db = Some conn" by blast
    let ?w = "w\<lparr>db_conn := conn, allocs := heap st3\<rparr>"
    obtain fd w1 where s: "create_server_socket (cfg_port c) BACKLOG ?w = (fd, w1)" by fastforce
    have "fresh_process ?w" using assms(1) by (simp add: fresh_process_def)
    note b = server_socket_boots [OF this s]
    show ?thesis
    proof (cases "fd < 0")
      case True
      then show ?thesis using assms(2) \<open>\<not> v \<and> check_config c \<and> db \<noteq> None\<close> by (auto simp: defs conn s split: if_splits)
    next
      case False
      then have "status = None" "w' = w1" "g = no_globals\<lparr>server_sock := fd\<rparr>"
        using assms(2) True by (simp_all add: defs conn s)
      then show ?thesis using b False True by (simp add: v booted_def fresh_process_def)
    qed
  qed
qed


text \<open>A process as it starts, with the files on its disk.\<close>

definition sample_process :: "(string \<rightharpoonup> string) \<Rightarrow> process" where
  "sample_process files = \<lparr>out = [], err = [], log_output_normal = None, log_output_error = None,
     current_level = LOG_DEBUG, logger_flags = 0, clock = [], disk = files, disk_fails = [], heap = [],
     errno_text = [], reactions = (\<lambda>_. DefaultAction), sig_fails = []\<rparr>"

definition new_world :: "unit world" where
  "new_world = idle_world\<lparr>edatas := Map.empty, clients := Map.empty, interest := Map.empty, registry := state_registry_init\<rparr>"


lemma server_socket_db: "create_server_socket server_port backlog w = (fd, w') \<Longrightarrow> db_conn w' = db_conn w"
proof -
  have o: "open_fd s v = (n, v') \<Longrightarrow> db_conn v' = db_conn v" for s n and v v' :: "('a, 'b) os_scheme"
    by (auto simp: open_fd_def Let_def)
  have c: "db_conn (close_fd n v) = db_conn v" for n and v :: "('a, 'b) os_scheme" by (simp add: close_fd_def)
  have y: "sys_ok v = (b, v') \<Longrightarrow> db_conn v' = db_conn v" for b and v v' :: "('a, 'b) os_scheme"
    by (auto simp: sys_ok_def split: list.splits)
  have k: "socket v = (n, v') \<Longrightarrow> db_conn v' = db_conn v" for n and v v' :: "('a, 'b) os_scheme"
    by (auto simp: socket_def dest!: o split: list.splits option.splits)
  show "create_server_socket server_port backlog w = (fd, w') \<Longrightarrow> db_conn w' = db_conn w"
    by (auto simp: create_server_socket_def c dest!: k y split: prod.splits if_splits)
qed

text \<open>
  C39: what the proxy that reaches its loop listens on, and which database it is connected to: those of
  the configuration file, which passed \<open>check_config\<close>; but of the port only the low sixteen bits,
  whatever number the log reports.
\<close>

theorem proxy_listens:
  assumes "fresh_process w" and "proxy_boot my argv st w = (None, g, st', w')"
  shows "\<exists>c. c = fst (load_config CONF_PATH (ready_to_load st)) \<and>
    check_config c \<and> my_connect my (the (my_init my)) (db_host c) (db_user c) (db_pass c) (db_database c) (db_port c) = Some (db_conn w') \<and>
    listening w' = Some (server_sock g, nat (cfg_port c mod 65536), 128)"
proof -
  obtain v st1 where v: "check_print_version argv st = (v, st1)" by fastforce
  obtain c st2 where c: "load_config CONF_PATH (ready_to_load st1) = (c, st2)"
    by fastforce
  obtain db st3 where d: "db_create my c st2 = (db, st3)" by fastforce
  note defs = proxy_boot_def v c [unfolded ready_to_load_def] d Let_def no_globals_def
  have ok: "\<not> v" "check_config c" using assms(2) by (auto simp: defs split: if_splits)
  then have st: "st1 = st" using v by (auto simp: check_print_version_def split: if_splits)
  obtain conn where conn: "db = Some conn" using assms(2) ok by (auto simp: defs split: option.splits)
  let ?w = "w\<lparr>db_conn := conn, allocs := heap st3\<rparr>"
  obtain fd w1 where s: "create_server_socket (cfg_port c) BACKLOG ?w = (fd, w1)" by fastforce
  have f: "0 \<le> fd" "w' = w1" "server_sock g = fd" using assms(2) ok by (auto simp: defs conn s split: if_splits)
  have "fresh_process ?w" using assms(1) by (simp add: fresh_process_def)
  from server_socket_boots(3) [OF this s] have "listening w' = Some (server_sock g, nat (cfg_port c mod 65536), 128)"
    using f by (simp add: htons_def BACKLOG_def)
  moreover have "db_conn w' = conn" using server_socket_db [OF s] f by simp
  moreover have "my_connect my (the (my_init my)) (db_host c) (db_user c) (db_pass c) (db_database c) (db_port c) = Some conn"
    using d conn by (auto simp: db_create_def split: option.splits)
  ultimately show ?thesis using c st ok by auto
qed

text \<open>A configuration whose port does not fit, as it stands on the disk after an update with it.\<close>

definition big_port :: config where
  "big_port = sample_config\<lparr>cfg_port := 70000\<rparr>"

definition big_port_start :: process where
  "big_port_start = sample_process [CONF_PATH \<mapsto> concat (map (update_line big_port) (config_lines packaged_text))]"

lemma big_port_loads:
  "fst (load_config CONF_PATH (ready_to_load big_port_start)) = big_port"
proof -
  let ?st = "ready_to_load big_port_start"
  have "storable big_port" using sample_storable by (simp add: storable_def big_port_def storable_int_def)
  moreover have "c_string packaged_text" by (simp add: packaged_text_def)
  ultimately have "fst (load_config CONF_PATH ?st) = merge big_port (keys_of (config_lines packaged_text)) create_default_config"
    by (intro load_updated) (simp_all add: big_port_start_def sample_process_def)
  then show ?thesis by (simp add: packaged_keys merge_def)
qed

text \<open>What \<open>main\<close> makes of the configuration above, up to the listening socket.\<close>

lemma big_port_boots:
  fixes w w1 :: "unit world"
  assumes "create_server_socket 70000 128 (w\<lparr>db_conn := (), allocs := []\<rparr>) = (fd, w1)" and "0 \<le> fd"
  shows "\<exists>st'. proxy_boot bob_server [''simpleproxy''] big_port_start w = (None, no_globals\<lparr>server_sock := fd\<rparr>, st', w1)"
proof -
  let ?st = "ready_to_load big_port_start"
  obtain st2 where st2: "load_config CONF_PATH ?st = (big_port, st2)" using big_port_loads by (metis prod.collapse)
  have h: "heap st2 = []"
    using load_heap [of ?st CONF_PATH] st2 by (simp add: big_port_start_def sample_process_def)
  have c: "check_config big_port" by (simp add: check_config_def big_port_def sample_config_def)
  have v: "check_print_version [''simpleproxy''] big_port_start = (False, big_port_start)" by (simp add: check_print_version_def)
  have d: "db_create bob_server big_port st2 = (Some (), st2)" by (simp add: db_create_def bob_server_def one_row_server_def)
  have p: "cfg_port big_port = 70000" by (simp add: big_port_def)
  show ?thesis using assms by (simp add: proxy_boot_def v st2 [unfolded ready_to_load_def] c d h p BACKLOG_def Let_def)
qed

lemma sample_boot:
  "\<exists>g st' w'. proxy_boot bob_server [''simpleproxy''] big_port_start
     (new_world\<lparr>fds := [Some plain_sock, Some plain_sock, Some plain_sock], sockets := [Some plain_sock]\<rparr>) = (None, g, st', w')"
proof -
  let ?w = "new_world\<lparr>fds := [Some plain_sock, Some plain_sock, Some plain_sock], sockets := [Some plain_sock]\<rparr>"
  have "create_server_socket 70000 128 (?w\<lparr>db_conn := (), allocs := []\<rparr>) = (3, snd (create_server_socket 70000 128 (?w\<lparr>db_conn := (), allocs := []\<rparr>)))"
    by (simp add: create_server_socket_def new_world_def idle_world_def socket_def open_fd_def fresh_fd_def sys_ok_def sock_of_def)
  then show ?thesis using big_port_boots by fastforce
qed

theorem proxy_listens_witness:
  "\<exists>g st' w'. proxy_boot bob_server [''simpleproxy''] big_port_start (new_world\<lparr>fds := [Some plain_sock, Some plain_sock, Some plain_sock], sockets := [Some plain_sock]\<rparr>) =
     (None, g, st', w') \<and> listening w' = Some (server_sock g, 4464, 128)"
proof -
  let ?w = "new_world\<lparr>fds := [Some plain_sock, Some plain_sock, Some plain_sock], sockets := [Some plain_sock]\<rparr>"
  obtain g st' w' where b: "proxy_boot bob_server [''simpleproxy''] big_port_start ?w = (None, g, st', w')"
    using sample_boot by blast
  have "fresh_process ?w" by (simp add: fresh_process_def new_world_def idle_world_def)
  from proxy_listens [OF this b] big_port_loads have "listening w' = Some (server_sock g, 4464, 128)"
    by (simp add: big_port_def)
  then show ?thesis using b by blast
qed

section \<open>Signals\<close>

lemma boot_reactions:
  assumes "proxy_boot my argv st w = (None, g, st', w')"
  shows "reactions st' = reactions (register_signal_handler CleanupHandler st)"
proof -
  have v: "snd (check_print_version argv st) = st" if "\<not> fst (check_print_version argv st)"
    using that unfolding check_print_version_def by (auto split: if_splits)
  obtain c st2 where c: "load_config CONF_PATH (ready_to_load st) = (c, st2)" by fastforce
  have r2: "reactions st2 = reactions (register_signal_handler CleanupHandler st)"
    using load_config_reactions [of CONF_PATH "ready_to_load st"] by (simp add: c)
  obtain db st3 where d: "db_create my c st2 = (db, st3)" by fastforce
  have "console.more st3 = console.more st2"
    using d by (auto simp: db_create_def log_error_def logger_log_normal_def split: option.splits)
  then have r3: "reactions st3 = reactions st2" by (intro reactions_cong(1) filing_frame(5))
  have "st' = log_info (''Proxy server running on port '' @ show_int (cfg_port c) @ ''...'') st3"
    using assms v c d
    by (cases "check_print_version argv st") (auto simp: proxy_boot_def ready_to_load_def Let_def split: if_splits option.splits prod.splits)
  moreover have "reactions (log_info m st3) = reactions st3" for m
    by (intro reactions_cong(1) filing_frame(5)) (simp add: log_info_def logger_log_normal_def)
  ultimately show ?thesis using r2 r3 by simp
qed

text \<open>
  C40: signals in the loop. Whatever the loop has done since, an interrupt or a termination request
  ends the proxy with exit code 0 and with the listener, the epoll instance and the timer closed; a
  broken pipe, for which no handler is installed, ends it at once with nothing closed.
\<close>

theorem signals_in_the_loop:
  assumes "proxy_boot my argv st w = (None, g, st', w')" and "sig_fails st = []"
    and "reactions st SIGPIPE = DefaultAction" and "sig \<noteq> SIGPIPE"
  shows "(\<exists>st2 w2. deliver sig g1 st' w1 = Inr (0, no_globals, st2, w2) \<and>
      sock_of w2 (server_sock g1) = None \<and> sock_of w2 (epoll_fd g1) = None \<and> sock_of w2 (timer_fd g1) = None) \<and>
    deliver SIGPIPE g1 st' w1 = Inl Killed"
proof -
  have "reactions st' = (reactions st)(SIGINT := CleanupHandler, SIGTERM := CleanupHandler)"
    using boot_reactions [OF assms(1)] registered(1) [OF assms(2)] by simp
  then have r: "reactions st' sig = CleanupHandler" "reactions st' SIGPIPE = DefaultAction"
    using assms(3,4) by (cases sig; simp)+
  obtain g2 w2 where c: "cleanup_resources g1 w1 = (g2, w2)" by fastforce
  then show ?thesis using r cleanup_closes [OF c]
    by (simp add: deliver_def cleanup_def no_globals_def EXIT_SUCCESS_def Let_def)
qed

theorem signals_in_the_loop_witness:
  "\<exists>g st' w'. proxy_boot bob_server [''simpleproxy''] big_port_start (new_world\<lparr>fds := [Some plain_sock, Some plain_sock, Some plain_sock], sockets := [Some plain_sock]\<rparr>) =
     (None, g, st', w') \<and> (\<exists>st2 w2. deliver SIGTERM g st' w' = Inr (0, no_globals, st2, w2)) \<and> deliver SIGPIPE g st' w' = Inl Killed"
proof -
  let ?w = "new_world\<lparr>fds := [Some plain_sock, Some plain_sock, Some plain_sock], sockets := [Some plain_sock]\<rparr>"
  obtain g st' w' where b: "proxy_boot bob_server [''simpleproxy''] big_port_start ?w = (None, g, st', w')"
    using sample_boot by blast
  have "sig_fails big_port_start = []" "reactions big_port_start SIGPIPE = DefaultAction"
    by (simp_all add: big_port_start_def sample_process_def)
  from signals_in_the_loop [OF b this, of SIGTERM g w'] show ?thesis using b by blast
qed

end
