(* ===== verification/History.thy ===== *)
theory History
  imports Cache ProxyMain
begin

text \<open>
  Whole runs of the loop with their history: what every client was let through with, long after
  its request has left its buffer, and what the fields of a client hold at any time.
\<close>

section \<open>One event\<close>

text \<open>What any event makes of any client that is there after it.\<close>

lemma event_moves:
  assumes inv: "loop_inv w" and live: "ev_live w d" and run: "handle_event my (d, ev) w = Inr w'"
    and c': "clients w' q = Some c'" and rest: "\<And>c. clients w q = Some c \<Longrightarrow> phase c \<noteq> INITIALIZE_CONNECTION"
  shows "arrived c' \<or> (\<exists>c. clients w q = Some c \<and>
    (unmoved c c' \<or> phase c \<in> {READING_REQUEST, AUTHENTICATING} \<and> admitted my w c'))"
proof -
  obtain e where e: "d \<noteq> 0" "edatas w d = Some e" using live by (auto simp: ev_live_def)
  note dis = handle_event_dispatch [OF e, of my ev]
  have same: "unmoved c c" if "clients w q = Some c" for c using rest [OF that] by (simp add: unmoved_def)
  consider "fd_type e = EPOLL_FD_LISTENER" "client_ptr e = 0" | "fd_type e = EPOLL_FD_TIMER"
    | "is_conn (fd_type e)" | "fd_type e = EPOLL_FD_LISTENER" "client_ptr e \<noteq> 0"
    by (cases "fd_type e") (auto simp: is_conn_def)
  then show ?thesis
  proof cases
    case 1
    then have "handle_listener_event w = Inr w'" using run dis by simp
    then have "clients w q = Some c' \<or> arrived c'" using listener_safe [OF inv] c' by auto
    then show ?thesis using same by blast
  next
    case 2
    then have t: "handle_timer_event w = Inr w'" using run dis by simp
    show ?thesis
    proof (cases "fst (timer_read w)")
      case True
      then have "ticked UNIV w w'" using timer_safe [OF inv] t by auto
      note k = tickedD(7,8) [OF this]
      obtain c where c: "clients w q = Some c" using k(1) [of q] c' by (cases "clients w q") auto
      have "tick_client (now w) c = Some c'" using k(2) [OF c] c' by simp
      then have "c' = c \<or> c' = c\<lparr>expired := True\<rparr>" by (auto simp: tick_client_def split: if_splits)
      then show ?thesis using c same [OF c] by (auto simp: unmoved_def)
    next
      case False
      then obtain w1 where w1: "timer_read w = (False, w1)" by (metis prod.collapse)
      then have "w' = w1" using t by (simp add: handle_timer_event_def)
      then have "clients w q = Some c'" using quiet_world(2) [OF timer_read_quiet [OF w1]] c' by simp
      then show ?thesis using same by blast
    qed
  next
    case 3
    then have h: "handle_client my d ev w = Inr w'" using run dis by (auto simp: is_conn_def)
    obtain c where c: "clients w (client_ptr e) = Some c" using live e 3 by (auto simp: ev_live_def)
    have w: "world_inv w" using inv by (simp add: loop_inv_def)
    show ?thesis
    proof (cases "q = client_ptr e")
      case True
      then show ?thesis using client_moves [OF w e(2) refl 3 e(1) c _ h, of c'] rest c c' by auto
    next
      case False
      have "stays d (client_ptr e) w w'" using handle_client_safe [OF w e(2) 3 c e(1), of my ev] h by simp
      then have "clients w q = Some c'" using False c' by (simp add: stays_def)
      then show ?thesis using same by blast
    qed
  next
    case 4
    then have "w' = w" using run dis by (simp add: is_conn_def)
    then show ?thesis using same c' by blast
  qed
qed

section \<open>Runs with their history\<close>

text \<open>
  A step that also writes down the world it started in and the one it ended in.
\<close>

type_synonym ('e, 'w) history = "('w \<times> 'e \<times> 'w) list"

definition recorded :: "('e \<Rightarrow> 'w \<Rightarrow> 'w result) \<Rightarrow> 'e \<Rightarrow> ('e, 'w) history \<times> 'w \<Rightarrow> (('e, 'w) history \<times> 'w) result" where
  "recorded step e x = bindR (step e (snd x)) (\<lambda>w'. Inr (fst x @ [(snd x, e, w')], w'))"

type_synonym 's events = "(nat \<times> 32 word, 's world) history"

fun history_run :: "'s mysql \<Rightarrow> wait list \<Rightarrow> 's events \<times> 's world \<Rightarrow> ('s events \<times> 's world) result" where
  "history_run my [] x = Inr x"
| "history_run my (Interrupted # ws) x = history_run my ws x"
| "history_run my (WaitFailed # ws) x = Inr x"
| "history_run my (Ready t rs # ws) x =
     (let w = (snd x)\<lparr>now := t\<rparr> in
      bindR (run_events (recorded (handle_event my)) (epoll_wait rs w) (fst x, w)) (history_run my ws))"

text \<open>The history of a run of the loop, as far as it is defined.\<close>

definition history :: "'s mysql \<Rightarrow> wait list \<Rightarrow> 's world \<Rightarrow> 's events" where
  "history my ws w = (case history_run my ws ([], w) of Inl _ \<Rightarrow> [] | Inr x \<Rightarrow> fst x)"

lemma recorded_events:
  "run_events step es w = Inr w' \<Longrightarrow> \<exists>hs'. run_events (recorded step) es (hs, w) = Inr (hs', w')"
  by (induction es arbitrary: hs w) (auto simp: recorded_def bindR_eq_Inr)

lemma recorded_events_snd:
  "run_events (recorded step) es x = Inr y \<Longrightarrow> run_events step es (snd x) = Inr (snd y)"
  by (induction es arbitrary: x) (auto simp: recorded_def bindR_eq_Inr)

lemma history_run_exists:
  "run_loop my g ws w = Inr (True, g', w') \<Longrightarrow> \<exists>hs'. history_run my ws (hs, w) = Inr (hs', w')"
proof (induction ws arbitrary: w hs)
  case (Cons r ws)
  show ?case
  proof (cases r)
    case (Ready t rs)
    then obtain w1 where 1: "run_events (handle_event my) (epoll_wait rs (w\<lparr>now := t\<rparr>)) (w\<lparr>now := t\<rparr>) = Inr w1"
      "run_loop my g ws w1 = Inr (True, g', w')"
      using Cons.prems by (auto simp: Let_def bindR_eq_Inr)
    obtain hs1 where "run_events (recorded (handle_event my)) (epoll_wait rs (w\<lparr>now := t\<rparr>)) (hs, w\<lparr>now := t\<rparr>) = Inr (hs1, w1)"
      using recorded_events [OF 1(1)] by blast
    then show ?thesis using Cons.IH [OF 1(2)] Ready by (simp add: Let_def)
  qed (use Cons in \<open>auto simp: exit_with_error_def split: prod.splits\<close>)
qed simp

section \<open>The audited invariant\<close>

text \<open>
  The token was verified, less than an hour before the time of \<open>v\<close>, in one of the worlds \<open>us\<close>.
\<close>

definition vouched :: "'s mysql \<Rightarrow> 's world list \<Rightarrow> 's world \<Rightarrow> string \<Rightarrow> bool" where
  "vouched my us v tok \<longleftrightarrow> (\<exists>u \<in> set us. verified my u tok \<and> now v < now u + CACHE_TTL)"

text \<open>
  The client was admitted, with the destination it has, by an event of the history, with a token
  that had been verified until then.
\<close>

definition admission ::
    "'s mysql \<Rightarrow> 's events \<Rightarrow> 's world \<Rightarrow> nat \<times> 32 word \<Rightarrow> 's world \<Rightarrow> nat \<Rightarrow> client \<Rightarrow> bool" where
  "admission my before v event v' p c \<longleftrightarrow> (\<exists>c' tok. handle_event my event v = Inr v' \<and> clients v' p = Some c' \<and>
     basic_auth_bytes (cstr (request_buffer c')) = Some tok \<and>
     parse_host_port (cstr (request_buffer c')) = Some (host c, port c) \<and>
     vouched my (map fst before @ [v]) v tok)"

definition admitted_before :: "'s mysql \<Rightarrow> 's events \<Rightarrow> nat \<Rightarrow> client \<Rightarrow> bool" where
  "admitted_before my hs p c \<longleftrightarrow> (\<exists>before v event v' later. hs = before @ (v, event, v') # later \<and>
     admission my before v event v' p c)"

text \<open>What fits \<open>char host[256]\<close> and \<open>int port\<close>.\<close>

definition destination_fits :: "client \<Rightarrow> bool" where
  "destination_fits c \<longleftrightarrow> length (host c) \<le> 255 \<and> c_string (host c) \<and> - (2 ^ 31) \<le> port c \<and> port c < 2 ^ 31"

definition audited :: "'s mysql \<Rightarrow> 's events \<times> 's world \<Rightarrow> bool" where
  "audited my x \<longleftrightarrow> loop_inv (snd x) \<and> cache_inv (snd x) \<and>
     (\<forall>tok ttl. expiry (snd x) tok = Some ttl \<longrightarrow>
        (\<exists>u \<in> set (map fst (fst x)). verified my u tok \<and> ttl = now u + CACHE_TTL)) \<and>
     (\<forall>p c. clients (snd x) p = Some c \<longrightarrow> phase c \<noteq> INITIALIZE_CONNECTION \<and> destination_fits c \<and>
        (target_fd c \<noteq> - 1 \<longrightarrow> admitted_before my (fst x) p c))"

lemma admitted_before_mono:
  assumes "admitted_before my hs p c" and "host c' = host c" and "port c' = port c"
  shows "admitted_before my (hs @ hs') p c'"
proof -
  obtain before v event v' later where h: "hs = before @ (v, event, v') # later" "admission my before v event v' p c"
    using assms(1) unfolding admitted_before_def by blast
  then have "hs @ hs' = before @ (v, event, v') # (later @ hs')" "admission my before v event v' p c'"
    using assms(2,3) by (simp_all add: admission_def)
  then show ?thesis unfolding admitted_before_def by blast
qed

text \<open>An admission by the last event: a cached token was verified before, any other one now.\<close>

lemma admitted_before_last:
  assumes "audited my (hs, v)" and "handle_event my event v = Inr v'" and "clients v' p = Some c" and "admitted my v c"
  shows "admitted_before my (hs @ [(v, event, v')]) p c"
proof -
  obtain tok where tok: "basic_auth_bytes (cstr (request_buffer c)) = Some tok" "cached v tok \<or> verified my v tok"
    using assms(4) by (auto simp: admitted_def credentials_def verified_def)
  have "vouched my (map fst hs @ [v]) v tok"
  proof (cases "cached v tok")
    case True
    then obtain ttl where "expiry v tok = Some ttl" "now v < ttl"
      by (auto simp: cached_def expiry_def split: option.splits)
    then show ?thesis using assms(1) by (fastforce simp: audited_def vouched_def)
  next
    case False
    then show ?thesis using tok(2) by (simp add: vouched_def CACHE_TTL_def)
  qed
  then show ?thesis using assms(2,3,4) tok(1) unfolding admitted_before_def admission_def admitted_def by blast
qed

lemma audited_cache:
  assumes a: "audited my (hs, w)" and v: "vouching my w w'"
  shows "cache_inv w' \<and> (\<forall>tok ttl. expiry w' tok = Some ttl \<longrightarrow>
    (\<exists>u \<in> set (map fst (hs @ [(w, event, w')])). verified my u tok \<and> ttl = now u + CACHE_TTL))"
proof -
  have c: "cache_inv w" using a by (simp add: audited_def)
  have "\<exists>u \<in> set (map fst (hs @ [(w, event, w')])). verified my u tok \<and> ttl = now u + CACHE_TTL"
    if "expiry w' tok = Some ttl" for tok ttl
  proof (cases "expiry w tok = Some ttl")
    case True
    then show ?thesis using a by (auto simp: audited_def)
  next
    case False
    then show ?thesis using v c that by (auto simp: vouching_def)
  qed
  then show ?thesis using v c by (simp add: vouching_def)
qed

lemma audited_step:
  assumes a: "audited my (hs, w)" and live: "ev_live w d" and run: "handle_event my (d, ev) w = Inr w'"
  shows "audited my (hs @ [(w, (d, ev), w')], w')"
proof -
  let ?hs = "hs @ [(w, (d, ev), w')]"
  have inv: "loop_inv w" and inv': "loop_inv w'"
    using a handle_event_step [OF _ live, of my ev] run by (simp_all add: audited_def)
  have w: "world_inv w" using inv by (simp add: loop_inv_def)
  note cache = audited_cache [OF a event_vouching [OF w live run], of "(d, ev)"]
  have old: "phase c \<noteq> INITIALIZE_CONNECTION" "destination_fits c" "target_fd c \<noteq> - 1 \<Longrightarrow> admitted_before my hs q c"
    if "clients w q = Some c" for q c
    using a that by (simp_all add: audited_def)
  have "phase c' \<noteq> INITIALIZE_CONNECTION \<and> destination_fits c' \<and>
      (target_fd c' \<noteq> - 1 \<longrightarrow> admitted_before my ?hs q c')" if c': "clients w' q = Some c'" for q c'
  proof -
    have "arrived c' \<or> (\<exists>c. clients w q = Some c \<and>
        (unmoved c c' \<or> phase c \<in> {READING_REQUEST, AUTHENTICATING} \<and> admitted my w c'))"
      by (rule event_moves [OF inv live run c']) (rule old(1))
    then consider "arrived c'" | c where "clients w q = Some c" "unmoved c c'" | "admitted my w c'"
      by blast
    then show ?thesis
    proof cases
      case 1
      then show ?thesis by (simp add: arrived_def destination_fits_def)
    next
      case 2
      then have u: "host c' = host c" "port c' = port c" "target_fd c' \<noteq> - 1 \<Longrightarrow> target_fd c \<noteq> - 1"
        "phase c' \<noteq> INITIALIZE_CONNECTION" by (auto simp: unmoved_def)
      have "destination_fits c'" using old(2) [OF 2(1)] u(1,2) by (simp add: destination_fits_def)
      then show ?thesis using u admitted_before_mono [OF old(3) [OF 2(1)] u(1,2)] by blast
    next
      case 3
      then have p: "parse_host_port (cstr (request_buffer c')) = Some (host c', port c')" by (simp add: admitted_def)
      have "destination_fits c'" using parsed_bounds [OF p] by (simp add: destination_fits_def)
      then show ?thesis using admitted_before_last [OF a run c' 3] 3 by (simp add: admitted_def)
    qed
  qed
  then show ?thesis using inv' cache by (simp add: audited_def)
qed

interpretation au: batch "recorded (handle_event my)" "audited my" "\<lambda>x event. ev_live (snd x) (fst event)" fst
  "\<lambda>x event. is_timer (snd x) (fst event)" "{HeapOverflow, OutOfBounds, Killed, Exited}" for my :: "'s mysql"
proof (unfold_locales, goal_cases)
  case (1 x event u)
  then have "handle_event my event (snd x) = Inl u" by (auto simp: recorded_def bindR_def split: sum.splits)
  then show ?case using ev.step_bad [of "snd x" event my u] 1 by (simp add: audited_def)
next
  case (2 x event x')
  then obtain w' where w': "handle_event my event (snd x) = Inr w'" "x' = (fst x @ [(snd x, event, w')], w')"
    by (auto simp: recorded_def bindR_eq_Inr)
  then show ?case using audited_step [of my "fst x" "snd x" "fst event" "snd event" w'] 2 by simp
next
  case (3 x event x' event')
  then obtain w' where "handle_event my event (snd x) = Inr w'" "snd x' = w'"
    by (auto simp: recorded_def bindR_eq_Inr)
  then show ?case using ev.step_live [of "snd x" event my w' event'] 3 by (simp add: audited_def)
qed

lemma history_run_audited:
  assumes "audited my x" and "fair_run my ws (snd x)" and "history_run my ws x = Inr y"
  shows "audited my y"
  using assms
proof (induction ws arbitrary: x)
  case (Cons r ws)
  show ?case
  proof (cases r)
    case (Ready t rs)
    let ?w = "(snd x)\<lparr>now := t\<rparr>"
    have a: "audited my (fst x, ?w)" using Cons.prems(1)
      by (simp add: audited_def expiry_def cache_inv_def cache_map_def)
    have f: "fair_batch rs ?w" using Cons.prems(2) Ready by (simp add: Let_def)
    obtain x1 where x1: "run_events (recorded (handle_event my)) (epoll_wait rs ?w) (fst x, ?w) = Inr x1"
      "history_run my ws x1 = Inr y" using Cons.prems(3) Ready by (auto simp: Let_def bindR_eq_Inr)
    have w: "world_inv ?w" using a by (simp add: audited_def loop_inv_def)
    have "\<forall>event \<in> set (epoll_wait rs ?w). ev_live ?w (fst event)"
      using f epoll_wait_live [OF w] by (auto simp: fair_batch_def)
    moreover have "distinct (map fst (epoll_wait rs ?w))"
      using f by (intro epoll_wait_distinct [OF w]) (auto simp: fair_batch_def)
    moreover have "\<forall>event \<in> set (butlast (epoll_wait rs ?w)). \<not> is_timer ?w (fst event)"
      using f by (simp add: fair_batch_def)
    ultimately have "audited my x1" using au.run [OF a, of "epoll_wait rs ?w"] x1(1) by simp
    moreover have "fair_run my ws (snd x1)"
      using Cons.prems(2) Ready recorded_events_snd [OF x1(1)] by (simp add: Let_def)
    ultimately show ?thesis using Cons.IH x1(2) by blast
  qed (use Cons in auto)
qed simp

section \<open>The whole program\<close>

text \<open>The loop of a process that has just been started has an empty history, no clients and no cache.\<close>

lemma boot_cache:
  assumes "proxy_boot my argv st w = (None, g, st', w')"
  shows "auth_cache w' = auth_cache w"
  using assms
  by (auto simp: proxy_boot_def create_server_socket_def Let_def dest!: outcome_cache(1) socket_cache(1)
      split: prod.splits if_splits option.splits)

lemma started_audited:
  assumes "fresh_process w" and "auth_cache w = None"
    and "proxy_boot my argv st w = (None, g, st', w1)" and "run_loop_start g w1 = Inr (True, g1, w2)"
  shows "audited my ([], w2)"
proof -
  have "booted g w1" using proxy_boot_cases [OF assms(1,3)] by simp
  then have "loop_inv w2" "clients w2 = Map.empty" using run_loop_starts [of g w1] assms(4) by auto
  moreover have "auth_cache w2 = None" using boot_cache [OF assms(3)] startup_cache(2) [OF assms(4)] assms(2) by simp
  ultimately show ?thesis
    by (simp add: audited_def cache_inv_def expiry_def cache_map_def hashmap_laws)
qed

lemma program_audited:
  assumes "fresh_process w" and "auth_cache w = None"
    and "proxy_boot my argv st w = (None, g, st', w1)" and "run_loop_start g w1 = Inr (True, g1, w2)"
    and "fair_run my ws w2" and "run_loop my g1 ws w2 = Inr (True, g2, w')"
  shows "audited my (history my ws w2, w')"
proof -
  obtain hs where h: "history_run my ws ([], w2) = Inr (hs, w')" using history_run_exists [OF assms(6)] by blast
  have "audited my (hs, w')"
    using history_run_audited [OF started_audited [OF assms(1-4)]] assms(5) h by simp
  then show ?thesis by (simp add: history_def h)
qed




section \<open>A run\<close>

text \<open>A process whose first client connects and sends, in one piece, a request with the credentials of an account.\<close>

definition login_world :: "unit world" where
  "login_world = new_world\<lparr>fds := [Some plain_sock, Some plain_sock, Some plain_sock],
     sockets := [Some plain_sock, Some plain_sock], dns := (\<lambda>_. Some ''10.0.0.1''),
     accepts := [Some (plain_sock\<lparr>rx := [Bytes bob_get]\<rparr>)]\<rparr>"

definition login_events :: "wait list" where
  "login_events = [Ready 1 [(3, EPOLLIN)], Ready 2 [(6, EPOLLIN)]]"

definition login_start :: "unit world" where
  "login_start = login_world\<lparr>fds := [Some plain_sock, Some plain_sock, Some plain_sock,
       Some (plain_sock\<lparr>nonblocking := True\<rparr>), Some plain_sock, Some plain_sock],
     sockets := [Some plain_sock], listening := Some (3, 4464, 128),
     edatas := [5 \<mapsto> \<lparr>client_ptr = 0, fd_type = EPOLL_FD_LISTENER\<rparr>, 6 \<mapsto> \<lparr>client_ptr = 0, fd_type = EPOLL_FD_TIMER\<rparr>],
     interest := [3 \<mapsto> (EPOLLIN, 5), 5 \<mapsto> (EPOLLIN, 6)], brk := 7\<rparr>"

lemmas login_defs = login_world_def new_world_def idle_world_def

lemma login_boots:
  "\<exists>g st w1. proxy_boot bob_server [''simpleproxy''] big_port_start login_world = (None, g, st, w1) \<and>
   run_loop_start g w1 = Inr (True, \<lparr>server_sock = 3, epoll_fd = 4, timer_fd = 5\<rparr>, login_start)"
proof -
  let ?w1 = "login_world\<lparr>fds := [Some plain_sock, Some plain_sock, Some plain_sock, Some plain_sock],
     sockets := [Some plain_sock], listening := Some (3, 4464, 128)\<rparr>"
  have "create_server_socket 70000 128 (login_world\<lparr>db_conn := (), allocs := []\<rparr>) = (3, ?w1)"
    by (simp add: create_server_socket_def login_defs socket_def open_fd_def fresh_fd_def sys_ok_def sock_of_def htons_def)
  moreover have "run_loop_start (no_globals\<lparr>server_sock := 3\<rparr>) ?w1 = Inr (True, \<lparr>server_sock = 3, epoll_fd = 4, timer_fd = 5\<rparr>, login_start)"
    by (simp add: run_loop_start_def login_start_def login_defs no_globals_def set_nonblocking_def set_sock_def sock_of_def
        sys_ok_def open_fd_def fresh_fd_def epoll_create_data_def malloc_def malloc_ok_def epoll_add_fd_def ctl_ok_def
        register_timer_def create_timer_fd_def Let_def)
  ultimately show ?thesis using big_port_boots [of login_world 3] by fastforce
qed

definition login_client :: client where
  "login_client = new_client 6 1"

definition login_sock :: sock where
  "login_sock = plain_sock\<lparr>rx := [Bytes bob_get], nonblocking := True\<rparr>"

definition login_accepted :: "unit world" where
  "login_accepted = login_start\<lparr>now := 1, fds := fds login_start @ [Some login_sock], accepts := [],
     edatas := (edatas login_start)(8 \<mapsto> \<lparr>client_ptr = 7, fd_type = EPOLL_FD_CLIENT\<rparr>),
     interest := (interest login_start)(6 \<mapsto> (EPOLLIN, 8)), brk := 9,
     clients := [7 \<mapsto> login_client], registry := 7 # replicate 1023 0\<rparr>"

lemma login_accepts:
  "handle_listener_event (login_start\<lparr>now := 1\<rparr>) = Inr login_accepted"
proof -
  let ?w = "login_start\<lparr>now := 1\<rparr>"
  let ?w1 = "?w\<lparr>fds := fds login_start @ [Some (plain_sock\<lparr>rx := [Bytes bob_get]\<rparr>)], accepts := []\<rparr>"
  let ?w2 = "?w\<lparr>fds := fds login_start @ [Some login_sock], accepts := [],
     edatas := (edatas login_start)(8 \<mapsto> \<lparr>client_ptr = 7, fd_type = EPOLL_FD_CLIENT\<rparr>),
     interest := (interest login_start)(6 \<mapsto> (EPOLLIN, 8)), brk := 9, clients := [7 \<mapsto> new_client 6 1]\<rparr>"
  have 1: "accept_connection ?w = (Some 6, ?w1)"
    by (simp add: accept_connection_def login_start_def login_defs open_fd_def fresh_fd_def)
  have 2: "epoll_register_client 6 EPOLLIN ?w1 = Inr (7, ?w2)"
    by (simp add: epoll_register_client_def login_start_def login_defs login_sock_def set_nonblocking_def set_sock_def sock_of_def
        create_client_state_def malloc_def malloc_ok_def epoll_create_data_def epoll_add_fd_def ctl_ok_def Let_def)
  have r: "state_registry_init = 0 # replicate 1023 0"
    by (simp add: state_registry_init_def MAX_CLIENTS_def flip: replicate_Suc)
  have 3: "state_registry_add 7 (registry login_start) = (Some 0, 7 # replicate 1023 0)"
    by (simp add: login_start_def login_defs state_registry_add_def r)
  have 4: "put_client 7 ((new_client 6 1)\<lparr>slot := 0\<rparr>) (?w2\<lparr>registry := 7 # replicate 1023 0\<rparr>) = login_accepted"
    by (simp add: put_client_def login_accepted_def login_client_def new_client_def)
  have 5: "handle_listener_event login_accepted = Inr login_accepted"
  proof -
    have "accepts login_accepted = []" by (simp add: login_accepted_def)
    then show ?thesis by (simp add: handle_listener_event.simps [of login_accepted] accept_connection_def)
  qed
  show ?thesis
    using 4 5 by (simp add: handle_listener_event.simps [of ?w] 1 2 3 deref_def)
qed

text \<open>The request arrives in one piece.\<close>

lemma login_reads:
  "\<exists>c. read_request_nonblocking login_client (login_accepted\<lparr>now := 2\<rparr>) =
     Inr (1, c, (set_sock 6 (login_sock\<lparr>rx := []\<rparr>) login_accepted)\<lparr>now := 2\<rparr>) \<and>
   request_buffer c = bob_get @ [NUL] \<and> \<not> expired c"
proof -
  let ?w = "login_accepted\<lparr>now := 2\<rparr>"
  have c: "client_fd login_client = 6" "request_capacity login_client = 4096" "request_len login_client = 0"
    "request_buffer login_client = []" "\<not> expired login_client"
    by (simp_all add: login_client_def new_client_def MAX_BUFFER_SIZE_def)
  have f: "set_sock 6 s ?w = (set_sock 6 s login_accepted)\<lparr>now := 2\<rparr>" for s by (simp add: set_sock_def)
  have "sock_of ?w 6 = Some login_sock" by (simp add: login_accepted_def login_start_def sock_of_def)
  moreover have "rx login_sock = [Bytes bob_get]" by (simp add: login_sock_def)
  moreover have "bob_get \<noteq> []" "length bob_get \<le> 4096" using bob_get_facts(1) by auto
  ultimately have "recv 6 4096 ?w = (Got bob_get, set_sock 6 (login_sock\<lparr>rx := []\<rparr>) ?w)" by (simp add: recv_def)
  moreover have "strstr bob_get [CR, LF, CR, LF] \<noteq> None" unfolding bob_get_def bob_token_def by code_simp
  ultimately show ?thesis
    by (simp add: read_request_nonblocking_def grow_request_def c buf_write_def bob_get_facts Let_def f)
qed

lemma login_connects:
  "\<exists>w' c'. handle_client bob_server 8 EPOLLIN (login_accepted\<lparr>now := 2\<rparr>) = Inr w' \<and> clients w' 7 = Some c' \<and> target_fd c' \<noteq> - 1 \<and>
     \<not> expired c' \<and> \<not> is_https c'"
proof -
  let ?w = "login_accepted\<lparr>now := 2\<rparr>"
  let ?e = "\<lparr>client_ptr = 7, fd_type = EPOLL_FD_CLIENT\<rparr>"
  let ?w1 = "(set_sock 6 (login_sock\<lparr>rx := []\<rparr>) login_accepted)\<lparr>now := 2\<rparr>"
  have w: "edatas ?w 8 = Some ?e" "clients ?w 7 = Some login_client" by (simp_all add: login_accepted_def)
  have c: "phase login_client = READING_REQUEST" "\<not> expired login_client" by (simp_all add: login_client_def new_client_def)
  obtain c1 where rd: "read_request_nonblocking login_client ?w = Inr (1, c1, ?w1)" "request_buffer c1 = bob_get @ [NUL]" "\<not> expired c1"
    using login_reads by blast
  let ?c = "c1\<lparr>phase := AUTHENTICATING\<rparr>"
  let ?w2 = "put_client 7 ?c ?w1"
  have "\<exists>w' c'. handle_client_n (Suc (Suc 1)) bob_server 8 EPOLLIN ?w2 = Inr w' \<and> clients w' 7 = Some c' \<and> target_fd c' \<noteq> - 1 \<and>
      \<not> expired c' \<and> \<not> is_https c'"
    by (rule bob_connects_at [of _ _ ?c _ ?e]) (use rd in \<open>simp_all add: put_client_def login_accepted_def login_start_def login_defs set_sock_def\<close>)
  moreover have "handle_client bob_server 8 EPOLLIN ?w = handle_client_n (Suc (Suc 1)) bob_server 8 EPOLLIN ?w2"
    using handle_client_step [OF w(1), of login_client 3 bob_server EPOLLIN] w c
    by (simp add: handle_client_def eval_nat_numeral handle_reading_request_def rd)
  ultimately show ?thesis by simp
qed

lemma login_waits:
  "epoll_wait [(3, EPOLLIN)] (login_start\<lparr>now := 1\<rparr>) = [(5, EPOLLIN)]"
  "epoll_wait [(6, EPOLLIN)] (login_accepted\<lparr>now := 2\<rparr>) = [(8, EPOLLIN)]"
  by (simp_all add: epoll_wait_def login_accepted_def login_start_def EPOLLIN_def EPOLL_ALWAYS_def)

lemma login_handles:
  "handle_event bob_server (5, EPOLLIN) (login_start\<lparr>now := 1\<rparr>) = Inr login_accepted"
  "\<exists>w' c. handle_event bob_server (8, EPOLLIN) (login_accepted\<lparr>now := 2\<rparr>) = Inr w' \<and> clients w' 7 = Some c \<and>
     target_fd c \<noteq> - 1 \<and> \<not> expired c \<and> \<not> is_https c"
proof -
  show "handle_event bob_server (5, EPOLLIN) (login_start\<lparr>now := 1\<rparr>) = Inr login_accepted"
    using login_accepts by (simp add: handle_event_def deref_def login_start_def)
  have "handle_event bob_server (8, EPOLLIN) (login_accepted\<lparr>now := 2\<rparr>) =
    handle_client bob_server 8 EPOLLIN (login_accepted\<lparr>now := 2\<rparr>)"
    by (simp add: handle_event_def handle_client_event_def deref_def login_accepted_def)
  then show "\<exists>w' c. handle_event bob_server (8, EPOLLIN) (login_accepted\<lparr>now := 2\<rparr>) = Inr w' \<and> clients w' 7 = Some c \<and>
     target_fd c \<noteq> - 1 \<and> \<not> expired c \<and> \<not> is_https c"
    using login_connects by simp
qed

lemma login_runs:
  "fair_run bob_server login_events login_start"
  "\<exists>w' c. run_loop bob_server g login_events login_start = Inr (True, g, w') \<and> clients w' 7 = Some c \<and> target_fd c \<noteq> - 1 \<and>
    \<not> expired c \<and> \<not> is_https c"
proof -
  obtain w' c where 2: "handle_event bob_server (8, EPOLLIN) (login_accepted\<lparr>now := 2\<rparr>) = Inr w'" "clients w' 7 = Some c" "target_fd c \<noteq> - 1"
    "\<not> expired c" "\<not> is_https c"
    using login_handles(2) by blast
  show "fair_run bob_server login_events login_start"
    by (simp add: login_events_def fair_batch_def login_waits login_handles(1) 2(1))
  show "\<exists>w' c. run_loop bob_server g login_events login_start = Inr (True, g, w') \<and> clients w' 7 = Some c \<and> target_fd c \<noteq> - 1 \<and>
    \<not> expired c \<and> \<not> is_https c"
    using 2(2-5) by (simp add: login_events_def login_waits login_handles(1) 2(1))
qed

lemma login_history:
  assumes "(u, event, u') \<in> set (history bob_server login_events login_start)"
  shows "now u < 10"
proof -
  obtain w' where 2: "handle_event bob_server (8, EPOLLIN) (login_accepted\<lparr>now := 2\<rparr>) = Inr w'"
    using login_handles(2) by blast
  have "history_run bob_server login_events ([], login_start) =
      Inr ([(login_start\<lparr>now := 1\<rparr>, (5, EPOLLIN), login_accepted), (login_accepted\<lparr>now := 2\<rparr>, (8, EPOLLIN), w')], w')"
    by (simp add: login_events_def login_waits recorded_def login_handles(1) 2)
  then have "history bob_server login_events login_start =
      [(login_start\<lparr>now := 1\<rparr>, (5, EPOLLIN), login_accepted), (login_accepted\<lparr>now := 2\<rparr>, (8, EPOLLIN), w')]"
    by (simp add: history_def)
  moreover from assms have "now u \<in> set (map (now \<circ> fst) (history bob_server login_events login_start))"
    by force
  ultimately show ?thesis by auto
qed

lemma login_process: "fresh_process login_world" "auth_cache login_world = None"
  by (simp_all add: fresh_process_def login_defs)




end
