(* ===== verification/Service.thy ===== *)
theory Service
  imports History
begin

text \<open>
  What the proxy is for, as seen by a client with an account: its request is read, accepted and
  turned into a connection that relays in both directions.
\<close>

declare handle_client_n.simps(2) [simp del]

section \<open>Connecting\<close>

text \<open>The start of a connection, when every call it makes succeeds.\<close>

lemma initialize_starts:
  fixes w :: "'s world"
  assumes ok: "allocs w = []" "ctl_fails w = []" "connects w = []" "sockets w = Some s # r" "dns w (host c) = Some addr"
    and free: "\<And>x. sock_of w x = None \<Longrightarrow> interest w x = None"
  shows "\<exists>fd w'. handle_initialize_connection p c w = Inr w' \<and> 0 \<le> fd \<and> sock_of w fd = None \<and>
    clients w' = (clients w)(p \<mapsto> c\<lparr>target_fd := fd, phase := CONNECTING\<rparr>) \<and>
    sock_of w' = (sock_of w)(fd \<mapsto> s\<lparr>nonblocking := True, peer := Some (addr, htons (port c))\<rparr>) \<and>
    interest w' = (interest w)(fd \<mapsto> (EPOLLOUT, brk w)) \<and>
    edatas w' = (edatas w)(brk w \<mapsto> \<lparr>client_ptr = p, fd_type = EPOLL_FD_TARGET\<rparr>) \<and>
    allocs w' = [] \<and> ctl_fails w' = [] \<and> so_errors w' = so_errors w \<and> brk w' = Suc (brk w)"
proof -
  obtain fd w1 where o: "open_fd s (w\<lparr>sockets := r\<rparr>) = (fd, w1)" by fastforce
  note op = sock_of_open [OF o, simplified]
  have w1: "ctl_fails w1 = []" "connects w1 = []" "so_errors w1 = so_errors w" "dns w1 = dns w"
    "edatas w1 = edatas w" "clients w1 = clients w" "brk w1 = brk w" "allocs w1 = []" "interest w1 = interest w"
    using o ok by (auto simp: open_fd_def Let_def)
  have k: "0 \<le> fd" "sock_of w fd = None" "sock_of w1 = (sock_of w)(fd \<mapsto> s)" using op by (simp_all add: fun_eq_iff)
  let ?w2 = "set_sock fd (s\<lparr>nonblocking := True\<rparr>) w1"
  let ?s3 = "s\<lparr>nonblocking := True, peer := Some (addr, htons (port c))\<rparr>"
  let ?w3 = "set_sock fd ?s3 ?w2"
  have n: "set_nonblocking fd w1 = ?w2" using k(3) by (simp add: set_nonblocking_def)
  have cn: "connect fd addr (htons (port c)) ?w2 = (ConnInProgress, ?w3)"
    using k(3) w1(2) by (simp add: connect_def) (simp add: set_sock_def)
  have f3: "edatas ?w3 = edatas w" "clients ?w3 = clients w" "brk ?w3 = brk w" "allocs ?w3 = []" "ctl_fails ?w3 = []"
    "so_errors ?w3 = so_errors w" "interest ?w3 = interest w"
    using w1 by (simp_all add: set_sock_def)
  have s3: "sock_of ?w3 = (sock_of w)(fd \<mapsto> ?s3)" using k(3) by (auto simp: fun_eq_iff)
  let ?c = "c\<lparr>target_fd := fd\<rparr>"
  have cc: "connection_connect c w = Inr (0, ?c, ?w3)"
    using ok(4,5) o k(1) n cn w1(4) by (simp add: connection_connect_def socket_def Let_def)
  obtain w4 where d: "epoll_create_data EPOLL_FD_TARGET p ?w3 = (brk w, w4)" "clients w4 = clients w" "allocs w4 = []"
    "edatas w4 = (edatas w)(brk w \<mapsto> \<lparr>client_ptr = p, fd_type = EPOLL_FD_TARGET\<rparr>)" "brk w4 = Suc (brk w)"
    "ctl_fails w4 = []" "so_errors w4 = so_errors w" "interest w4 = interest w" "sock_of w4 = sock_of ?w3"
    using f3 by (simp add: epoll_create_data_def malloc_def fun_eq_iff)
  let ?w5 = "w4\<lparr>interest := (interest w)(fd \<mapsto> (EPOLLOUT, brk w))\<rparr>"
  have a: "epoll_add_fd fd EPOLLOUT (brk w) w4 = (True, ?w5)"
    using d(6,8,9) s3 free [OF k(2)] by (simp add: epoll_add_fd_def ctl_ok_def)
  have "handle_initialize_connection p c w = Inr (put_client p (?c\<lparr>phase := CONNECTING\<rparr>) ?w5)"
    by (simp add: handle_initialize_connection_def cc d(1) a)
  then show ?thesis
    using k(1,2) d s3 by (intro exI [of _ fd] exI [of _ "put_client p (?c\<lparr>phase := CONNECTING\<rparr>) ?w5"])
      (simp add: put_client_def fun_eq_iff)
qed

text \<open>Both descriptors are registered for both directions.\<close>

lemma register_both:
  fixes w :: "'s world"
  assumes ok: "allocs w = []" "ctl_fails w = []" and i: "interest w (client_fd c) \<noteq> None" "interest w (target_fd c) \<noteq> None"
    and s: "sock_of w (client_fd c) \<noteq> None" "sock_of w (target_fd c) \<noteq> None" "client_fd c \<noteq> target_fd c" and b: "brk w \<noteq> 0"
  shows "\<exists>w'. register_forwarding_fds p c w = Inr (True, w') \<and> clients w' = clients w \<and> sock_of w' = sock_of w \<and>
    interest w' (client_fd c) = Some (or EPOLLIN EPOLLOUT, brk w) \<and>
    edatas w' (brk w) = Some \<lparr>client_ptr = p, fd_type = EPOLL_FD_CLIENT\<rparr> \<and>
    interest w' (target_fd c) = Some (or EPOLLIN EPOLLOUT, Suc (brk w)) \<and>
    edatas w' (Suc (brk w)) = Some \<lparr>client_ptr = p, fd_type = EPOLL_FD_TARGET\<rparr>"
proof -
  obtain w1 where d: "epoll_create_data EPOLL_FD_CLIENT p w = (brk w, w1)" "clients w1 = clients w" "allocs w1 = []"
    "edatas w1 = (edatas w)(brk w \<mapsto> \<lparr>client_ptr = p, fd_type = EPOLL_FD_CLIENT\<rparr>)" "brk w1 = Suc (brk w)"
    "ctl_fails w1 = []" "interest w1 = interest w" "sock_of w1 = sock_of w"
    using ok by (simp add: epoll_create_data_def malloc_def fun_eq_iff)
  let ?w2 = "w1\<lparr>interest := (interest w)(client_fd c \<mapsto> (or EPOLLIN EPOLLOUT, brk w))\<rparr>"
  have m: "epoll_mod_fd (client_fd c) (or EPOLLIN EPOLLOUT) (brk w) w1 = (True, ?w2)"
    using d(6-8) i s by (simp add: epoll_mod_fd_def ctl_ok_def)
  obtain w3 where e: "epoll_create_data EPOLL_FD_TARGET p ?w2 = (Suc (brk w), w3)" "clients w3 = clients w"
    "edatas w3 = (edatas w1)(Suc (brk w) \<mapsto> \<lparr>client_ptr = p, fd_type = EPOLL_FD_TARGET\<rparr>)"
    "ctl_fails w3 = []" "interest w3 = interest ?w2" "sock_of w3 = sock_of w"
    using d by (simp add: epoll_create_data_def malloc_def fun_eq_iff)
  let ?w4 = "w3\<lparr>interest := (interest w3)(target_fd c \<mapsto> (or EPOLLIN EPOLLOUT, Suc (brk w)))\<rparr>"
  have n: "epoll_mod_fd (target_fd c) (or EPOLLIN EPOLLOUT) (Suc (brk w)) w3 = (True, ?w4)"
    using e(4-6) i s by (simp add: epoll_mod_fd_def ctl_ok_def)
  have "register_forwarding_fds p c w = Inr (True, ?w4)" using b by (simp add: register_forwarding_fds_def d(1) m e(1) n)
  then show ?thesis using e d(4) s(3) by (intro exI [of _ ?w4]) (simp add: fun_eq_iff)
qed

text \<open>A connection that is established: the answer to a \<open>CONNECT\<close>, and the relay.\<close>

lemma connecting_relays:
  fixes w :: "'s world"
  assumes ok: "allocs w = []" "ctl_fails w = []" "so_errors w = []"
    and i: "interest w (client_fd c) \<noteq> None" "interest w (target_fd c) \<noteq> None"
    and s: "sock_of w (client_fd c) = Some cs" "tx cs = []" "sock_of w (target_fd c) = Some ts" "client_fd c \<noteq> target_fd c" and b: "brk w \<noteq> 0"
  shows "\<exists>w'. handle_connecting again p c w = Inr w' \<and>
    clients w' p = Some (c\<lparr>request_len := if is_https c then 0 else request_len c, response_len := 0, phase := FORWARDING\<rparr>) \<and>
    sock_of w' (client_fd c) = Some (if is_https c then cs\<lparr>sent := sent cs @ established\<rparr> else cs) \<and>
    sock_of w' (target_fd c) = Some ts \<and>
    (\<exists>cd td. interest w' (client_fd c) = Some (or EPOLLIN EPOLLOUT, cd) \<and>
      edatas w' cd = Some \<lparr>client_ptr = p, fd_type = EPOLL_FD_CLIENT\<rparr> \<and>
      interest w' (target_fd c) = Some (or EPOLLIN EPOLLOUT, td) \<and>
      edatas w' td = Some \<lparr>client_ptr = p, fd_type = EPOLL_FD_TARGET\<rparr>)"
proof -
  have so: "so_error (target_fd c) w = (Some 0, w)" using ok(3) s(3) by (simp add: so_error_def)
  let ?w1 = "if is_https c then set_sock (client_fd c) (cs\<lparr>sent := sent cs @ established\<rparr>) w else w"
  let ?c = "c\<lparr>request_len := if is_https c then 0 else request_len c, response_len := 0, phase := FORWARDING\<rparr>"
  have h: "(if is_https c then bindR (send_https_established (client_fd c) w) (\<lambda>w. Inr (c\<lparr>request_len := 0\<rparr>, w)) else Inr (c, w)) =
      Inr (c\<lparr>request_len := if is_https c then 0 else request_len c\<rparr>, ?w1)"
    using s(1,2) by (simp add: send_https_established_def send_def)
  let ?w2 = "put_client p ?c ?w1"
  have f: "allocs ?w2 = []" "ctl_fails ?w2 = []" "interest ?w2 = interest w" "brk ?w2 = brk w"
    using ok by (simp_all add: put_client_def set_sock_def)
  have k: "sock_of ?w2 = (sock_of w)(client_fd c \<mapsto> (if is_https c then cs\<lparr>sent := sent cs @ established\<rparr> else cs))"
    using s(1) by (auto simp: fun_eq_iff put_client_def)
  obtain w3 where r: "register_forwarding_fds p ?c ?w2 = Inr (True, w3)" "clients w3 = clients ?w2" "sock_of w3 = sock_of ?w2"
    "interest w3 (client_fd c) = Some (or EPOLLIN EPOLLOUT, brk w)"
    "edatas w3 (brk w) = Some \<lparr>client_ptr = p, fd_type = EPOLL_FD_CLIENT\<rparr>"
    "interest w3 (target_fd c) = Some (or EPOLLIN EPOLLOUT, Suc (brk w))"
    "edatas w3 (Suc (brk w)) = Some \<lparr>client_ptr = p, fd_type = EPOLL_FD_TARGET\<rparr>"
    using register_both [of ?w2 ?c p] f k i s b by auto
  have "handle_connecting again p c w = Inr w3"
    unfolding handle_connecting_def so Let_def prod.case h bindR_Inr using r(1) by simp
  then show ?thesis using r k s(3,4) by (intro exI [of _ w3]) (auto simp: put_client_def)
qed

section \<open>From the request to the relay\<close>

lemma auth_frame_scripts:
  fixes st st' :: "('s, 'z) os_scheme"
  assumes "auth_frame st st'"
  shows "ctl_fails st' = ctl_fails st" "connects st' = connects st" "so_errors st' = so_errors st"
  using assms by (cases st; cases st'; simp add: auth_frame_def)+

lemma sock_of_cong: "fds st' = fds st \<Longrightarrow> sock_of st' = sock_of st"
  by (simp add: sock_of_def fun_eq_iff)

lemma watched_open: "world_inv w \<Longrightarrow> interest w x = Some y \<Longrightarrow> sock_of w x \<noteq> None"
  unfolding world_inv_def memory_ok_def opens_def by (cases y) blast

text \<open>The event of a complete request with the credentials of an account.\<close>

lemma request_starts:
  fixes w :: "'s world"
  assumes inv: "world_inv w" and c: "clients w p = Some c" "phase c = READING_REQUEST" "\<not> expired c"
      "request_buffer c = []" "request_len c = 0" "request_capacity c = MAX_BUFFER_SIZE" "client_fd c = fd"
    and e: "edatas w d = Some \<lparr>client_ptr = p, fd_type = EPOLL_FD_CLIENT\<rparr>" "d \<noteq> 0"
    and ok: "allocs w = []" "ctl_fails w = []" "connects w = []" "so_errors w = []" "sockets w = Some s # r" "dns w h = Some addr"
    and cs: "sock_of w fd = Some cs" "rx cs = [Bytes req]"
    and req: "length req < MAX_BUFFER_SIZE" "c_string req" "sublist [CR, LF, CR, LF] req" "basic_auth_bytes req = Some tok"
      "verified my w tok" "parse_host_port req = Some (h, n)"
  shows "\<exists>tfd td w'. handle_client my d EPOLLIN w = Inr w' \<and> 0 \<le> tfd \<and> sock_of w tfd = None \<and> td \<noteq> 0 \<and> d \<noteq> td \<and>
    clients w' p = Some (c\<lparr>request_buffer := req @ [NUL], request_len := length req, is_https := starts_with ''CONNECT '' req,
      host := h, port := n, target_fd := tfd, phase := CONNECTING\<rparr>) \<and>
    sock_of w' fd = Some (cs\<lparr>rx := []\<rparr>) \<and>
    sock_of w' tfd = Some (s\<lparr>nonblocking := True, peer := Some (addr, htons n)\<rparr>) \<and>
    interest w' = (interest w)(tfd \<mapsto> (EPOLLOUT, td)) \<and>
    edatas w' td = Some \<lparr>client_ptr = p, fd_type = EPOLL_FD_TARGET\<rparr> \<and>
    allocs w' = [] \<and> ctl_fails w' = [] \<and> so_errors w' = [] \<and> brk w' \<noteq> 0"
proof -
  let ?w1 = "set_sock fd (cs\<lparr>rx := []\<rparr>) w"
  let ?c1 = "c\<lparr>request_buffer := req @ [NUL], request_len := length req\<rparr>"
  have ne: "req \<noteq> []" using req(3) by auto
  have r: "recv fd MAX_BUFFER_SIZE w = (Got req, ?w1)" using cs req(1) ne by (simp add: recv_def MAX_BUFFER_SIZE_def)
  have z: "cstr (req @ [NUL]) = req" using req(2) by simp
  have "strstr req [CR, LF, CR, LF] \<noteq> None" using req(3) by (simp add: strstr_None_iff)
  then have rd: "read_request_nonblocking c w = Inr (1, ?c1, ?w1)"
    using c(4-7) req(1) r z by (simp add: read_request_nonblocking_def grow_request_def buf_write_def Let_def) (simp add: MAX_BUFFER_SIZE_def)
  let ?c2 = "?c1\<lparr>phase := AUTHENTICATING\<rparr>"
  let ?w2 = "put_client p ?c2 ?w1"
  have w2: "allocs ?w2 = []" "ctl_fails ?w2 = []" "connects ?w2 = []" "so_errors ?w2 = []" "sockets ?w2 = s # r'" "dns ?w2 = dns w"
    "interest ?w2 = interest w" "edatas ?w2 = edatas w" "brk ?w2 = brk w" "db_conn ?w2 = db_conn w"
    if "sockets w = s # r'" for s r'
    using ok that by (simp_all add: put_client_def set_sock_def)
  note w2 = w2 [OF ok(5)]
  have k2: "sock_of ?w2 = (sock_of w)(fd \<mapsto> cs\<lparr>rx := []\<rparr>)" using cs(1) by (auto simp: fun_eq_iff put_client_def)
  have "cached ?w2 tok \<or> (\<exists>u p. creds_of tok = Some (u, p) \<and> db_password my (db_conn ?w2) u = Some p)"
    using req(5) w2(10) by (auto simp: verified_def)
  then obtain w3 where v: "has_valid_auth my req ?w2 = Inr (True, w3)"
    using has_valid_auth_accepts [OF w2(1) req(4)] by blast
  have fr: "auth_frame ?w2 w3" using has_valid_auth_cases [OF v] by blast
  note f3 = auth_frame_os [OF fr] auth_frame_scripts [OF fr] has_valid_auth_allocs [OF v w2(1)]
  note m3 = os_more_world [OF f3(5)]
  have k3: "sock_of w3 = sock_of ?w2" using sock_of_cong [OF f3(1)] .
  let ?c3 = "?c2\<lparr>is_https := starts_with ''CONNECT '' req, host := h, port := n, phase := INITIALIZE_CONNECTION\<rparr>"
  let ?w4 = "put_client p ?c3 w3"
  have w4: "allocs ?w4 = []" "ctl_fails ?w4 = []" "connects ?w4 = []" "so_errors ?w4 = []" "sockets ?w4 = Some s # r"
    "dns ?w4 (host ?c3) = Some addr" "interest ?w4 = interest w" "edatas ?w4 = edatas w" "brk ?w4 = brk w"
    "sock_of ?w4 = sock_of ?w2"
    using f3 m3 w2 k3 ok(6) by (simp_all add: put_client_def fun_eq_iff)
  have free: "interest ?w4 x = None" if "sock_of ?w4 x = None" for x
    using watched_open [OF inv, of x] that w4(7,10) k2 by (cases "interest w x") (auto split: if_splits)
  obtain tfd w' where i: "handle_initialize_connection p ?c3 ?w4 = Inr w'" "0 \<le> tfd" "sock_of ?w4 tfd = None"
    "clients w' = (clients ?w4)(p \<mapsto> ?c3\<lparr>target_fd := tfd, phase := CONNECTING\<rparr>)"
    "sock_of w' = (sock_of ?w4)(tfd \<mapsto> s\<lparr>nonblocking := True, peer := Some (addr, htons (port ?c3))\<rparr>)"
    "interest w' = (interest ?w4)(tfd \<mapsto> (EPOLLOUT, brk ?w4))"
    "edatas w' = (edatas ?w4)(brk ?w4 \<mapsto> \<lparr>client_ptr = p, fd_type = EPOLL_FD_TARGET\<rparr>)"
    "allocs w' = []" "ctl_fails w' = []" "so_errors w' = so_errors ?w4" "brk w' = Suc (brk ?w4)"
    using initialize_starts [OF w4(1-3,5,6) free, of p] by blast
  have b: "brk w \<noteq> 0" "d \<noteq> brk w" "p \<noteq> 0" using inv e c(1) by (auto simp: world_inv_def memory_ok_def)
  have run: "handle_client my d EPOLLIN w = Inr w'"
  proof -
    note st = handle_client_step [where d = d and e = "\<lparr>client_ptr = p, fd_type = EPOLL_FD_CLIENT\<rparr>" and my = my and ev = EPOLLIN]
    have "handle_client_n (Suc (Suc (Suc 1))) my d EPOLLIN w = handle_client_n (Suc (Suc 1)) my d EPOLLIN ?w2"
      using st [of w c "Suc (Suc 1)"] e c b(3) by (simp add: handle_reading_request_def rd)
    also have "\<dots> = handle_client_n (Suc 1) my d EPOLLIN ?w4"
      using st [of ?w2 ?c2 "Suc 1"] e c b(3) w2(8) v z req(6) by (simp add: handle_authenticating_def Let_def)
    also have "\<dots> = Inr w'"
      using st [of ?w4 ?c3 1] e c b(3) w4(8) i(1) by simp
    finally show ?thesis by (simp add: handle_client_def eval_nat_numeral)
  qed
  have "sock_of w tfd = None" "tfd \<noteq> fd" using i(3) w4(10) k2 cs(1) by (auto split: if_splits)
  then show ?thesis
    using run i b w4 k2 by (intro exI [of _ tfd] exI [of _ "brk w"] exI [of _ w']) simp
qed


lemma login_accepted_inv: "world_inv (login_accepted\<lparr>now := 2\<rparr>)"
proof -
  obtain g st w1 where b: "proxy_boot bob_server [''simpleproxy''] big_port_start login_world = (None, g, st, w1)"
    "run_loop_start g w1 = Inr (True, \<lparr>server_sock = 3, epoll_fd = 4, timer_fd = 5\<rparr>, login_start)"
    using login_boots by blast
  have "audited bob_server ([], login_start)" by (rule started_audited [OF login_process b])
  then have "loop_inv login_start" by (simp add: audited_def)
  then have "loop_inv (login_start\<lparr>now := 1\<rparr>)" by simp
  then have "loop_inv login_accepted" using listener_safe login_accepts by fastforce
  then have "loop_inv (login_accepted\<lparr>now := 2\<rparr>)" by simp
  then show ?thesis unfolding loop_inv_def by blast
qed


end
