(* ===== verification/Ownership.thy ===== *)
theory Ownership
  imports Phases
begin

text \<open>
  Who owns which descriptor. As long as no call of \<open>epoll_ctl\<close> fails, every descriptor of a client
  is open and belongs to this client alone, an event touches no descriptor of another client, and
  what it does to the two byte streams of its own client is a move along these streams.
\<close>

section \<open>What is still to come\<close>

text \<open>
  The connections to be accepted and the sockets to be opened get fewer, and an \<open>epoll_ctl\<close>
  that was not to fail still is not.
\<close>

definition consumes :: "('s, 'z) os_scheme \<Rightarrow> ('s, 'z) os_scheme \<Rightarrow> bool" where
  "consumes st st' \<longleftrightarrow> suffix (accepts st') (accepts st) \<and> set (sockets st') \<subseteq> set (sockets st) \<and>
     (ctl_fails st = [] \<longrightarrow> ctl_fails st' = [])"

lemma consumes_refl [simp, inv_intros]: "consumes st st"
  by (simp add: consumes_def)

lemma consumes_trans: "consumes st st' \<Longrightarrow> consumes st' st'' \<Longrightarrow> consumes st st''"
  by (auto simp: consumes_def intro: suffix_order.trans)

lemma consumes_updates [simp]:
  "consumes st (st'\<lparr>fds := f\<rparr>) = consumes st st'"
  "consumes st (st'\<lparr>interest := i\<rparr>) = consumes st st'"
  "consumes st (st'\<lparr>allocs := m\<rparr>) = consumes st st'"
  "consumes st (st'\<lparr>connects := k\<rparr>) = consumes st st'"
  "consumes st (st'\<lparr>so_errors := se\<rparr>) = consumes st st'"
  "consumes st (st'\<lparr>timer_reads := tr\<rparr>) = consumes st st'"
  "consumes st (st'\<lparr>now := t\<rparr>) = consumes st st'"
  by (simp_all add: consumes_def)

lemma consumes_world [simp]:
  "consumes w (w'\<lparr>edatas := ed\<rparr>) = consumes w w'"
  "consumes w (w'\<lparr>clients := cl\<rparr>) = consumes w w'"
  "consumes w (w'\<lparr>brk := br\<rparr>) = consumes w w'"
  "consumes w (w'\<lparr>registry := t\<rparr>) = consumes w w'"
  "consumes w (put_client p c w') = consumes w w'"
  by (simp_all add: consumes_def put_client_def)

lemma set_sock_consumes [simp]: "consumes st (set_sock fd s st') = consumes st st'"
  by (simp add: set_sock_def)

lemma close_consumes [simp]: "consumes st (close_fd fd st') = consumes st st'"
  by (simp add: close_fd_def)

lemma set_nonblocking_consumes [simp]: "consumes st (set_nonblocking fd st') = consumes st st'"
  by (simp add: set_nonblocking_def split: option.split)

lemma recv_consumes: "recv fd n st = (r, st') \<Longrightarrow> consumes st st'"
  by (auto simp: recv_def split: option.splits list.splits rx.splits if_splits)

lemma send_consumes: "send f fd b st = Inr (r, st') \<Longrightarrow> consumes st st'"
  by (auto simp: send_def split: option.splits list.splits tx.splits if_splits)

lemma malloc_consumes: "malloc st = (ok, st') \<Longrightarrow> consumes (st :: ('s, 'z) os_scheme) st'"
  by (auto simp: malloc_def split: prod.splits)

lemma socket_call_consumes:
  "so_error fd st = (e, st') \<Longrightarrow> consumes st st'"
  "timer_read st = (b, st') \<Longrightarrow> consumes st st'"
  "connect fd a q st = (k, st') \<Longrightarrow> consumes st st'"
  by (auto simp: so_error_def timer_read_def connect_def Let_def
      split: if_splits list.splits option.splits)

lemma open_consumes: "open_fd s st = (fd, st') \<Longrightarrow> consumes st st'"
  by (auto simp: open_fd_def Let_def)

lemma new_fd_consumes:
  "socket st = (fd, st') \<Longrightarrow> consumes st st'"
  "accept_connection st = (r, st') \<Longrightarrow> consumes st st'"
  by (auto simp: socket_def accept_connection_def consumes_def open_fd_def Let_def intro: suffix_ConsI
      split: list.splits option.splits)

lemma ctl_consumes:
  "epoll_add_fd fd ev d st = (ok, st') \<Longrightarrow> consumes st st'"
  "epoll_mod_fd fd ev d st = (ok, st') \<Longrightarrow> consumes st st'"
  "epoll_del_fd fd st = (ok, st') \<Longrightarrow> consumes st st'"
  by (auto simp: epoll_add_fd_def epoll_mod_fd_def epoll_del_fd_def ctl_ok_def consumes_def
      split: list.splits if_splits)

lemma del_consumes [simp]: "consumes st st' \<Longrightarrow> consumes st (snd (epoll_del_fd fd st'))"
  using ctl_consumes(3) [of fd st'] consumes_trans by (cases "epoll_del_fd fd st'") auto

lemma data_consumes:
  "epoll_create_data t q w = (d, w') \<Longrightarrow> consumes w w'"
  "create_client_state fd w = (q, w') \<Longrightarrow> consumes w w'"
  "free_edata d w = Inr w' \<Longrightarrow> consumes w w'"
  by (auto simp: epoll_create_data_def create_client_state_def free_edata_def malloc_def Let_def
      split: prod.splits if_splits)

lemma drop_consumes: "consumes w (drop_fd fd w)"
  by (simp add: drop_fd_def)

lemma free_client_consumes: "free_client_state q w = Inr w' \<Longrightarrow> consumes w w'"
  by (auto simp: free_client_state_def bindR_eq_Inr Let_def split: if_splits)

lemma auth_consumes:
  fixes st st' :: "('s, 'z) os_scheme"
  assumes "has_valid_auth my req st = Inr (b, st')"
  shows "consumes st st'"
proof -
  have "auth_frame st st'" using has_valid_auth_cases [OF assms] by blast
  then show ?thesis by (cases st; cases st'; simp add: auth_frame_def consumes_def)
qed

lemma recv_loop_consumes: "recv_loop fd cap tot buf len st = Inr (r, buf', len', st') \<Longrightarrow> consumes st st'"
proof (induction fd cap tot buf len st rule: recv_loop.induct)
  case (1 fd cap tot buf len st)
  obtain res st1 where r: "recv fd (size_diff cap len) st = (res, st1)" by fastforce
  have "consumes st1 st'"
    using "1.prems" "1.IH" [OF r [symmetric]] by (subst (asm) recv_loop.simps) (auto simp: r bindR_eq_Inr split: recv_result.splits)
  then show ?case using consumes_trans [OF recv_consumes [OF r]] by blast
qed

lemma send_loop_consumes: "send_loop fd tot buf len st = Inr (r, buf', len', st') \<Longrightarrow> consumes st st'"
proof (induction fd tot buf len st rule: send_loop.induct)
  case (1 fd tot buf len st)
  show ?case
  proof (cases "len = 0")
    case True
    then show ?thesis using "1.prems" by (subst (asm) send_loop.simps) simp
  next
    case False
    obtain res st1 where r: "send True fd (take len buf) st = Inr (res, st1)" using send_nosignal by (metis surj_pair)
    have "consumes st1 st'"
      using "1.prems" "1.IH" [OF False r refl] False
      by (subst (asm) send_loop.simps) (auto simp: r split: send_result.splits if_splits)
    then show ?thesis using consumes_trans [OF send_consumes [OF r]] by blast
  qed
qed

lemma do_if_consumes:
  assumes "\<And>x x' y y'. f x y = Inr (x', y') \<Longrightarrow> consumes y y'" and "do_if b f z = Inr z'"
  shows "consumes (snd z) (snd z')"
  using assms by (cases z; cases z') (auto simp: do_if_def split: if_splits)

lemma forward_consumes:
  assumes "connection_forward t ev c st = Inr (r, c', st')"
  shows "consumes st st'"
proof -
  have f: "consumes y y'"
    if "f x y = Inr (x', y')" "f \<in> {forward_recv_client, forward_send_target, forward_recv_target, forward_send_client}"
    for f x x' and y y' :: "('a, 'b) os_scheme"
    using that by (auto simp: forward_recv_client_def forward_send_target_def forward_recv_target_def forward_send_client_def
        recv_into_buffer_def send_from_buffer_def bindR_eq_Inr Let_def dest!: recv_loop_consumes send_loop_consumes)
  have d: "consumes (snd z) (snd z')"
    if "do_if b f z = Inr z'" "f \<in> {forward_recv_client, forward_send_target, forward_recv_target, forward_send_client}"
    for b f and z z' :: "client \<times> ('a, 'b) os_scheme"
    by (rule do_if_consumes [OF _ that(1)]) (rule f [OF _ that(2)])
  obtain z1 z2 z3 z4 where z: "do_if (t = EPOLL_FD_CLIENT \<and> and ev EPOLLIN \<noteq> 0) forward_recv_client (c, st) = Inr z1"
    "do_if (t = EPOLL_FD_TARGET \<and> ((0 < request_len c \<and> t = EPOLL_FD_TARGET \<or> 0 < response_len c \<and> t = EPOLL_FD_CLIENT) \<and>
        and ev EPOLLOUT \<noteq> 0)) forward_send_target z1 = Inr z2"
    "do_if (t = EPOLL_FD_TARGET \<and> and ev EPOLLIN \<noteq> 0) forward_recv_target z2 = Inr z3"
    "do_if (t = EPOLL_FD_CLIENT \<and> ((0 < request_len c \<and> t = EPOLL_FD_TARGET \<or> 0 < response_len c \<and> t = EPOLL_FD_CLIENT) \<and>
        and ev EPOLLOUT \<noteq> 0)) forward_send_client z3 = Inr z4" "snd z4 = st'"
    using assms unfolding connection_forward_def Let_def bindR_eq_Inr by (elim exE conjE) (simp split: prod.splits)
  have "consumes (snd (c, st)) (snd z1)" by (rule d [OF z(1)]) simp
  moreover have "consumes (snd z1) (snd z2)" by (rule d [OF z(2)]) simp
  moreover have "consumes (snd z2) (snd z3)" by (rule d [OF z(3)]) simp
  moreover have "consumes (snd z3) (snd z4)" by (rule d [OF z(4)]) simp
  ultimately show ?thesis using consumes_trans z(5) by (metis snd_conv)
qed

section \<open>The two streams of a client\<close>

text \<open>
  What a client has for its target: what the target has got, what the proxy holds and what is not
  read from the client yet, in this order; and the same for the other direction.
\<close>

definition up_stream :: "('s, 'z) os_scheme \<Rightarrow> client \<Rightarrow> string" where
  "up_stream st c = sent_to st (target_fd c) @ pending_up c @ unread st (client_fd c)"

definition down_stream :: "('s, 'z) os_scheme \<Rightarrow> client \<Rightarrow> string" where
  "down_stream st c = sent_to st (client_fd c) @ pending_down c @ unread st (target_fd c)"

definition owns :: "client \<Rightarrow> int set" where
  "owns c = {client_fd c, target_fd c} - {- 1}"

text \<open>The phases in which no connection is made any more.\<close>

definition settled :: "client \<Rightarrow> bool" where
  "settled c \<longleftrightarrow> phase c \<in> {FORWARDING, CLOSING, CLOSED}"

text \<open>
  From \<open>c\<close> in \<open>st\<close> to \<open>c'\<close> in \<open>st'\<close>: nothing of the stream to the target is lost but, for a tunnel,
  a front part before the relay starts; once the client is settled both streams stay as they are.
\<close>

definition carries ::
    "('s, 'z) os_scheme \<Rightarrow> client \<Rightarrow> ('s, 'y) os_scheme \<Rightarrow> client \<Rightarrow> bool" where
  "carries st c st' c' \<longleftrightarrow> \<not> expired c' \<longrightarrow>
     \<not> expired c \<and> client_fd c' = client_fd c \<and> (is_https c \<longrightarrow> is_https c') \<and>
     (\<exists>D. up_stream st c = D @ up_stream st' c' \<and> (\<not> is_https c' \<or> settled c \<longrightarrow> D = [])) \<and>
     (settled c \<longrightarrow> settled c' \<and> target_fd c' = target_fd c \<and> down_stream st' c' = down_stream st c)"

lemma carriesI:
  assumes "\<not> expired c' \<Longrightarrow> \<not> expired c \<and> client_fd c' = client_fd c \<and> (is_https c \<longrightarrow> is_https c')"
    and "\<not> expired c' \<Longrightarrow> \<exists>D. up_stream st c = D @ up_stream st' c' \<and> (\<not> is_https c' \<or> settled c \<longrightarrow> D = [])"
    and "\<not> expired c' \<Longrightarrow> settled c \<Longrightarrow> settled c' \<and> target_fd c' = target_fd c \<and> down_stream st' c' = down_stream st c"
  shows "carries st c st' c'"
  unfolding carries_def using assms by blast

lemma carriesD:
  assumes "carries st c st' c'" and "\<not> expired c'"
  shows "\<not> expired c" "client_fd c' = client_fd c" "is_https c \<Longrightarrow> is_https c'"
    "\<exists>D. up_stream st c = D @ up_stream st' c' \<and> (\<not> is_https c' \<or> settled c \<longrightarrow> D = [])"
    "settled c \<Longrightarrow> settled c'" "settled c \<Longrightarrow> target_fd c' = target_fd c"
    "settled c \<Longrightarrow> down_stream st' c' = down_stream st c"
  using assms unfolding carries_def by blast+

lemma carries_trans:
  assumes 1: "carries st c st1 c1" and 2: "carries st1 c1 st' c'"
  shows "carries st c st' c'"
proof (rule carriesI)
  assume e: "\<not> expired c'"
  note d2 = carriesD [OF 2 e]
  note d1 = carriesD [OF 1 d2(1)]
  show "\<not> expired c \<and> client_fd c' = client_fd c \<and> (is_https c \<longrightarrow> is_https c')"
    using d1(1,2,3) d2(2,3) by simp
  obtain D1 where D1: "up_stream st c = D1 @ up_stream st1 c1" "\<not> is_https c1 \<or> settled c \<longrightarrow> D1 = []" using d1(4) by blast
  obtain D2 where D2: "up_stream st1 c1 = D2 @ up_stream st' c'" "\<not> is_https c' \<or> settled c1 \<longrightarrow> D2 = []" using d2(4) by blast
  show "\<exists>D. up_stream st c = D @ up_stream st' c' \<and> (\<not> is_https c' \<or> settled c \<longrightarrow> D = [])"
    using D1 D2 d1(5) d2(3) by (intro exI [of _ "D1 @ D2"]) auto
  assume "settled c"
  then show "settled c' \<and> target_fd c' = target_fd c \<and> down_stream st' c' = down_stream st c"
    using d1(5-7) d2(5-7) by simp
qed

lemma no_sock [simp]: "sock_of st (- 1) = None" "sent_to st (- 1) = []" "unread st (- 1) = []"
  by (simp_all add: sock_of_def sent_to_def unread_def)

lemma streams_cong:
  assumes "\<forall>fd \<in> owns c. sock_of st' fd = sock_of st fd"
  shows "sent_to st' (client_fd c) = sent_to st (client_fd c)" "sent_to st' (target_fd c) = sent_to st (target_fd c)"
    "unread st' (client_fd c) = unread st (client_fd c)" "unread st' (target_fd c) = unread st (target_fd c)"
    "up_stream st' c = up_stream st c" "down_stream st' c = down_stream st c"
proof -
  have "sock_of st' (client_fd c) = sock_of st (client_fd c)" "sock_of st' (target_fd c) = sock_of st (target_fd c)"
    using assms by (cases "client_fd c = - 1"; cases "target_fd c = - 1"; simp add: owns_def)+
  then show "sent_to st' (client_fd c) = sent_to st (client_fd c)" "sent_to st' (target_fd c) = sent_to st (target_fd c)"
    "unread st' (client_fd c) = unread st (client_fd c)" "unread st' (target_fd c) = unread st (target_fd c)"
    "up_stream st' c = up_stream st c" "down_stream st' c = down_stream st c"
    by (simp_all add: sent_to_def unread_def up_stream_def down_stream_def)
qed

lemma carries_same: "\<forall>fd \<in> owns c. sock_of st' fd = sock_of st fd \<Longrightarrow> carries st c st' c"
  using streams_cong [of c st' st] by (intro carriesI) auto

lemma carries_expired [simp]: "expired c' \<Longrightarrow> carries st c st' c'"
  by (simp add: carries_def)

section \<open>What is so of every client\<close>

text \<open>
  No call of \<open>epoll_ctl\<close> will fail; \<open>S\<close> are the sockets that the kernel hands out to the proxy, on none of
  which anything has been sent.
\<close>

definition ready :: "sock set \<Rightarrow> ('s, 'z) os_scheme \<Rightarrow> bool" where
  "ready S st \<longleftrightarrow> ctl_fails st = [] \<and> (\<forall>s. Some s \<in> set (sockets st) \<longrightarrow> s \<in> S) \<and> (\<forall>s \<in> S. sent s = [])"

lemma ready_consumes: "ready S st \<Longrightarrow> consumes st st' \<Longrightarrow> ready S st'"
  by (auto simp: ready_def consumes_def)

text \<open>
  What was sent by the client, on a connection that was made as the socket \<open>s\<close>, and what by the target.
\<close>

definition from_client :: "sock \<Rightarrow> ('s, 'z) os_scheme \<Rightarrow> client \<Rightarrow> bool" where
  "from_client s st c \<longleftrightarrow> (\<exists>D. rx_bytes (rx s) = D @ up_stream st c \<and> (\<not> is_https c \<longrightarrow> D = []))"

definition from_target :: "sock set \<Rightarrow> ('s, 'z) os_scheme \<Rightarrow> client \<Rightarrow> bool" where
  "from_target S st c \<longleftrightarrow> (\<exists>s \<in> S. \<exists>R. down_stream st c = R @ rx_bytes (rx s) \<and> (\<not> is_https c \<longrightarrow> R = []))"

definition sound :: "sock \<Rightarrow> sock set \<Rightarrow> ('s, 'z) os_scheme \<Rightarrow> client \<Rightarrow> bool" where
  "sound a S st c \<longleftrightarrow> owns c \<subseteq> opens st \<and> (client_fd c = target_fd c \<longrightarrow> client_fd c = - 1) \<and>
     (phase c \<in> {CONNECTING, FORWARDING} \<longrightarrow> target_fd c \<noteq> - 1) \<and>
     (phase c \<in> {READING_REQUEST, AUTHENTICATING} \<longrightarrow> \<not> is_https c) \<and>
     (\<not> settled c \<longrightarrow> sent_to st (target_fd c) = [] \<and> pending_down c = [] \<and>
       (\<not> is_https c \<longrightarrow> sent_to st (client_fd c) = [])) \<and>
     (\<not> expired c \<longrightarrow> from_client a st c) \<and>
     (phase c = CONNECTING \<longrightarrow> (\<exists>s \<in> S. unread st (target_fd c) = rx_bytes (rx s))) \<and>
     (phase c = FORWARDING \<longrightarrow> from_target S st c)"

lemma soundI:
  assumes "owns c \<subseteq> opens st" and "client_fd c = target_fd c \<Longrightarrow> client_fd c = - 1"
    and "phase c \<in> {CONNECTING, FORWARDING} \<Longrightarrow> target_fd c \<noteq> - 1"
    and "phase c \<in> {READING_REQUEST, AUTHENTICATING} \<Longrightarrow> \<not> is_https c"
    and "\<not> settled c \<Longrightarrow> sent_to st (target_fd c) = [] \<and> pending_down c = [] \<and>
       (\<not> is_https c \<longrightarrow> sent_to st (client_fd c) = [])"
    and "\<not> expired c \<Longrightarrow> from_client a st c"
    and "phase c = CONNECTING \<Longrightarrow> \<exists>s \<in> S. unread st (target_fd c) = rx_bytes (rx s)"
    and "phase c = FORWARDING \<Longrightarrow> from_target S st c"
  shows "sound a S st c"
  unfolding sound_def using assms by blast

lemma soundD:
  assumes "sound a S st c"
  shows "owns c \<subseteq> opens st" "client_fd c = target_fd c \<Longrightarrow> client_fd c = - 1"
    "phase c \<in> {CONNECTING, FORWARDING} \<Longrightarrow> target_fd c \<noteq> - 1"
    "phase c \<in> {READING_REQUEST, AUTHENTICATING} \<Longrightarrow> \<not> is_https c"
    "\<not> settled c \<Longrightarrow> sent_to st (target_fd c) = []" "\<not> settled c \<Longrightarrow> pending_down c = []"
    "\<not> settled c \<Longrightarrow> \<not> is_https c \<Longrightarrow> sent_to st (client_fd c) = []"
    "\<not> expired c \<Longrightarrow> from_client a st c" "phase c = CONNECTING \<Longrightarrow> \<exists>s \<in> S. unread st (target_fd c) = rx_bytes (rx s)"
    "phase c = FORWARDING \<Longrightarrow> from_target S st c"
  using assms unfolding sound_def by blast+

lemma opens_cong:
  assumes "X \<subseteq> opens st" and "\<forall>fd \<in> X. sock_of st' fd = sock_of st fd"
  shows "X \<subseteq> opens st'"
  using assms by (auto simp: opens_def)

lemma sound_cong:
  assumes "sound a S st c" and "\<forall>fd \<in> owns c. sock_of st' fd = sock_of st fd"
  shows "sound a S st' c"
  using assms(1) streams_cong [OF assms(2)] opens_cong [OF _ assms(2)]
  by (simp add: sound_def from_client_def from_target_def)

lemma carried_from_client:
  assumes "from_client a st c" and "carries st c st' c'" and "\<not> expired c'"
  shows "from_client a st' c'"
proof -
  note d = carriesD [OF assms(2,3)]
  obtain D where D: "rx_bytes (rx a) = D @ up_stream st c" "\<not> is_https c \<longrightarrow> D = []"
    using assms(1) by (auto simp: from_client_def)
  obtain E where "up_stream st c = E @ up_stream st' c'" "\<not> is_https c' \<or> settled c \<longrightarrow> E = []" using d(4) by blast
  then show ?thesis using D d(3) unfolding from_client_def by (intro exI [of _ "D @ E"]) auto
qed

section \<open>The turn of one client\<close>

text \<open>
  What an event of client \<open>p\<close> does to descriptors: those of other clients are left alone, and the
  client gets none of them.
\<close>

definition turn :: "sock \<Rightarrow> sock set \<Rightarrow> nat \<Rightarrow> 's world \<Rightarrow> 's world \<Rightarrow> bool" where
  "turn a S p w w' \<longleftrightarrow> (ready S w \<longrightarrow> (\<forall>c. clients w p = Some c \<longrightarrow> sound a S w c \<longrightarrow>
     consumes w w' \<and> (\<forall>fd \<in> opens w - owns c. sock_of w' fd = sock_of w fd) \<and>
     (\<exists>c'. clients w' p = Some c' \<and> sound a S w' c' \<and> carries w c w' c' \<and> owns c' \<inter> (opens w - owns c) = {})))"

lemma turn_readyI:
  assumes "clients w p = Some c"
    and "ready S w \<Longrightarrow> sound a S w c \<Longrightarrow> \<exists>c'. consumes w w' \<and> clients w' p = Some c' \<and>
      (\<forall>fd \<in> opens w - owns c. sock_of w' fd = sock_of w fd) \<and>
      owns c' \<inter> (opens w - owns c) = {} \<and> sound a S w' c' \<and> carries w c w' c'"
  shows "turn a S p w w'"
  unfolding turn_def using assms by fastforce

lemma turnI:
  assumes "clients w p = Some c" and "consumes w w'" and "clients w' p = Some c'"
    and "ready S w \<Longrightarrow> sound a S w c \<Longrightarrow> (\<forall>fd \<in> opens w - owns c. sock_of w' fd = sock_of w fd) \<and>
      owns c' \<inter> (opens w - owns c) = {} \<and> sound a S w' c' \<and> carries w c w' c'"
  shows "turn a S p w w'"
  using assms by (intro turn_readyI) blast+

lemma turnE:
  assumes "turn a S p w w'" and "ready S w" and "clients w p = Some c" and "sound a S w c"
  obtains c' where "ready S w'" "\<forall>fd \<in> opens w - owns c. sock_of w' fd = sock_of w fd" "clients w' p = Some c'"
    "sound a S w' c'" "carries w c w' c'" "owns c' \<inter> (opens w - owns c) = {}" "consumes w w'"
proof -
  have "consumes w w'" using assms unfolding turn_def by blast
  then show ?thesis using that assms ready_consumes [OF assms(2)] unfolding turn_def by blast
qed

lemma turn_refl [simp]: "turn a S p w w"
  by (auto simp: turn_def intro: carries_same)

lemma turn_trans:
  assumes 1: "turn a S p w w1" and 2: "turn a S p w1 w'"
  shows "turn a S p w w'"
  unfolding turn_def
proof (intro impI allI)
  fix c assume r: "ready S w" and c: "clients w p = Some c" and s: "sound a S w c"
  obtain c1 where 1: "ready S w1" "\<forall>fd \<in> opens w - owns c. sock_of w1 fd = sock_of w fd" "clients w1 p = Some c1"
    "sound a S w1 c1" "carries w c w1 c1" "owns c1 \<inter> (opens w - owns c) = {}" "consumes w w1"
    using turnE [OF 1 r c s] .
  obtain c' where 2: "ready S w'" "\<forall>fd \<in> opens w1 - owns c1. sock_of w' fd = sock_of w1 fd" "clients w' p = Some c'"
    "sound a S w' c'" "carries w1 c1 w' c'" "owns c' \<inter> (opens w1 - owns c1) = {}" "consumes w1 w'"
    using turnE [OF 2 1(1,3,4)] .
  have sub: "opens w - owns c \<subseteq> opens w1 - owns c1"
    using opens_cong [OF _ 1(2)] 1(6) by blast
  have "\<forall>fd \<in> opens w - owns c. sock_of w' fd = sock_of w fd" using 1(2) 2(2) sub by (metis subsetD)
  moreover have "owns c' \<inter> (opens w - owns c) = {}" using 2(6) sub by blast
  ultimately show "consumes w w' \<and> (\<forall>fd \<in> opens w - owns c. sock_of w' fd = sock_of w fd) \<and>
     (\<exists>c'. clients w' p = Some c' \<and> sound a S w' c' \<and> carries w c w' c' \<and> owns c' \<inter> (opens w - owns c) = {})"
    using 2(3,4) carries_trans [OF 1(5) 2(5)] consumes_trans [OF 1(7) 2(7)] by blast
qed

section \<open>The handlers\<close>

text \<open>A handler is looked at with a continuation that stops it at its call.\<close>

definition stop :: "'s cont" where
  "stop w = Inr w"

text \<open>An answer of the proxy on the descriptor of the client.\<close>

lemma sends_only:
  assumes "send f fd b st = Inr (r, st')"
  shows "only_fd fd st st'" "consumes st st'" "unread st' fd' = unread st fd'"
proof -
  show o: "only_fd fd st st'" "consumes st st'" by (rule send_only [OF assms] send_consumes [OF assms])+
  show "unread st' fd' = unread st fd'"
    using send_stream [OF assms] only_fd_sock [OF o(1)] by (cases "fd' = fd") (auto simp: unread_def)
qed

lemma answers_only:
  "send_proxy_auth_required fd st = Inr st' \<Longrightarrow> only_fd fd st st' \<and> consumes st st' \<and> (\<forall>x. unread st' x = unread st x)"
  "send_https_established fd st = Inr st' \<Longrightarrow> only_fd fd st st' \<and> consumes st st' \<and> (\<forall>x. unread st' x = unread st x)"
  using sends_only by (auto simp: send_proxy_auth_required_def send_https_established_def bindR_eq_Inr)

lemma read_request_stream:
  fixes w :: "'s world"
  assumes run: "read_request_nonblocking c w = Inr (n, c', w')" and b: "bufs_ok c"
  shows "only_fd (client_fd c) w w'" "consumes w w'"
    "\<exists>b l k. c' = c\<lparr>request_capacity := k, request_buffer := b, request_len := l\<rparr>"
    "pending_up c' @ unread w' (client_fd c) = pending_up c @ unread w (client_fd c)" "sent_to w' fd = sent_to w fd"
proof -
  obtain grown c1 w1 where g: "grow_request c w = (grown, c1, w1)" by (rule prod_cases3)
  obtain ok wm where ok: "malloc w = (ok, wm)" by fastforce
  have sm: "sock_of wm = sock_of w" using ok by (auto simp: malloc_def split: prod.splits)
  have o1: "only_fd (client_fd c) w w1" "consumes w w1" "sock_of w1 = sock_of w"
    and "c1 = c\<lparr>request_capacity := request_capacity c\<rparr> \<or> c1 = c\<lparr>request_capacity := request_capacity c * 2\<rparr>"
    using g malloc_quiet [OF ok] malloc_consumes [OF ok] sm
    by (auto simp: grow_request_def ok only_fd_def split: if_splits)
  then obtain k where c1: "c1 = c\<lparr>request_capacity := k\<rparr>" by blast
  have b1: "request_len c1 \<le> length (request_buffer c1)" "client_fd c1 = client_fd c" "pending_up c1 = pending_up c"
    using b by (simp_all add: c1 bufs_ok_def buf_ok_def pending_up_def)
  obtain res w2 where rv: "recv (client_fd c1) (size_diff (request_capacity c1) (request_len c1)) w1 = (res, w2)"
    by fastforce
  note str = recv_stream [OF rv]
  have o2: "only_fd (client_fd c) w w2" "consumes w w2"
    using only_fd_trans [OF o1(1)] recv_only [OF rv] b1(2) consumes_trans [OF o1(2) recv_consumes [OF rv]] by simp_all
  have s2: "sent_to w2 fd = sent_to w fd" for fd
    using str recv_only [OF rv] o1(3) by (cases "fd = client_fd c1") (simp_all add: sent_to_def only_fd_def)
  have u1: "unread w1 fd = unread w fd" for fd using o1(3) by (simp add: unread_def)
  note defs = read_request_nonblocking_def g Let_def prod.case rv
  have id: "\<exists>b l. c1 = c1\<lparr>request_buffer := b, request_len := l\<rparr>"
    by (rule exI [of _ "request_buffer c1"], rule exI [of _ "request_len c1"]) simp
  have "(\<exists>b l. c' = c1\<lparr>request_buffer := b, request_len := l\<rparr>) \<and>
    (w' = w2 \<and> pending_up c' @ unread w2 (client_fd c) = pending_up c1 @ unread w1 (client_fd c) \<or> w' = w1 \<and> c' = c1)"
  proof (cases "grown \<and> (\<exists>d. res = Got d)")
    case False
    then show ?thesis using id run str b1(2) unfolding defs by (cases res) (auto split: if_splits)
  next
    case True
    then obtain d where d: "grown" "res = Got d" by blast
    then obtain b2 b3 where w: "buf_write (request_capacity c1) (request_buffer c1) (request_len c1) d = Inr b2"
      "buf_write (request_capacity c1) b2 (request_len c1 + length d) [NUL] = Inr b3" "w' = w2"
      "c' = c1\<lparr>request_buffer := b3, request_len := request_len c1 + length d\<rparr>"
      using run unfolding defs by (auto simp: bindR_eq_Inr)
    have "take (request_len c1 + length d) b3 = take (request_len c1) (request_buffer c1) @ d"
      using w(1,2) b1(1) by (auto simp: buf_write_def split: if_splits)
    then have "pending_up c' @ unread w2 (client_fd c) = pending_up c1 @ unread w1 (client_fd c)"
      using w(4) str d(2) b1(2) by (simp add: pending_up_def)
    then show ?thesis using w(3,4) by blast
  qed
  then show "only_fd (client_fd c) w w'" "consumes w w'" "sent_to w' fd = sent_to w fd"
    "pending_up c' @ unread w' (client_fd c) = pending_up c @ unread w (client_fd c)"
    "\<exists>b l k. c' = c\<lparr>request_capacity := k, request_buffer := b, request_len := l\<rparr>"
    using o1 o2 s2 u1 b1(3) unfolding c1 sent_to_def by auto
qed

lemma only_client:
  fixes w w1 :: "'s world"
  assumes "only_fd (client_fd c) w w1"
  shows "\<forall>fd \<in> opens w - owns c. sock_of w1 fd = sock_of w fd" "opens w1 = opens w"
  using assms by (auto simp: only_fd_def owns_def opens_def quiet_def)

text \<open>
  A handler that keeps the descriptors of a client which has no target yet, and touches at most the
  descriptor of the client.
\<close>

lemma turn_early:
  fixes w w1 :: "'s world"
  assumes c: "clients w p = Some c" "target_fd c = - 1" "\<not> settled c"
    and o: "\<forall>fd \<in> opens w - owns c. sock_of w1 fd = sock_of w fd" "opens w1 = opens w" "consumes w w1"
    and k: "client_fd c' = client_fd c" "target_fd c' = - 1" "pending_down c' = pending_down c" "expired c' = expired c"
    and up: "pending_up c' @ unread w1 (client_fd c) = pending_up c @ unread w (client_fd c)"
    and h: "is_https c \<Longrightarrow> is_https c' \<or> phase c \<in> {READING_REQUEST, AUTHENTICATING}"
      "phase c' \<in> {READING_REQUEST, AUTHENTICATING} \<Longrightarrow> is_https c' = is_https c \<and> phase c \<in> {READING_REQUEST, AUTHENTICATING}"
    and f: "phase c' \<notin> {CONNECTING, FORWARDING}"
    and s: "settled c' \<or> sent_to w1 (client_fd c) = sent_to w (client_fd c)"
  shows "turn a S p w (put_client p c' w1)"
proof (rule turnI [OF c(1)])
  assume r: "ready S w" "sound a S w c"
  note d = soundD [OF r(2)]
  have https: "is_https c \<Longrightarrow> is_https c'" using h(1) d(4) by blast
  have own: "owns c' = owns c" using c(2) k by (simp add: owns_def)
  have sim: "sent_to (put_client p c' w1) = sent_to w1" "unread (put_client p c' w1) = unread w1"
    by (simp_all add: fun_eq_iff sent_to_def unread_def)
  have ca: "carries w c (put_client p c' w1) c'"
    using c up k https by (intro carriesI) (auto simp: up_stream_def sim)
  have "sound a S (put_client p c' w1) c'"
  proof (rule soundI)
    show "owns c' \<subseteq> opens (put_client p c' w1)" using d(1) own o(2) by simp
    show "from_client a (put_client p c' w1) c'" if "\<not> expired c'"
      using carried_from_client [OF d(8) ca that] that k(4) by simp
    show "\<not> settled c' \<Longrightarrow> sent_to (put_client p c' w1) (target_fd c') = [] \<and> pending_down c' = [] \<and>
       (\<not> is_https c' \<longrightarrow> sent_to (put_client p c' w1) (client_fd c') = [])"
      using d(6,7) c(3) k s https by (auto simp: sim)
  qed (use d k c h f in auto)
  then show "(\<forall>fd \<in> opens w - owns c. sock_of (put_client p c' w1) fd = sock_of w fd) \<and>
      owns c' \<inter> (opens w - owns c) = {} \<and> sound a S (put_client p c' w1) c' \<and> carries w c (put_client p c' w1) c'"
    using ca o(1) own by simp
qed (use o in simp_all)

lemma reading_turn:
  fixes w w' :: "'s world"
  assumes inv: "world_inv w" and c: "clients w p = Some c" "phase c = READING_REQUEST"
    and run: "handle_reading_request stop p c w = Inr w'"
  shows "turn a S p w w'"
proof -
  have ok: "bufs_ok c" "target_fd c = - 1" using world_client_ok [OF inv c(1)] c(2) by (simp_all add: client_ok_def)
  obtain n c1 w1 where r: "read_request_nonblocking c w = Inr (n, c1, w1)"
    using run by (cases "read_request_nonblocking c w") (auto simp: handle_reading_request_def)
  note st = read_request_stream [OF r ok(1)]
  obtain b l k where c1: "c1 = c\<lparr>request_capacity := k, request_buffer := b, request_len := l\<rparr>" using st(3) by blast
  have same: "c1\<lparr>phase := READING_REQUEST\<rparr> = c1" using c(2) by (simp add: c1)
  have d: "(if n < 0 then Inr (put_client p (c1\<lparr>phase := CLOSING\<rparr>) w1)
      else if n = 1 then Inr (put_client p (c1\<lparr>phase := AUTHENTICATING\<rparr>) w1) else Inr (put_client p c1 w1)) = (Inr w' :: 's world result)"
    using run unfolding handle_reading_request_def r bindR_Inr prod.case stop_def .
  obtain x where x: "x \<in> {READING_REQUEST, AUTHENTICATING, CLOSING}" "w' = put_client p (c1\<lparr>phase := x\<rparr>) w1"
  proof (cases "n < 0 \<or> n = 1")
    case True
    then show ?thesis using d that [of CLOSING] that [of AUTHENTICATING] by (simp split: if_splits)
  next
    case False
    then show ?thesis using d that [of READING_REQUEST] by (simp add: same)
  qed
  let ?c = "c\<lparr>request_capacity := k, request_buffer := b, request_len := l, phase := x\<rparr>"
  have "pending_up ?c = pending_up c1" by (simp add: c1 pending_up_def)
  then have up: "pending_up ?c @ unread w1 (client_fd c) = pending_up c @ unread w (client_fd c)" using st(4) by simp
  have "turn a S p w (put_client p ?c w1)"
  proof (rule turn_early [OF c(1) ok(2) _ only_client [OF st(1)] st(2) _ _ _ _ up])
    show "pending_down ?c = pending_down c" by (simp add: pending_down_def)
  qed (use x(1) c(2) ok st(5) in \<open>auto simp: settled_def\<close>)
  then show ?thesis by (simp only: x(2) c1)
qed

lemma authenticating_turn:
  fixes w w' :: "'s world"
  assumes inv: "world_inv w" and c: "clients w p = Some c" "phase c = AUTHENTICATING" 
    and run: "handle_authenticating my stop p c w = Inr w'"
  shows "turn a S p w w'"
proof -
  have ok: "target_fd c = - 1" using world_client_ok [OF inv c(1)] c(2) by (simp add: client_ok_def)
  obtain b w1 where v: "has_valid_auth my (cstr (request_buffer c)) w = Inr (b, w1)"
    using run by (cases "has_valid_auth my (cstr (request_buffer c)) w") (auto simp: handle_authenticating_def)
  have s1: "sock_of w1 = sock_of w" using has_valid_auth_quiet [OF v] by (simp add: fun_eq_iff sock_of_def)
  then have o1: "only_fd (client_fd c) w w1" "consumes w w1" "unread w1 (client_fd c) = unread w (client_fd c)"
    "sent_to w1 (client_fd c) = sent_to w (client_fd c)"
    using has_valid_auth_quiet [OF v] auth_consumes [OF v] by (simp_all add: only_fd_def unread_def sent_to_def)
  show ?thesis
  proof (cases b)
    case False
    then obtain w2 where w2: "send_proxy_auth_required (client_fd c) w1 = Inr w2"
      "w' = put_client p (c\<lparr>phase := CLOSING\<rparr>) w2"
      using run by (auto simp: handle_authenticating_def v bindR_eq_Inr stop_def)
    show ?thesis unfolding w2(2)
      using answers_only(1) [OF w2(1)] o1 c ok only_client [OF only_fd_trans [OF o1(1)]] consumes_trans [OF o1(2)]
      by (intro turn_early) (auto simp: settled_def pending_down_def pending_up_def)
  next
    case True
    obtain h a q x where x: "w' = put_client p (c\<lparr>is_https := h, host := a, port := q, phase := x\<rparr>) w1"
      "x \<in> {CLOSING, INITIALIZE_CONNECTION}"
    proof (cases "parse_host_port (cstr (request_buffer c))")
      case None
      have "w' = put_client p (c\<lparr>is_https := starts_with ''CONNECT '' (cstr (request_buffer c)), phase := CLOSING\<rparr>) w1"
        using run True None by (simp add: handle_authenticating_def v)
      also have "c\<lparr>is_https := starts_with ''CONNECT '' (cstr (request_buffer c)), phase := CLOSING\<rparr> =
        c\<lparr>is_https := starts_with ''CONNECT '' (cstr (request_buffer c)), host := host c, port := port c, phase := CLOSING\<rparr>"
        by simp
      finally show ?thesis by (rule that) simp
    next
      case (Some hp)
      obtain a q where "parse_host_port (cstr (request_buffer c)) = Some (a, q)" using Some by (cases hp) auto
      then have "w' = put_client p (c\<lparr>is_https := starts_with ''CONNECT '' (cstr (request_buffer c)),
          host := a, port := q, phase := INITIALIZE_CONNECTION\<rparr>) w1"
        using run True by (simp add: handle_authenticating_def v stop_def Let_def)
      then show ?thesis by (rule that) simp
    qed
    show ?thesis unfolding x(1)
      using o1 only_client [OF o1(1)] c ok x(2) by (intro turn_early) (auto simp: settled_def pending_down_def pending_up_def)
  qed
qed

lemma socket_of:
  assumes "socket st = (fd, st')" and "0 \<le> fd"
  shows "\<exists>s. Some s \<in> set (sockets st) \<and> sock_of st' = (sock_of st)(fd := Some s)"
proof -
  obtain s r where so: "sockets st = Some s # r" "open_fd s (st\<lparr>sockets := r\<rparr>) = (fd, st')"
    using assms by (auto simp: socket_def split: list.splits option.splits)
  then show ?thesis using sock_of_open(3) [OF so(2)] by (intro exI [of _ s]) (simp add: fun_eq_iff)
qed

text \<open>The new socket of a target: nothing has been sent on it, and no other descriptor reads differently.\<close>

lemma connect_stream:
  assumes run: "connection_connect c st = Inr (r, c', st')" and rd: "ready S st"
  shows "consumes st st'"
    and "r = - 1 \<Longrightarrow> request_len c' = request_len c"
    and "r \<noteq> - 1 \<Longrightarrow> (\<exists>s \<in> S. unread st' (target_fd c') = rx_bytes (rx s)) \<and>
      (target_fd c' \<noteq> client_fd c \<longrightarrow> sent_to st' (target_fd c') = []) \<and>
      (\<forall>fd. fd \<noteq> target_fd c' \<longrightarrow> unread st' fd = unread st fd) \<and>
      (\<not> is_https c \<longrightarrow> (\<forall>fd. fd \<noteq> target_fd c' \<longrightarrow> sent_to st' fd = sent_to st fd))"
proof -
  obtain fd st1 where so: "socket st = (fd, st1)" by fastforce
  let ?st2 = "set_nonblocking fd st1"
  obtain x st3 where co: "connect fd (the (dns st (host c))) (htons (port c)) ?st2 = (x, st3)" by fastforce
  have c3: "consumes st st3"
    using new_fd_consumes(1) [OF so] consumes_trans [OF _ socket_call_consumes(3) [OF co]] by simp
  have "consumes st st' \<and> (r = - 1 \<longrightarrow> request_len c' = request_len c) \<and> (r \<noteq> - 1 \<longrightarrow> (\<exists>s \<in> S. unread st' (target_fd c') = rx_bytes (rx s)) \<and>
      (target_fd c' \<noteq> client_fd c \<longrightarrow> sent_to st' (target_fd c') = []) \<and>
      (\<forall>fd. fd \<noteq> target_fd c' \<longrightarrow> unread st' fd = unread st fd) \<and>
      (\<not> is_https c \<longrightarrow> (\<forall>fd. fd \<noteq> target_fd c' \<longrightarrow> sent_to st' fd = sent_to st fd)))"
  proof (cases "dns st (host c) = None \<or> fd < 0")
    case True
    then have "r = - 1 \<and> request_len c' = request_len c \<and> (st' = st \<or> st' = st1)"
      using run by (cases "dns st (host c)") (auto simp: connection_connect_def so)
    then show ?thesis using new_fd_consumes(1) [OF so] by auto
  next
    case False
    then obtain addr where addr: "dns st (host c) = Some addr" "0 \<le> fd" by auto
    obtain s where s: "Some s \<in> set (sockets st)" "sock_of st1 = (sock_of st)(fd := Some s)"
      using socket_of [OF so addr(2)] by blast
    then have S: "s \<in> S" "sent s = []" using rd by (auto simp: ready_def)
    have "sock_of ?st2 fd = Some (s\<lparr>nonblocking := True\<rparr>)" by (simp add: s(2))
    from connect_sock [OF this co] have s3: "sock_of st3 = (sock_of st)(fd \<mapsto> s\<lparr>nonblocking := True, peer := Some (addr, htons (port c))\<rparr>)"
      using s(2) addr(1) by (auto simp: fun_eq_iff)
    have u3: "unread st3 y = (if y = fd then rx_bytes (rx s) else unread st y)"
      "sent_to st3 y = (if y = fd then [] else sent_to st y)" for y
      using S(2) by (simp_all add: unread_def sent_to_def s3)
    have e: "connection_connect c st =
      (let c = c\<lparr>target_fd := fd\<rparr> in case x of
          ConnInProgress \<Rightarrow> Inr (0, c, st3)
        | ConnRefused \<Rightarrow> Inr (- 1, c\<lparr>target_fd := - 1\<rparr>, close_fd fd st3)
        | ConnNow \<Rightarrow> if is_https c then bindR (send_https_established (client_fd c) st3)
            (\<lambda>st. Inr (1, c\<lparr>request_len := 0\<rparr>, st)) else Inr (1, c, st3))"
      using addr co by (simp add: connection_connect_def so Let_def split: conn.split)
    show ?thesis
    proof (cases "x = ConnNow \<and> is_https c")
      case True
      then obtain st4 where st4: "send_https_established (client_fd c) st3 = Inr st4"
        "r = 1" "c' = c\<lparr>target_fd := fd, request_len := 0\<rparr>" "st' = st4"
        using run unfolding e by (auto simp: res_simps)
      note a = answers_only(2) [OF st4(1)]
      have "sent_to st4 fd = sent_to st3 fd" if "fd \<noteq> client_fd c" for fd
        using only_fd_sock [of "client_fd c" st3 st4] a that by (simp add: sent_to_def)
      then show ?thesis using a st4 u3 S(1) True consumes_trans [OF c3] by auto
    next
      case False
      then show ?thesis using run u3 S(1) c3 unfolding e by (cases x) auto
    qed
  qed
  then show "consumes st st'"
    and "r = - 1 \<Longrightarrow> request_len c' = request_len c"
    and "r \<noteq> - 1 \<Longrightarrow> (\<exists>s \<in> S. unread st' (target_fd c') = rx_bytes (rx s)) \<and>
      (target_fd c' \<noteq> client_fd c \<longrightarrow> sent_to st' (target_fd c') = []) \<and>
      (\<forall>fd. fd \<noteq> target_fd c' \<longrightarrow> unread st' fd = unread st fd) \<and>
      (\<not> is_https c \<longrightarrow> (\<forall>fd. fd \<noteq> target_fd c' \<longrightarrow> sent_to st' fd = sent_to st fd))"
    by blast+
qed

lemma add_ready:
  assumes "epoll_add_fd fd ev d st = (ok, st')" and "ctl_fails st = []" and "sock_of st fd \<noteq> None" and "interest st fd = None"
  shows ok
  using assms by (auto simp: epoll_add_fd_def ctl_ok_def)

lemma unwatched:
  assumes "world_inv w" and "sock_of w fd = None"
  shows "interest w fd = None"
proof (rule ccontr)
  assume "interest w fd \<noteq> None"
  then obtain ev d where "interest w fd = Some (ev, d)" by auto
  then have "fd \<in> opens w" using assms(1) by (auto simp: world_inv_def memory_ok_def)
  then show False using assms(2) by (simp add: opens_def)
qed

lemma initialize_turn:
  fixes w w' :: "'s world"
  assumes inv: "world_inv w" and c: "clients w p = Some c" "phase c = INITIALIZE_CONNECTION"
    and run: "handle_initialize_connection p c w = Inr w'"
  shows "turn a S p w w'"
proof (rule turn_readyI [OF c(1)])
  assume r: "ready S w" "sound a S w c"
  note d = soundD [OF r(2)]
  have tc: "target_fd c = - 1" using world_client_ok [OF inv c(1)] c(2) by (simp add: client_ok_def)
  obtain n c1 w1 where co: "connection_connect c w = Inr (n, c1, w1)"
    using run by (cases "connection_connect c w") (auto simp: handle_initialize_connection_def)
  note cc = connection_connect_cases [OF co] and st = connect_stream [OF co r(1)]
  obtain t l where c1: "c1 = c\<lparr>target_fd := t, request_len := l\<rparr>" and l: "l = request_len c \<or> is_https c \<and> l = 0"
    using cc by metis
  show "\<exists>c'. consumes w w' \<and> clients w' p = Some c' \<and> (\<forall>fd \<in> opens w - owns c. sock_of w' fd = sock_of w fd) \<and>
      owns c' \<inter> (opens w - owns c) = {} \<and> sound a S w' c' \<and> carries w c w' c'"
  proof (cases "n = - 1")
    case True
    have w': "w' = put_client p (c1\<lparr>phase := CLOSING\<rparr>) w1" using run True by (simp add: handle_initialize_connection_def co)
    have s1: "sock_of w1 = sock_of w" "t = - 1" "l = request_len c" using cc True tc st(2) by (auto simp: c1)
    have "turn a S p w w'"
      unfolding w' using st(1) s1 c tc
      by (intro turn_early) (auto simp: c1 opens_def settled_def pending_down_def pending_up_def unread_def)
    then show ?thesis using r c(1) unfolding turn_def w' using st(1) by fastforce
  next
    case False
    have t: "0 \<le> t" "sock_of w t = None" "sock_of w1 t \<noteq> None" "interest w1 = interest w"
      and same: "\<forall>fd. fd \<noteq> t \<and> fd \<noteq> client_fd c \<longrightarrow> sock_of w1 fd = sock_of w fd"
      and op: "\<forall>fd. fd \<noteq> t \<longrightarrow> (sock_of w1 fd = None \<longleftrightarrow> sock_of w fd = None)"
      using cc False by (auto simp: c1)
    have tcl: "t \<noteq> client_fd c" using t(1,2) d(1) by (cases "client_fd c = - 1") (auto simp: owns_def opens_def)
    have it: "interest w t = None" by (rule unwatched [OF inv t(2)])
    obtain td w2 where td: "epoll_create_data EPOLL_FD_TARGET p w1 = (td, w2)" by fastforce
    obtain ok w3 where add: "epoll_add_fd t EPOLLOUT td w2 = (ok, w3)" by fastforce
    have s2: "sock_of w2 = sock_of w1" "interest w2 = interest w1"
      using td by (auto simp: epoll_create_data_def malloc_def Let_def fun_eq_iff split: prod.splits if_splits)
    have cs: "consumes w w2" "consumes w w3"
      using consumes_trans [OF st(1) data_consumes(1) [OF td]] consumes_trans ctl_consumes(1) [OF add] by blast+
    have ok: ok
      using add_ready [OF add] r(1) cs(1) t it s2 by (simp add: ready_def consumes_def)
    let ?c = "c\<lparr>target_fd := t, request_len := l, phase := CONNECTING\<rparr>"
    have w': "w' = put_client p ?c w3"
      using run False ok by (simp add: handle_initialize_connection_def co c1 td add Let_def)
    have s3: "sock_of w' = sock_of w1" using epoll_add_cases [OF add] s2 by (simp add: w')
    have u: "unread w' = unread w1" "sent_to w' = sent_to w1" by (simp_all add: fun_eq_iff unread_def sent_to_def s3)
    have ow: "owns ?c = insert t (owns c)" using t(1) tc by (auto simp: owns_def)
    have fr: "\<forall>fd \<in> opens w - owns c. sock_of w' fd = sock_of w fd"
    proof
      fix fd assume "fd \<in> opens w - owns c"
      then have "fd \<noteq> t" "fd \<noteq> client_fd c" using t(2) by (auto simp: owns_def opens_def)
      then show "sock_of w' fd = sock_of w fd" using same s3 by simp
    qed
    obtain s where s: "s \<in> S" "unread w1 t = rx_bytes (rx s)" "sent_to w1 t = []" "unread w1 (client_fd c) = unread w (client_fd c)"
      "\<not> is_https c \<longrightarrow> sent_to w1 (client_fd c) = sent_to w (client_fd c)"
      using st(3) [OF False] tcl unfolding c1 by auto
    have ns: "\<not> settled c" "\<not> settled ?c" using c(2) by (simp_all add: settled_def)
    have up: "\<exists>D. up_stream w c = D @ up_stream w' ?c \<and> (\<not> is_https ?c \<longrightarrow> D = [])"
      using l s(3,4) tc by (auto simp: up_stream_def u pending_up_def)
    have ca: "carries w c w' ?c" using up ns by (intro carriesI) auto
    have pd: "pending_down ?c = []" using d(6) ns by (simp add: pending_down_def)
    have "sound a S w' ?c"
    proof (rule soundI)
      have "opens w \<subseteq> opens w1"
      proof
        fix fd assume "fd \<in> opens w"
        then show "fd \<in> opens w1" using op t(3) by (cases "fd = t") (simp_all add: opens_def del: not_None_eq)
      qed
      then have "owns c \<subseteq> opens w1" using d(1) by blast
      then show "owns ?c \<subseteq> opens w'" using t(3) ow s3 by (auto simp: opens_def)
      show "from_client a w' ?c" if "\<not> expired ?c" using carried_from_client [OF d(8) ca that] that by simp
      show "\<exists>s \<in> S. unread w' (target_fd ?c) = rx_bytes (rx s)" using s(1,2) by (auto simp: u)
    qed (use tcl t(1) ns s d(7) pd in \<open>auto simp: u\<close>)
    moreover have "owns ?c \<inter> (opens w - owns c) = {}" using ow t(2) by (auto simp: opens_def)
    moreover have "clients w' p = Some ?c" by (simp add: w')
    moreover have "consumes w w'" using cs by (simp add: w')
    ultimately show ?thesis using fr ca by blast
  qed
qed

lemma register_frame:
  assumes "register_forwarding_fds p c w = Inr (b, w')"
  shows "sock_of w' = sock_of w" "clients w' = clients w" "consumes w w'"
proof -
  have cd: "sock_of w' = sock_of w" if "epoll_create_data t q w = (x, w')" for t q x and w w' :: "'a world"
    using that by (auto simp: epoll_create_data_def malloc_def Let_def fun_eq_iff split: prod.splits if_splits)
  have md: "sock_of w' = sock_of w" if "epoll_mod_fd fd ev x w = (ok, w')" for fd ev x ok and w w' :: "'a world"
    using epoll_mod_cases [OF that] by simp
  obtain x w1 where 1: "epoll_create_data EPOLL_FD_CLIENT p w = (x, w1)" by fastforce
  obtain ok w2 where 2: "epoll_mod_fd (client_fd c) (or EPOLLIN EPOLLOUT) x w1 = (ok, w2)" by fastforce
  obtain y w3 where 3: "epoll_create_data EPOLL_FD_TARGET p w2 = (y, w3)" by fastforce
  obtain ok2 w4 where 4: "epoll_mod_fd (target_fd c) (or EPOLLIN EPOLLOUT) y w3 = (ok2, w4)" by fastforce
  note cs = data_consumes(1) [OF 1] ctl_consumes(2) [OF 2] data_consumes(1) [OF 3] ctl_consumes(2) [OF 4]
  have c4: "consumes w w2" "consumes w w3" "consumes w w4" using cs consumes_trans by blast+
  show "clients w' = clients w" by (rule register_clients [OF assms])
  show "sock_of w' = sock_of w"
    using assms cd [OF 1] md [OF 2] cd [OF 3] md [OF 4]
    by (auto simp: register_forwarding_fds_def 1 2 3 4 free_edata_def fun_eq_iff split: if_splits)
  show "consumes w w'"
    using assms cs(1) c4
    by (auto simp: register_forwarding_fds_def 1 2 3 4 free_edata_def split: if_splits)
qed

lemma connecting_turn:
  fixes w w' :: "'s world"
  assumes c: "clients w p = Some c" "phase c = CONNECTING"
    and run: "handle_connecting stop p c w = Inr w'"
  shows "turn a S p w w'"
proof (rule turn_readyI [OF c(1)])
  assume r: "ready S w" "sound a S w c"
  note d = soundD [OF r(2)]
  have ns: "\<not> settled c" using c(2) by (simp add: settled_def)
  have tc: "target_fd c \<noteq> - 1" "client_fd c \<noteq> target_fd c" using d(2,3) c(2) by auto
  obtain err w1 where so: "so_error (target_fd c) w = (err, w1)" by fastforce
  have s1: "sock_of w1 = sock_of w"
    using so by (auto simp: so_error_def fun_eq_iff split: if_splits list.splits)
  have c1: "consumes w w1" by (rule socket_call_consumes(1) [OF so])
  show "\<exists>c'. consumes w w' \<and> clients w' p = Some c' \<and> (\<forall>fd \<in> opens w - owns c. sock_of w' fd = sock_of w fd) \<and>
      owns c' \<inter> (opens w - owns c) = {} \<and> sound a S w' c' \<and> carries w c w' c'"
  proof (cases "err = Some 0")
    case False
    let ?c = "c\<lparr>target_fd := - 1, phase := CLOSING\<rparr>"
    have w': "w' = put_client p ?c (close_fd (target_fd c) w1)"
      using run False by (simp add: handle_connecting_def so stop_def)
    have s': "sock_of w' = (sock_of w)(target_fd c := None)" by (simp add: w' s1)
    have st: "settled ?c" by (simp add: settled_def)
    have "up_stream w' ?c = up_stream w c"
      using tc(2) d(5) ns by (simp add: up_stream_def pending_up_def unread_def s')
    then have ca: "carries w c w' ?c" using ns by (intro carriesI) auto
    have "sound a S w' ?c"
    proof (rule soundI)
      show "owns ?c \<subseteq> opens w'" using d(1) tc(2) by (auto simp: owns_def opens_def s')
      show "from_client a w' ?c" if "\<not> expired ?c" using carried_from_client [OF d(8) ca that] that by simp
    qed (use st in simp_all)
    moreover have "\<forall>fd \<in> opens w - owns c. sock_of w' fd = sock_of w fd" using tc(1) by (auto simp: s' owns_def)
    moreover have "owns ?c \<inter> (opens w - owns c) = {}" by (auto simp: owns_def)
    moreover have "consumes w w'" "clients w' p = Some ?c" using c1 by (simp_all add: w')
    ultimately show ?thesis using ca by blast
  next
    case True
    obtain w2 l where w2: "bindR (register_forwarding_fds p (c\<lparr>request_len := l, response_len := 0, phase := FORWARDING\<rparr>)
        (put_client p (c\<lparr>request_len := l, response_len := 0, phase := FORWARDING\<rparr>) w2)) (\<lambda>(_, w). Inr w) = Inr w'"
      and l: "if is_https c then l = 0 \<and> send_https_established (client_fd c) w1 = Inr w2 else w2 = w1 \<and> l = request_len c"
    proof (cases "is_https c")
      case https: True
      then obtain w2 where "send_https_established (client_fd c) w1 = Inr w2"
        using run True by (auto simp: handle_connecting_def so bindR_eq_Inr)
      then show ?thesis using that [of 0 w2] run True https by (simp add: handle_connecting_def so Let_def)
    next
      case False
      then show ?thesis using that [of "request_len c" w1] run True by (simp add: handle_connecting_def so Let_def)
    qed
    let ?c = "c\<lparr>request_len := l, response_len := 0, phase := FORWARDING\<rparr>"
    obtain b where rg: "register_forwarding_fds p ?c (put_client p ?c w2) = Inr (b, w')" using w2 by (auto simp: bindR_eq_Inr)
    note f = register_frame [OF rg]
    have o2: "only_fd (client_fd c) w1 w2" "consumes w1 w2" "\<forall>x. unread w2 x = unread w1 x"
      using l answers_only(2) by (auto split: if_splits)
    have s': "sock_of w' = sock_of w2" using f(1) by simp
    have cl: "clients w' p = Some ?c" using f(2) by simp
    have "consumes w (put_client p ?c w2)" using consumes_trans [OF c1 o2(2)] by simp
    from consumes_trans [OF this f(3)] have cs: "consumes w w'" .
    have op: "opens w' = opens w" using o2(1) s' s1 by (auto simp: opens_def only_fd_def quiet_def)
    have so': "sock_of w' fd = sock_of w fd" if "fd \<noteq> client_fd c" for fd
      using only_fd_sock [OF o2(1) that] by (simp add: s' s1)
    have u: "unread w' fd = unread w fd" for fd using o2(3) by (simp add: unread_def s' s1)
    have se: "sent_to w' (target_fd c) = []" "\<not> is_https c \<Longrightarrow> sent_to w' (client_fd c) = []"
      using so' tc(2) d(5,7) ns l by (auto simp: sent_to_def s' s1)
    have st: "settled ?c" by (simp add: settled_def)
    have ow: "owns ?c = owns c" by (simp add: owns_def)
    have "\<exists>D. up_stream w c = D @ up_stream w' ?c \<and> (\<not> is_https ?c \<longrightarrow> D = [])"
      using l se(1) d(5) ns by (auto simp: up_stream_def u pending_up_def split: if_splits)
    then have ca: "carries w c w' ?c" using ns by (intro carriesI) auto
    have "sound a S w' ?c"
    proof (rule soundI)
      show "owns ?c \<subseteq> opens w'" using d(1) op ow by simp
      show "from_client a w' ?c" if "\<not> expired ?c" using carried_from_client [OF d(8) ca that] that by simp
      obtain s where s: "s \<in> S" "unread w (target_fd c) = rx_bytes (rx s)" using d(9) c(2) by blast
      have "down_stream w' ?c = sent_to w' (client_fd c) @ rx_bytes (rx s)" using s(2) by (simp add: down_stream_def pending_down_def u)
      then show "from_target S w' ?c" unfolding from_target_def using s(1) se(2) by (intro bexI [of _ s] exI) auto
    qed (use tc st in simp_all)
    moreover have "\<forall>fd \<in> opens w - owns c. sock_of w' fd = sock_of w fd"
      using only_client(1) [OF o2(1)] s1 s' by (simp add: opens_def)
    moreover have "owns ?c \<inter> (opens w - owns c) = {}" by (auto simp: ow)
    ultimately show ?thesis using cs cl ca by blast
  qed
qed

lemma forwarding_turn:
  fixes w w' :: "'s world"
  assumes inv: "world_inv w" and c: "clients w p = Some c" "phase c = FORWARDING"
    and run: "handle_forwarding t ev p c w = Inr w'"
  shows "turn a S p w w'"
proof (rule turn_readyI [OF c(1)])
  assume r: "ready S w" "sound a S w c"
  note d = soundD [OF r(2)]
  have ok: "bufs_ok c" using world_client_ok [OF inv c(1)] by (simp add: client_ok_def)
  have tc: "target_fd c \<noteq> - 1" "client_fd c \<noteq> target_fd c" using d(2,3) c(2) by auto
  obtain n c1 w1 where f: "connection_forward t ev c w = Inr (n, c1, w1)" and k: "dup.kept c w c1 w1"
    using connection_forward_kept [OF ok tc(2)] by blast
  have sm: "same_conn c c1" using connection_forward_ok [OF ok, of t ev w] f by (auto simp: forward_ok_def)
  note cs = forward_consumes [OF f]
  have o: "opens w1 = opens w" "\<forall>fd \<in> opens w - owns c. sock_of w1 fd = sock_of w fd"
    using k by (auto simp: dup.kept_def owns_def opens_def quiet_def)
  have st: "up_stream w1 c1 = up_stream w c" "down_stream w1 c1 = down_stream w c"
    using k by (auto simp: dup.kept_def dup.up.flow_def dup.down.flow_def up_stream_def down_stream_def)
  obtain x where x: "w' = put_client p (c1\<lparr>phase := x\<rparr>) w1" "x \<in> {FORWARDING, CLOSING}"
  proof (cases "n = 0")
    case True
    have "c1\<lparr>phase := FORWARDING\<rparr> = c1" using sm c(2) by (simp add: same_conn_def)
    then show ?thesis using that [of FORWARDING] run True by (simp add: handle_forwarding_def f)
  next
    case False
    then show ?thesis using that [of CLOSING] run by (simp add: handle_forwarding_def f)
  qed
  let ?c = "c1\<lparr>phase := x\<rparr>"
  have s': "sock_of w' = sock_of w1" by (simp add: x(1))
  have ow: "owns ?c = owns c" using sm by (simp add: owns_def same_conn_def)
  have st': "up_stream w' ?c = up_stream w c" "down_stream w' ?c = down_stream w c"
    using st by (simp_all add: up_stream_def down_stream_def pending_up_def pending_down_def sent_to_def unread_def s')
  have se: "settled c" "settled ?c" using c(2) x(2) by (auto simp: settled_def)
  have ca: "carries w c w' ?c" using st' se sm by (intro carriesI) (simp_all add: same_conn_def)
  have "sound a S w' ?c"
  proof (rule soundI)
    show "owns ?c \<subseteq> opens w'" using d(1) o(1) ow by (simp add: opens_def s')
    show "from_client a w' ?c" if "\<not> expired ?c" using carried_from_client [OF d(8) ca that] that sm by (simp add: same_conn_def)
    show "from_target S w' ?c" using d(10) c(2) st'(2) sm by (simp add: from_target_def same_conn_def)
  qed (use tc se sm x(2) in \<open>auto simp: same_conn_def\<close>)
  moreover have "\<forall>fd \<in> opens w - owns c. sock_of w' fd = sock_of w fd" using o(2) by (simp add: s')
  moreover have "owns ?c \<inter> (opens w - owns c) = {}" by (auto simp: ow)
  moreover have "consumes w w'" "clients w' p = Some ?c" using cs by (simp_all add: x(1))
  ultimately show "\<exists>c'. consumes w w' \<and> clients w' p = Some c' \<and> (\<forall>fd \<in> opens w - owns c. sock_of w' fd = sock_of w fd) \<and>
      owns c' \<inter> (opens w - owns c) = {} \<and> sound a S w' c' \<and> carries w c w' c'"
    using ca by blast
qed

lemma closing_turn:
  fixes w w' :: "'s world"
  assumes inv: "world_inv w" and c: "clients w p = Some c" "phase c = CLOSING"
    and run: "handle_closing d p c w = Inr w'"
  shows "turn a S p w w'"
proof (rule turn_readyI [OF c(1)])
  assume r: "ready S w" "sound a S w c"
  let ?c = "c\<lparr>expired := True, client_fd := - 1, target_fd := - 1\<rparr>"
  let ?w1 = "drop_fd (client_fd c) w"
  note d1 = drop_world [OF inv, where fd = "client_fd c"]
  note d2 = drop_world [OF d1(5), where fd = "target_fd c"]
  have f: "free_edata d (put_client p ?c (drop_fd (target_fd c) ?w1)) = Inr w'" using run by (simp add: handle_closing_def)
  have s': "sock_of w' = (sock_of w)(client_fd c := None, target_fd c := None)"
  proof -
    have "sock_of w' = sock_of (drop_fd (target_fd c) ?w1)"
      using f by (auto simp: free_edata_def fun_eq_iff split: if_splits)
    then show ?thesis by (simp add: d1(7) d2(7))
  qed
  have cl: "clients w' p = Some ?c" using f by (auto simp: free_edata_def split: if_splits)
  have "consumes w (put_client p ?c (drop_fd (target_fd c) ?w1))"
    using consumes_trans [OF drop_consumes drop_consumes] by simp
  from consumes_trans [OF this data_consumes(3) [OF f]] have cs: "consumes w w'" .
  have "sound a S w' ?c" using c(2) by (intro soundI) (simp_all add: owns_def settled_def)
  moreover have "\<forall>fd \<in> opens w - owns c. sock_of w' fd = sock_of w fd"
  proof
    fix fd assume "fd \<in> opens w - owns c"
    then have "fd \<noteq> - 1" "fd \<noteq> client_fd c" "fd \<noteq> target_fd c" by (auto simp: owns_def opens_def)
    then show "sock_of w' fd = sock_of w fd" by (simp add: s')
  qed
  ultimately show "\<exists>c'. consumes w w' \<and> clients w' p = Some c' \<and> (\<forall>fd \<in> opens w - owns c. sock_of w' fd = sock_of w fd) \<and>
      owns c' \<inter> (opens w - owns c) = {} \<and> sound a S w' c' \<and> carries w c w' c'"
    using cs cl by (intro exI [of _ ?c]) (simp add: owns_def)
qed

section \<open>The turn of a client as a whole\<close>

text \<open>A handler with a call: its turn is that of the part before the call and that of the call.\<close>

lemma tail_call_turn:
  assumes t: "tail_call h" and s: "\<And>again. safe_again d p P again \<Longrightarrow> safe d p w (h again)"
    and part: "\<And>w1. h stop = Inr w1 \<Longrightarrow> turn a S p w w1"
    and run: "h again = Inr w'"
    and next_turn: "\<And>w2 e. world_inv w2 \<Longrightarrow> edatas w2 d = Some e \<Longrightarrow> client_ptr e = p \<Longrightarrow> is_conn (fd_type e) \<Longrightarrow>
      again w2 = Inr w' \<Longrightarrow> turn a S p w2 w'"
  shows "turn a S p w w'"
proof -
  consider r where "\<forall>again. h again = r" | w2 where "\<forall>again. h again = again w2" "call_ok d p P w2"
    using tail_call_safe [OF t s [OF probe_safe]] by blast
  then show ?thesis
  proof cases
    case 1
    then show ?thesis using run part [of w'] by metis
  next
    case 2
    then obtain e where "world_inv w2" "edatas w2 d = Some e" "client_ptr e = p" "is_conn (fd_type e)"
      by (auto simp: call_ok_def)
    then have "turn a S p w2 w'" using next_turn run 2(1) by metis
    moreover have "turn a S p w w2" using part [of w2] 2(1) by (simp add: stop_def)
    ultimately show ?thesis by (rule turn_trans [rotated])
  qed
qed

lemma handle_client_turn:
  fixes w w' :: "'s world"
  assumes "world_inv w" and "edatas w d = Some e" and "client_ptr e = p" and "is_conn (fd_type e)"
    and "d \<noteq> 0" and "handle_client_n n my d ev w = Inr w'"
  shows "turn a S p w w'"
  using assms
proof (induction n arbitrary: w e)
  case (Suc n)
  note pr = Suc.prems(1-4)
  obtain c where c: "clients w p = Some c" and p: "p \<noteq> 0"
    using Suc.prems by (auto simp: handle_client_n.simps(2) bindR_eq_Inr deref_def split: if_splits option.splits)
  note e = handle_client_step [OF pr(2), of c, unfolded pr(3), OF c Suc.prems(5) p, of n my ev,
      unfolded Suc.prems(6), symmetric]
  have again: "turn a S p w2 w'"
    if "world_inv w2" "edatas w2 d = Some e2" "client_ptr e2 = p" "is_conn (fd_type e2)"
      "handle_client_n n my d ev w2 = Inr w'" for w2 e2
    using Suc.IH [OF that(1-4) Suc.prems(5) that(5)] .
  show ?case
  proof (cases "expired c")
    case False
    show ?thesis
    proof (cases "phase c")
      case r: READING_REQUEST
      have h: "handle_reading_request (handle_client_n n my d ev) p c w = Inr w'" using e False r by simp
      show ?thesis by (rule tail_call_turn [OF reading_tail reading_safe [OF pr c r] reading_turn [OF pr(1) c r] h again])
    next
      case r: AUTHENTICATING
      have h: "handle_authenticating my (handle_client_n n my d ev) p c w = Inr w'" using e False r by simp
      show ?thesis
        by (rule tail_call_turn [OF authenticating_tail authenticating_safe [OF pr c r] authenticating_turn [OF pr(1) c r] h again])
    next
      case r: CONNECTING
      have h: "handle_connecting (handle_client_n n my d ev) p c w = Inr w'" using e False r by simp
      show ?thesis by (rule tail_call_turn [OF connecting_tail connecting_safe [OF pr c] connecting_turn [OF c r] h again])
    next
      case r: INITIALIZE_CONNECTION
      then show ?thesis using initialize_turn [OF pr(1) c r] e False by simp
    next
      case r: FORWARDING
      then show ?thesis using forwarding_turn [OF pr(1) c r] e False by simp
    next
      case r: CLOSING
      then show ?thesis using closing_turn [OF pr(1) c r] e False by simp
    qed (use e False in simp)
  qed (use e in simp)
qed simp

end
