(* ===== verification/Streams.thy ===== *)
theory Streams
  imports Ownership History
begin

text \<open>
  The byte streams of a whole run: every event leaves the descriptors of the clients apart and
  carries the streams of each client on, so that over any run from \<open>main\<close> on what a target gets is
  what its client sent, and what a client gets is what its target sent.
\<close>

section \<open>All clients\<close>

text \<open>
  \<open>L\<close> are all connections to the proxy, of which those that are not accepted yet are left. Every client is
  sound for a connection of its own, the one with the index \<open>f p\<close>, which was accepted; no two clients
  share a descriptor, and addresses in use lie below the next one.
\<close>

definition served :: "sock option list \<Rightarrow> sock set \<Rightarrow> (nat \<Rightarrow> nat) \<Rightarrow> 's world \<Rightarrow> bool" where
  "served L S f w \<longleftrightarrow> inj_on f (dom (clients w)) \<and>
     (\<forall>p c. clients w p = Some c \<longrightarrow> p < brk w \<and> f p < length L - length (accepts w) \<and>
       (\<exists>s. L ! f p = Some s \<and> sound s S w c)) \<and>
     (\<forall>p q c e. p \<noteq> q \<longrightarrow> clients w p = Some c \<longrightarrow> clients w q = Some e \<longrightarrow> owns c \<inter> owns e = {})"

definition owned :: "sock option list \<Rightarrow> sock set \<Rightarrow> 's world \<Rightarrow> bool" where
  "owned L S w \<longleftrightarrow> ready S w \<and> 0 < brk w \<and> suffix (accepts w) L \<and> (\<forall>s. Some s \<in> set L \<longrightarrow> sent s = []) \<and>
     (\<exists>f. served L S f w)"

lemma servedD:
  assumes "served L S f w"
  shows "inj_on f (dom (clients w))" "clients w p = Some c \<Longrightarrow> p < brk w"
    "clients w p = Some c \<Longrightarrow> f p < length L - length (accepts w)"
    "clients w p = Some c \<Longrightarrow> \<exists>s. L ! f p = Some s \<and> sound s S w c"
    "clients w p = Some c \<Longrightarrow> clients w q = Some e \<Longrightarrow> p \<noteq> q \<Longrightarrow> owns c \<inter> owns e = {}"
  using assms unfolding served_def by blast+

lemma servedI:
  assumes "inj_on f (dom (clients w))" and "\<And>p c. clients w p = Some c \<Longrightarrow> p < brk w"
    and "\<And>p c. clients w p = Some c \<Longrightarrow> f p < length L - length (accepts w)"
    and "\<And>p c. clients w p = Some c \<Longrightarrow> \<exists>s. L ! f p = Some s \<and> sound s S w c"
    and "\<And>p q c e. clients w p = Some c \<Longrightarrow> clients w q = Some e \<Longrightarrow> p \<noteq> q \<Longrightarrow> owns c \<inter> owns e = {}"
  shows "served L S f w"
  using assms unfolding served_def by blast

lemma ownedE:
  assumes "owned L S w"
  obtains f where "ready S w" "0 < brk w" "suffix (accepts w) L" "\<forall>s. Some s \<in> set L \<longrightarrow> sent s = []" "served L S f w"
  using assms unfolding owned_def by blast

lemma owned_fresh: "owned L S w \<Longrightarrow> clients w (brk w) = None \<and> 0 < brk w"
  by (erule ownedE) (metis less_irrefl not_None_eq servedD(2))

text \<open>From \<open>w\<close> to \<open>w'\<close> the streams of every client that is still there are carried on; no address is used again.\<close>

definition passes :: "'s world \<Rightarrow> 's world \<Rightarrow> bool" where
  "passes w w' \<longleftrightarrow> brk w \<le> brk w' \<and> (\<forall>p < brk w. clients w p = None \<longrightarrow> clients w' p = None) \<and>
     (\<forall>p c c'. clients w p = Some c \<longrightarrow> clients w' p = Some c' \<longrightarrow> carries w c w' c')"

definition moves :: "sock option list \<Rightarrow> sock set \<Rightarrow> 's world \<Rightarrow> 's world \<Rightarrow> bool" where
  "moves L S w w' \<longleftrightarrow> (owned L S w \<longrightarrow> owned L S w' \<and> passes w w')"

lemma movesI:
  assumes con: "consumes w w'" and brk: "brk w \<le> brk w'"
    and step: "\<And>f. owned L S w \<Longrightarrow> served L S f w \<Longrightarrow>
      (\<exists>f'. served L S f' w') \<and> (\<forall>p < brk w. clients w p = None \<longrightarrow> clients w' p = None) \<and>
      (\<forall>p c c'. clients w p = Some c \<longrightarrow> clients w' p = Some c' \<longrightarrow> carries w c w' c')"
  shows "moves L S w w'"
  unfolding moves_def
proof
  assume o: "owned L S w"
  then obtain f where f: "ready S w" "0 < brk w" "suffix (accepts w) L" "\<forall>s. Some s \<in> set L \<longrightarrow> sent s = []" "served L S f w"
    by (rule ownedE)
  have "suffix (accepts w') L" using con f(3) by (auto simp: consumes_def intro: suffix_order.trans)
  then have "owned L S w'" using step [OF o f(5)] ready_consumes [OF f(1) con] f(2,4) brk by (simp add: owned_def)
  then show "owned L S w' \<and> passes w w'" using step [OF o f(5)] brk by (simp add: passes_def)
qed

lemma moves_refl [simp]: "moves L S w w"
  by (auto simp: moves_def passes_def intro: carries_same)

lemma moves_trans:
  assumes 1: "moves L S w w1" and 2: "moves L S w1 w'"
  shows "moves L S w w'"
  unfolding moves_def
proof
  assume o: "owned L S w"
  have o1: "owned L S w1" and p1: "passes w w1" using 1 o by (simp_all add: moves_def)
  have o2: "owned L S w'" and p2: "passes w1 w'" using 2 o1 by (simp_all add: moves_def)
  have "carries w c w' c'" if c: "clients w p = Some c" "clients w' p = Some c'" for p c c'
  proof (cases "clients w1 p")
    case None
    have "p < brk w" using o servedD(2) [OF _ c(1)] by (elim ownedE)
    then have "p < brk w1" using p1 by (simp add: passes_def)
    then show ?thesis using None p2 c(2) by (simp add: passes_def)
  next
    case (Some c1)
    then show ?thesis using p1 p2 c carries_trans unfolding passes_def by blast
  qed
  moreover have "clients w' p = None" if "p < brk w" "clients w p = None" for p
    using that p1 p2 by (auto simp: passes_def)
  ultimately show "owned L S w' \<and> passes w w'" using o2 p1 p2 by (auto simp: passes_def)
qed

text \<open>What is so of a client with descriptors that were not touched.\<close>

lemma served_same:
  assumes "served L S f w" and "clients w q = Some e" and "\<forall>fd \<in> owns e. sock_of w' fd = sock_of w fd"
  shows "\<exists>s. L ! f q = Some s \<and> sound s S w' e" "carries w e w' e"
  using servedD(4) [OF assms(1,2)] sound_cong [OF _ assms(3)] carries_same [OF assms(3)] by blast+

text \<open>A connection that was accepted stays so.\<close>

lemma accepted_mono: "consumes w w' \<Longrightarrow> n < length L - length (accepts w) \<Longrightarrow> n < length L - length (accepts w')"
  using suffix_length_le [of "accepts w'" "accepts w"] by (auto simp: consumes_def)

text \<open>The turn of one client, which leaves the memory of all others alone.\<close>

lemma turn_moves:
  assumes t: "\<And>a. turn a S p w w'" and oth: "\<And>q. q \<noteq> p \<Longrightarrow> clients w' q = clients w q" and b: "brk w \<le> brk w'"
    and c: "clients w p = Some c"
  shows "moves L S w w'"
proof (cases "owned L S w")
  case o: True
  then obtain f where r: "ready S w" and f: "served L S f w" by (rule ownedE)
  obtain a where a: "L ! f p = Some a" "sound a S w c" using servedD(4) [OF f c] by blast
  obtain c' where c': "ready S w'" "\<forall>fd \<in> opens w - owns c. sock_of w' fd = sock_of w fd" "clients w' p = Some c'"
    "sound a S w' c'" "carries w c w' c'" "owns c' \<inter> (opens w - owns c) = {}" "consumes w w'"
    using turnE [OF t r c a(2)] .
  have dom: "dom (clients w') = dom (clients w)" using oth c c'(3) by (auto simp: dom_def) (metis option.distinct(1))+
  have sub: "owns e \<subseteq> opens w - owns c" if e: "clients w q = Some e" "q \<noteq> p" for q e
    using servedD(4) [OF f e(1)] soundD(1) servedD(5) [OF f e(1) c e(2)] by blast
  have same: "\<forall>fd \<in> owns e. sock_of w' fd = sock_of w fd" if "clients w q = Some e" "q \<noteq> p" for q e
    using c'(2) sub [OF that] by blast
  have ap: "owns c' \<inter> owns e = {}" if "clients w q = Some e" "q \<noteq> p" for q e
    using c'(6) sub [OF that] by blast
  have "served L S f w'"
  proof (rule servedI)
    show "inj_on f (dom (clients w'))" using servedD(1) [OF f] by (simp add: dom)
    fix q x assume q: "clients w' q = Some x"
    then obtain y where y: "clients w q = Some y" using dom by auto
    show "q < brk w'" "f q < length L - length (accepts w')"
      using servedD(2,3) [OF f y] b accepted_mono [OF c'(7)] by simp_all
    show "\<exists>s. L ! f q = Some s \<and> sound s S w' x"
      using q y c'(3,4) a oth [of q] served_same(1) [OF f y same, of q] by (cases "q = p") auto
  next
    show "owns x \<inter> owns y = {}" if "clients w' q = Some x" "clients w' r = Some y" "q \<noteq> r" for q r x y
      using that c'(3) oth ap [of q x] ap [of r y] servedD(5) [OF f, of q x r y] by (cases "q = p"; cases "r = p") auto
  qed
  moreover have "carries w x w' y" if "clients w q = Some x" "clients w' q = Some y" for q x y
    using that c c'(3,5) oth [of q] carries_same [OF same, of q x] by (cases "q = p") auto
  moreover have "clients w' q = None" if "clients w q = None" for q using that dom by (metis domIff)
  ultimately show ?thesis by (intro movesI c'(7) b) blast
qed (simp add: moves_def)

text \<open>No client changes, and no descriptor that is open.\<close>

lemma moves_same:
  assumes cl: "clients w' = clients w" and fr: "\<forall>fd \<in> opens w. sock_of w' fd = sock_of w fd"
    and con: "consumes w w'" and b: "brk w \<le> brk w'"
  shows "moves L S w w'"
proof (rule movesI [OF con b])
  fix f assume f: "served L S f w"
  have same: "\<forall>fd \<in> owns e. sock_of w' fd = sock_of w fd" if "clients w q = Some e" for q e
    using servedD(4) [OF f that] soundD(1) fr by blast
  have "served L S f w'"
  proof (rule servedI; unfold cl)
    show "q < brk w'" "f q < length L - length (accepts w')" if "clients w q = Some x" for q x
      using servedD(2,3) [OF f that] b accepted_mono [OF con] by simp_all
  qed (use servedD(1,5) [OF f] served_same(1) [OF f _ same] in blast)+
  then show "(\<exists>f'. served L S f' w') \<and> (\<forall>p < brk w. clients w p = None \<longrightarrow> clients w' p = None) \<and>
      (\<forall>p c c'. clients w p = Some c \<longrightarrow> clients w' p = Some c' \<longrightarrow> carries w c w' c')"
    using carries_same [OF same] by (auto simp: cl)
qed

text \<open>The next connection arrives as a client, with a descriptor that was not open.\<close>

lemma moves_arrive:
  assumes cl: "clients w' = (clients w)(p \<mapsto> c)" "brk w \<le> p" "p < brk w'"
    and f: "\<forall>fd \<in> opens w. sock_of w' fd = sock_of w fd" and con: "consumes w w'"
    and n: "owns c \<inter> opens w = {}" and acc: "accepts w = Some s # accepts w'" and snd: "sent s = [] \<Longrightarrow> sound s S w' c"
  shows "moves L S w w'"
proof (rule movesI [OF con])
  show "brk w \<le> brk w'" using cl(2,3) by simp
  fix g assume o: "owned L S w" and g: "served L S g w"
  let ?n = "length L - length (accepts w)"
  let ?g = "g(p := ?n)"
  have suf: "suffix (accepts w) L" and sl: "\<forall>s. Some s \<in> set L \<longrightarrow> sent s = []" using o by (auto elim!: ownedE)
  obtain K where K: "L = K @ Some s # accepts w'" using suf acc by (auto simp: suffix_def)
  have len: "length L = Suc (length K + length (accepts w'))" "length (accepts w) = Suc (length (accepts w'))"
    by (simp_all add: K acc)
  have "L ! length K = Some s" "Some s \<in> set L" by (simp_all add: K)
  then have idx: "?n = length K" "L ! ?n = Some s" "length L - length (accepts w') = Suc ?n" "sent s = []"
    using sl len by simp_all
  have pn: "clients w p = None" using servedD(2) [OF g, of p] cl(2) by (cases "clients w p") auto
  have sub: "owns e \<subseteq> opens w" if "clients w q = Some e" for q e
    using servedD(4) [OF g that] soundD(1) by blast
  have same: "\<forall>fd \<in> owns e. sock_of w' fd = sock_of w fd" if "clients w q = Some e" for q e
    using sub [OF that] f by blast
  have cs': "clients w' q = Some e \<longleftrightarrow> (if q = p then e = c else clients w q = Some e)" for q e using cl(1) by auto
  have "served L S ?g w'"
  proof (rule servedI)
    have "?n \<notin> g ` dom (clients w)" using servedD(3) [OF g] by fastforce
    moreover from this have "inj_on ?g (dom (clients w))" by (rule inj_on_fun_updI [OF servedD(1) [OF g]])
    moreover have "?g ` dom (clients w) = g ` dom (clients w)" using pn by (auto intro!: image_cong)
    ultimately have "inj_on ?g (insert p (dom (clients w)))" using pn by (simp add: inj_on_insert domIff)
    then show "inj_on ?g (dom (clients w'))" by (simp add: cl(1))
    fix q x assume q: "clients w' q = Some x"
    show "q < brk w'" using q cl(2,3) servedD(2) [OF g, of q x] cs' [of q x] by (cases "q = p") auto
    show "?g q < length L - length (accepts w')"
      using q servedD(3) [OF g, of q x] cs' [of q x] idx(3) by (cases "q = p") auto
    show "\<exists>s. L ! ?g q = Some s \<and> sound s S w' x"
      using q idx(2) snd [OF idx(4)] served_same(1) [OF g _ same, of q x] cs' [of q x] by (cases "q = p") auto
  next
    show "owns x \<inter> owns y = {}" if "clients w' q = Some x" "clients w' r = Some y" "q \<noteq> r" for q r x y
      using that cs' [of q x] cs' [of r y] servedD(5) [OF g, of q x r y] sub [of q x] sub [of r y] n by (auto split: if_splits)
  qed
  moreover have "carries w x w' y" if "clients w q = Some x" "clients w' q = Some y" for q x y
    using that carries_same [OF same] pn cs' [of q y] by (auto split: if_splits)
  moreover have "clients w' q = None" if "q < brk w" "clients w q = None" for q using that cl by auto
  ultimately show "(\<exists>f'. served L S f' w') \<and> (\<forall>p < brk w. clients w p = None \<longrightarrow> clients w' p = None) \<and>
      (\<forall>p c c'. clients w p = Some c \<longrightarrow> clients w' p = Some c' \<longrightarrow> carries w c w' c')"
    by blast
qed

text \<open>A client is freed, and its descriptors are closed.\<close>

lemma moves_free:
  assumes cl: "clients w p = Some c" "clients w' = (clients w)(p := None)" and con: "consumes w w'" and b: "brk w' = brk w"
    and so: "sock_of w' = (sock_of w)(client_fd c := None, target_fd c := None)"
  shows "moves L S w w'"
proof (rule movesI [OF con])
  show "brk w \<le> brk w'" using b by simp
  fix f assume f: "served L S f w"
  have same: "\<forall>fd \<in> owns e. sock_of w' fd = sock_of w fd" if "clients w q = Some e" "q \<noteq> p" for q e
  proof
    fix fd assume "fd \<in> owns e"
    then have "fd \<notin> owns c" "fd \<noteq> - 1" using servedD(5) [OF f that(1) cl(1) that(2)] by (auto simp: owns_def)
    then show "sock_of w' fd = sock_of w fd" by (auto simp: so owns_def)
  qed
  have old: "q \<noteq> p \<and> clients w q = Some e" if "clients w' q = Some e" for q e
    using that cl(2) by (auto split: if_splits)
  have "served L S f w'"
  proof (rule servedI)
    show "inj_on f (dom (clients w'))" using servedD(1) [OF f] by (rule inj_on_subset) (auto simp: cl(2))
    show "q < brk w'" if "clients w' q = Some x" for q x using old [OF that] servedD(2) [OF f] b by simp
    show "f q < length L - length (accepts w')" if "clients w' q = Some x" for q x
      using old [OF that] servedD(3) [OF f] accepted_mono [OF con] by blast
    show "\<exists>s. L ! f q = Some s \<and> sound s S w' x" if "clients w' q = Some x" for q x
      using old [OF that] served_same(1) [OF f _ same, of q x q] by blast
    show "owns x \<inter> owns y = {}" if "clients w' q = Some x" "clients w' r = Some y" "q \<noteq> r" for q r x y
      using old [OF that(1)] old [OF that(2)] servedD(5) [OF f _ _ that(3)] by blast
  qed
  moreover have "carries w x w' y" if "clients w q = Some x" "clients w' q = Some y" for q x y
    using old [OF that(2)] that(1) carries_same [OF same, of q x] by simp
  ultimately show "(\<exists>f'. served L S f' w') \<and> (\<forall>p < brk w. clients w p = None \<longrightarrow> clients w' p = None) \<and>
      (\<forall>p c c'. clients w p = Some c \<longrightarrow> clients w' p = Some c' \<longrightarrow> carries w c w' c')"
    by (auto simp: cl(2))
qed

section \<open>Events\<close>

lemma del_frame:
  fixes w :: "'s world"
  shows "sock_of (snd (epoll_del_fd fd w)) = sock_of w" "clients (snd (epoll_del_fd fd w)) = clients w"
    "brk (snd (epoll_del_fd fd w)) = brk w"
proof -
  obtain ok w1 where e: "epoll_del_fd fd w = (ok, w1)" by fastforce
  have "os.more w1 = os.more w" using epoll_del_cases [OF e] by simp
  note m = os_more_world [OF this]
  show "sock_of (snd (epoll_del_fd fd w)) = sock_of w" "clients (snd (epoll_del_fd fd w)) = clients w"
    "brk (snd (epoll_del_fd fd w)) = brk w"
    using epoll_del_cases [OF e] m by (simp_all add: e)
qed

lemma free_client_frame:
  assumes "free_client_state p w = Inr w'" and "p \<noteq> 0"
  obtains c where "clients w p = Some c" "clients w' = (clients w)(p := None)" "brk w' = brk w" "consumes w w'"
    "sock_of w' = (sock_of w)(client_fd c := None, target_fd c := None)"
proof -
  have cls: "clients (close_fd fd st) = clients st" "brk (close_fd fd st) = brk st" for fd and st :: "'a world"
    using os_more_world [OF close_fd_keeps(1)] by blast+
  obtain c where c: "clients w p = Some c" using assms by (auto simp: free_client_state_def bindR_eq_Inr deref_def split: option.splits)
  let ?w1 = "if client_fd c \<noteq> - 1 then close_fd (client_fd c) w else w"
  let ?w2 = "if target_fd c \<noteq> - 1 then close_fd (target_fd c) (snd (epoll_del_fd (target_fd c) ?w1)) else ?w1"
  have w': "w' = ?w2\<lparr>clients := (clients ?w2)(p := None)\<rparr>" using assms c by (simp add: free_client_state_def deref_def Let_def)
  have s1: "sock_of ?w1 = (sock_of w)(client_fd c := None)" "clients ?w1 = clients w" "brk ?w1 = brk w"
    by (auto simp: cls fun_eq_iff)
  have s2: "sock_of ?w2 = (sock_of ?w1)(target_fd c := None)" "clients ?w2 = clients ?w1" "brk ?w2 = brk ?w1"
    by (auto simp: cls del_frame fun_eq_iff)
  have "sock_of w' = sock_of ?w2" by (simp add: w' fun_eq_iff)
  then have "sock_of w' = (sock_of w)(client_fd c := None, target_fd c := None)" using s1 s2 by simp
  moreover have "clients w' = (clients w)(p := None)" "brk w' = brk w" using s1 s2 by (simp_all add: w')
  ultimately show ?thesis using that c free_client_consumes [OF assms(1)] by blast
qed

lemma create_data_frame:
  assumes "epoll_create_data t q w = (d, w')"
  shows "clients w' = clients w" "brk w \<le> brk w'" "sock_of w' = sock_of w"
  using assms by (auto simp: epoll_create_data_def malloc_def Let_def fun_eq_iff split: prod.splits if_splits)

lemma create_client_frame:
  assumes "create_client_state fd w = (p, w')"
  shows "sock_of w' = sock_of w" "brk w \<le> brk w'" 
    "0 < brk w \<Longrightarrow> p = 0 \<Longrightarrow> clients w' = clients w"
    "p \<noteq> 0 \<Longrightarrow> p = brk w \<and> p < brk w' \<and> clients w' = (clients w)(p \<mapsto> new_client fd (now w))"
  using assms by (auto simp: create_client_state_def malloc_def Let_def fun_eq_iff split: prod.splits if_splits)

lemma register_client_frame:
  assumes run: "epoll_register_client fd ev w = Inr (p, w')" and b: "0 < brk w"
  shows "consumes w w'" "brk w \<le> brk w'" "\<forall>x. x \<noteq> fd \<longrightarrow> sock_of w' x = sock_of w x" 
    "p = 0 \<Longrightarrow> clients w (brk w) = None \<Longrightarrow> clients w' = clients w"
    "p \<noteq> 0 \<Longrightarrow> p = brk w \<and> p < brk w' \<and> clients w' = (clients w)(p \<mapsto> new_client fd (now w)) \<and>
      sock_of w' fd = map_option (\<lambda>s. s\<lparr>nonblocking := True\<rparr>) (sock_of w fd)"
proof -
  let ?w1 = "set_nonblocking fd w"
  note q1 = quiet_world [OF set_nonblocking_quiet [of w fd]]
  have n1: "now ?w1 = now w" using set_nonblocking_quiet [of w fd] by (simp add: quiet_def)
  obtain q w2 where cc: "create_client_state fd ?w1 = (q, w2)" by fastforce
  note c2 = create_client_frame [OF cc]
  obtain d w3 where nd: "epoll_create_data EPOLL_FD_CLIENT q w2 = (d, w3)" by fastforce
  note c3 = create_data_frame [OF nd]
  obtain ok w4 where ad: "epoll_add_fd fd ev d w3 = (ok, w4)" by fastforce
  have c4: "sock_of w4 = sock_of w3" "clients w4 = clients w3" "brk w4 = brk w3"
    using epoll_add_cases [OF ad] os_more_world [of w4 w3] by simp_all
  have s: "\<forall>x. x \<noteq> fd \<longrightarrow> sock_of w3 x = sock_of w x" "sock_of w3 fd = map_option (\<lambda>s. s\<lparr>nonblocking := True\<rparr>) (sock_of w fd)"
    "sock_of w2 = sock_of w3"
    using c2(1) c3(3) by auto
  have con: "consumes w w2" "consumes w w3" "consumes w w4"
    using data_consumes(2) [OF cc] consumes_trans [OF _ data_consumes(1) [OF nd]] consumes_trans [OF _ ctl_consumes(1) [OF ad]]
    by (metis set_nonblocking_consumes consumes_refl consumes_trans)+
  have brk: "brk w \<le> brk w2" "brk w2 \<le> brk w3" "brk w3 = brk w4" using c2(2) c3(2) c4(3) q1(3) by simp_all
  have undo: "consumes w v' \<and> brk w \<le> brk v' \<and> (\<forall>x. x \<noteq> fd \<longrightarrow> sock_of v' x = sock_of w x) \<and>
      (clients w (brk w) = None \<longrightarrow> clients v' = clients w)"
    if v: "clients v = (clients w)(q \<mapsto> new_client fd (now w))" "q = brk w" "brk w \<le> brk v"
      "\<forall>x. x \<noteq> fd \<longrightarrow> sock_of v x = sock_of w x" "consumes w v"
      and f: "clients v q = Some c" "clients v' = (clients v)(q := None)" "brk v' = brk v" "consumes v v'"
      "sock_of v' = (sock_of v)(client_fd c := None, target_fd c := None)" for v c and v' :: "'a world"
  proof -
    have c: "client_fd c = fd" "target_fd c = - 1" using v(1) f(1) by (auto simp: new_client_def)
    have "sock_of v' x = sock_of w x" if "x \<noteq> fd" for x
      using v(4) that by (cases "x = - 1") (simp_all add: f(5) c)
    moreover have "clients v' = clients w" if "clients w (brk w) = None" using that v(1,2) f(2) by auto
    ultimately show ?thesis using consumes_trans [OF v(5) f(4)] v(3) f(3) by simp
  qed
  consider "q = 0" "p = 0" "w' = close_fd fd w2" | "q \<noteq> 0" "p = 0" "free_client_state q w3 = Inr w'"
    | w5 where "q \<noteq> 0" "p = 0" "free_edata d w4 = Inr w5" "free_client_state q w5 = Inr w'" | "q \<noteq> 0" "p = q" "w' = w4"
    using run by (auto simp: epoll_register_client_def cc nd ad Let_def bindR_eq_Inr split: if_splits)
  then have "consumes w w' \<and> brk w \<le> brk w' \<and> (\<forall>x. x \<noteq> fd \<longrightarrow> sock_of w' x = sock_of w x) \<and>
    (p = 0 \<longrightarrow> clients w (brk w) = None \<longrightarrow> clients w' = clients w) \<and>
    (p \<noteq> 0 \<longrightarrow> p = brk w \<and> p < brk w' \<and> clients w' = (clients w)(p \<mapsto> new_client fd (now w)) \<and>
      sock_of w' fd = map_option (\<lambda>s. s\<lparr>nonblocking := True\<rparr>) (sock_of w fd))"
  proof cases
    case 1
    then show ?thesis using con(1) brk s c2(3) q1(2,3) b os_more_world [OF close_fd_keeps(1), of fd w2] by auto
  next
    case 2
    have q: "q = brk w" "clients w3 = (clients w)(q \<mapsto> new_client fd (now w))" using c2(4) c3(1) 2 q1(2,3) n1 by simp_all
    obtain c where f: "clients w3 q = Some c" "clients w' = (clients w3)(q := None)" "brk w' = brk w3" "consumes w3 w'"
      "sock_of w' = (sock_of w3)(client_fd c := None, target_fd c := None)"
      using free_client_frame [OF 2(3,1)] .
    have "brk w \<le> brk w3" using brk by simp
    from undo [OF q(2,1) this s(1) con(2) f] show ?thesis using 2(2) by simp
  next
    case 3
    have w5: "clients w5 = clients w3" "brk w5 = brk w3" "sock_of w5 = sock_of w3" "consumes w w5"
      using 3(3) c4 con(3) by (auto simp: free_edata_def fun_eq_iff split: if_splits)
    have q: "q = brk w" "clients w5 = (clients w)(q \<mapsto> new_client fd (now w))" using c2(4) c3(1) 3 q1(2,3) n1 w5(1) by simp_all
    obtain c where f: "clients w5 q = Some c" "clients w' = (clients w5)(q := None)" "brk w' = brk w5" "consumes w5 w'"
      "sock_of w' = (sock_of w5)(client_fd c := None, target_fd c := None)"
      using free_client_frame [OF 3(4,1)] .
    have "brk w \<le> brk w5" "\<forall>x. x \<noteq> fd \<longrightarrow> sock_of w5 x = sock_of w x" using w5 brk s(1) by simp_all
    from undo [OF q(2,1) this w5(4) f] show ?thesis using 3(2) by simp
  next
    case 4
    have "p = brk w" "p < brk w2" "clients w2 = (clients w)(p \<mapsto> new_client fd (now w))"
      using c2(4) 4 q1(2,3) n1 by simp_all
    moreover have "clients w' = clients w2" "brk w' = brk w3" "sock_of w' = sock_of w3" using 4(3) c3(1) c4 by simp_all
    ultimately show ?thesis using con(3) brk s(1,2) 4 by simp
  qed
  then show "consumes w w'" "brk w \<le> brk w'" "\<forall>x. x \<noteq> fd \<longrightarrow> sock_of w' x = sock_of w x" 
    "p = 0 \<Longrightarrow> clients w (brk w) = None \<Longrightarrow> clients w' = clients w"
    "p \<noteq> 0 \<Longrightarrow> p = brk w \<and> p < brk w' \<and> clients w' = (clients w)(p \<mapsto> new_client fd (now w)) \<and>
      sock_of w' fd = map_option (\<lambda>s. s\<lparr>nonblocking := True\<rparr>) (sock_of w fd)"
    by blast+
qed

text \<open>A client that has just been accepted.\<close>

lemma arrived_sound:
  assumes "sent s = []" and "sock_of w' fd = Some (s\<lparr>nonblocking := b\<rparr>)" and "fd \<noteq> - 1"
  shows "sound s S w' ((new_client fd t)\<lparr>slot := i\<rparr>)"
proof (rule soundI)
  let ?c = "(new_client fd t)\<lparr>slot := i\<rparr>"
  have c: "client_fd ?c = fd" "target_fd ?c = - 1" "phase ?c = READING_REQUEST" "\<not> is_https ?c"
    "pending_up ?c = []" "pending_down ?c = []"
    by (simp_all add: new_client_def pending_up_def pending_down_def)
  show "owns ?c \<subseteq> opens w'" "client_fd ?c = target_fd ?c \<Longrightarrow> client_fd ?c = - 1"
    using assms(2,3) by (auto simp: owns_def opens_def c)
  show "from_client s w' ?c" using assms(2) by (simp add: from_client_def up_stream_def c unread_def)
  show "sent_to w' (target_fd ?c) = [] \<and> pending_down ?c = [] \<and> (\<not> is_https ?c \<longrightarrow> sent_to w' (client_fd ?c) = [])"
    using assms(1,2) by (simp add: c sent_to_def)
qed (simp_all add: new_client_def)

lemma accept_frame:
  fixes w w' :: "'s world"
  assumes "accept_connection w = (r, w')"
  shows "clients w' = clients w" "brk w' = brk w" "now w' = now w" "consumes w w'"
    "r = None \<Longrightarrow> sock_of w' = sock_of w"
    "r = Some fd \<Longrightarrow> fd \<noteq> - 1 \<and> sock_of w fd = None \<and> (\<exists>s. accepts w = Some s # accepts w' \<and> sock_of w' = (sock_of w)(fd := Some s))"
proof -
  have "clients w' = clients w \<and> brk w' = brk w \<and> now w' = now w \<and> (r = None \<longrightarrow> sock_of w' = sock_of w) \<and>
    (\<forall>fd. r = Some fd \<longrightarrow> fd \<noteq> - 1 \<and> sock_of w fd = None \<and> (\<exists>s. accepts w = Some s # accepts w' \<and> sock_of w' = (sock_of w)(fd := Some s)))"
  proof (cases "\<exists>s rest. accepts w = Some s # rest")
    case False
    then have "r = None \<and> (w' = w \<or> (\<exists>a. w' = w\<lparr>accepts := a\<rparr>))"
      using assms by (auto simp: accept_connection_def split: list.splits option.splits prod.splits)
    then show ?thesis by (auto simp: fun_eq_iff)
  next
    case True
    then obtain s rest where a: "accepts w = Some s # rest" by blast
    obtain fd w1 where o: "open_fd s (w\<lparr>accepts := rest\<rparr>) = (fd, w1)" by fastforce
    have w': "w' = w1" "r = Some fd" using assms a o by (simp_all add: accept_connection_def)
    note so = sock_of_open [OF o]
    have "os.more w1 = os.more w" using so(5) by simp
    note m = os_more_world [OF this]
    have "sock_of w1 = (sock_of w)(fd := Some s)" using so(3) by (simp add: fun_eq_iff)
    moreover have "sock_of w fd = None" "fd \<noteq> - 1" using so(1,2) by auto
    ultimately show ?thesis using m so(5) a w' by auto
  qed
  then show "clients w' = clients w" "brk w' = brk w" "now w' = now w" 
    "r = None \<Longrightarrow> sock_of w' = sock_of w"
    "r = Some fd \<Longrightarrow> fd \<noteq> - 1 \<and> sock_of w fd = None \<and> (\<exists>s. accepts w = Some s # accepts w' \<and> sock_of w' = (sock_of w)(fd := Some s))"
    by blast+
  show "consumes w w'" by (rule new_fd_consumes(2) [OF assms])
qed

lemma listener_moves:
  "handle_listener_event w = Inr w' \<Longrightarrow> moves L S w w'"
proof (induction w rule: handle_listener_event.induct)
  case (1 w)
  show ?case
  proof (cases "owned L S w")
    case o: True
    have z: "clients w (brk w) = None" "0 < brk w" using owned_fresh [OF o] by simp_all
    obtain r w1 where ac: "accept_connection w = (r, w1)" by fastforce
    note a = accept_frame [OF ac]
    show ?thesis
    proof (cases r)
      case None
      then have "w' = w1" using "1.prems" by (subst (asm) handle_listener_event.simps) (simp add: ac)
      then show ?thesis using None a by (intro moves_same) auto
    next
      case (Some fd)
      obtain s where s: "fd \<noteq> - 1" "sock_of w fd = None" "accepts w = Some s # accepts w1" "sock_of w1 = (sock_of w)(fd := Some s)"
        using a(6) [OF Some] by blast
      have nf: "x \<noteq> fd" if "x \<in> opens w" for x using that s(2) by (auto simp: opens_def)
      obtain p w2 where rg: "epoll_register_client fd EPOLLIN w1 = Inr (p, w2)"
        using "1.prems" Some by (subst (asm) handle_listener_event.simps) (auto simp: ac split: sum.splits)
      have z1: "0 < brk w1" "clients w1 (brk w1) = None" using z a(1,2) by simp_all
      note g = register_client_frame [OF rg z1(1)]
      have con: "consumes w w2" by (rule consumes_trans [OF a(4) g(1)])
      have fr: "\<forall>x \<in> opens w. sock_of w2 x = sock_of w x" using g(3) s(4) nf by simp
      have br: "brk w \<le> brk w2" using g(2) a(2) by simp
      show ?thesis
      proof (cases "p = 0")
        case True
        then have "w' = w2" using "1.prems" Some by (subst (asm) handle_listener_event.simps) (simp add: ac rg)
        moreover have "clients w2 = clients w" using g(4) [OF True z1(2)] a(1) by simp
        ultimately show ?thesis using con fr br by (intro moves_same) auto
      next
        case p: False
        note g5 = g(5) [OF p, unfolded a]
        obtain j t where ad: "state_registry_add p (registry w2) = (j, t)" by fastforce
        show ?thesis
        proof (cases j)
          case None
          then have f: "free_client_state p (w2\<lparr>registry := t\<rparr>) = Inr w'"
            using "1.prems" Some p by (subst (asm) handle_listener_event.simps) (simp add: ac rg ad)
          obtain c where c: "clients (w2\<lparr>registry := t\<rparr>) p = Some c" "clients w' = (clients (w2\<lparr>registry := t\<rparr>))(p := None)"
            "brk w' = brk (w2\<lparr>registry := t\<rparr>)" "consumes (w2\<lparr>registry := t\<rparr>) w'"
            "sock_of w' = (sock_of (w2\<lparr>registry := t\<rparr>))(client_fd c := None, target_fd c := None)"
            using free_client_frame [OF f p] .
          have cf: "client_fd c = fd" "target_fd c = - 1" using c(1) g5 by (auto simp: new_client_def)
          have "sock_of w' x = sock_of w x" if "x \<in> opens w" for x
            using fr that nf [OF that] by (cases "x = - 1") (simp_all add: c(5) cf)
          moreover have "clients w' = clients w" using c(2) g5 z(1) by auto
          moreover have "consumes w (w2\<lparr>registry := t\<rparr>)" using con by simp
          ultimately show ?thesis using consumes_trans [OF _ c(4)] br c(3) by (intro moves_same) auto
        next
          case j: (Some i)
          let ?c = "(new_client fd (now w))\<lparr>slot := i\<rparr>"
          let ?w3 = "put_client p ?c (w2\<lparr>registry := t\<rparr>)"
          have d: "deref (clients w2) p = Inr (new_client fd (now w))" using g5 p by (simp add: deref_def)
          then have e: "handle_listener_event ?w3 = Inr w'"
            using "1.prems" Some p j by (subst (asm) handle_listener_event.simps) (simp add: ac rg ad)
          have "moves L S w ?w3"
          proof (rule moves_arrive)
            show "accepts w = Some s # accepts ?w3" using s(3) register_client_accepts [OF rg] by simp
            show "clients ?w3 = (clients w)(p \<mapsto> ?c)" "brk w \<le> p" "p < brk ?w3" using g5 by auto
            show "\<forall>x \<in> opens w. sock_of ?w3 x = sock_of w x" using fr by simp
            show "consumes w ?w3" using con by simp
            show "owns ?c \<inter> opens w = {}" using nf by (auto simp: owns_def new_client_def opens_def)
            have "sock_of ?w3 fd = Some (s\<lparr>nonblocking := True\<rparr>)" using g5 s(4) by simp
            then show "sound s S ?w3 ?c" if "sent s = []" by (rule arrived_sound [OF that _ s(1)])
          qed
          moreover have "moves L S ?w3 w'" by (rule "1.IH" [OF ac [symmetric] Some rg refl p ad [symmetric] j e])
          ultimately show ?thesis by (rule moves_trans)
        qed
      qed
    qed
  qed (simp add: moves_def)
qed

text \<open>The timer marks a client or frees it; it moves no byte.\<close>

lemma timeout_moves:
  assumes run: "timeout_callback p w = Inr w'"
  shows "moves L S w w'"
proof -
  obtain c where "deref (clients w) p = Inr c" using run by (auto simp: timeout_callback_def bindR_eq_Inr)
  then have p: "p \<noteq> 0" and c: "clients w p = Some c" by (auto simp: deref_def split: if_splits option.splits)
  have d: "deref (clients w) p = Inr c" using p c by (simp add: deref_def)
  consider "\<not> expired c" "now w - last_active c < 10" | "expired c"
    | "\<not> expired c" "\<not> now w - last_active c < 10" by blast
  then show ?thesis
  proof cases
    case 1
    then show ?thesis using run by (simp add: timeout_callback_def d)
  next
    case 2
    then obtain t where f: "free_client_state p (w\<lparr>registry := t\<rparr>) = Inr w'"
      using run by (auto simp: timeout_callback_def d bindR_eq_Inr)
    obtain c' where c': "clients (w\<lparr>registry := t\<rparr>) p = Some c'" "clients w' = (clients (w\<lparr>registry := t\<rparr>))(p := None)"
      "brk w' = brk (w\<lparr>registry := t\<rparr>)" "consumes (w\<lparr>registry := t\<rparr>) w'"
      "sock_of w' = (sock_of (w\<lparr>registry := t\<rparr>))(client_fd c' := None, target_fd c' := None)"
      using free_client_frame [OF f p] .
    have "consumes w (w\<lparr>registry := t\<rparr>)" by simp
    from consumes_trans [OF this c'(4)] show ?thesis
      by (intro moves_free [of w p c']) (use c' in \<open>simp_all add: fun_eq_iff\<close>)
  next
    case 3
    let ?c = "c\<lparr>expired := True\<rparr>"
    let ?w = "if client_fd c \<noteq> - 1 \<and> target_fd c \<noteq> - 1
      then snd (epoll_del_fd (target_fd c) (snd (epoll_del_fd (client_fd c) w))) else w"
    have w': "w' = put_client p ?c ?w" using run 3 by (simp add: timeout_callback_def d Let_def)
    have s': "sock_of w' = sock_of w" "clients w' = (clients w)(p \<mapsto> ?c)" "brk w' = brk w" "consumes w w'"
      by (simp_all add: w' del_frame)
    have "turn a S p w w'" for a
    proof (rule turnI [OF c s'(4)])
      show "clients w' p = Some ?c" by (simp add: s'(2))
      assume snd_c: "sound a S w c"
      note d = soundD [OF snd_c]
      have "sound a S w' ?c"
        using d s'(1)
        by (intro soundI) (simp_all add: owns_def settled_def opens_def sent_to_def pending_down_def unread_def from_target_def down_stream_def)
      moreover have "owns ?c \<inter> (opens w - owns c) = {}" by (auto simp: owns_def)
      ultimately show "(\<forall>fd \<in> opens w - owns c. sock_of w' fd = sock_of w fd) \<and>
          owns ?c \<inter> (opens w - owns c) = {} \<and> sound a S w' ?c \<and> carries w c w' ?c"
        using s'(1) by simp
    qed
    then show ?thesis by (rule turn_moves [OF _ _ _ c]) (simp_all add: s'(2,3))
  qed
qed

lemma timer_moves:
  assumes "handle_timer_event w = Inr w'"
  shows "moves L S w w'"
proof -
  obtain full w1 where t: "timer_read w = (full, w1)" by fastforce
  note q = quiet_world [OF timer_read_quiet [OF t]]
  have "sock_of w1 = sock_of w" using t by (auto simp: timer_read_def fun_eq_iff split: list.splits)
  then have m1: "moves L S w w1" using q(2,3) socket_call_consumes(2) [OF t] by (intro moves_same) auto
  show ?thesis
  proof (cases full)
    case True
    then have "for_each_slot registry timeout_callback [0..<MAX_CLIENTS] w1 = Inr w'"
      using assms by (simp add: handle_timer_event_def t state_registry_for_each_def)
    then show ?thesis
      by (rule for_each_slot_inv [where I = "moves L S w", rotated -1]) (use m1 moves_trans timeout_moves in blast)+
  qed (use assms m1 in \<open>simp add: handle_timer_event_def t\<close>)
qed

lemma event_moves_streams:
  assumes inv: "loop_inv w" and live: "ev_live w d" and run: "handle_event my (d, ev) w = Inr w'"
  shows "moves L S w w'"
proof -
  obtain e where e: "d \<noteq> 0" "edatas w d = Some e" using live by (auto simp: ev_live_def)
  note dis = handle_event_dispatch [OF e, of my ev]
  have w: "world_inv w" using inv by (simp add: loop_inv_def)
  consider "fd_type e = EPOLL_FD_LISTENER" "client_ptr e = 0" | "fd_type e = EPOLL_FD_TIMER"
    | "is_conn (fd_type e)" | "fd_type e = EPOLL_FD_LISTENER" "client_ptr e \<noteq> 0"
    by (cases "fd_type e") (auto simp: is_conn_def)
  then show ?thesis
  proof cases
    case 1
    then show ?thesis using listener_moves run dis by simp
  next
    case 2
    then show ?thesis using timer_moves run dis by simp
  next
    case 3
    then have h: "handle_client my d ev w = Inr w'" using run dis by (auto simp: is_conn_def)
    obtain c where c: "clients w (client_ptr e) = Some c" using live e 3 by (auto simp: ev_live_def)
    have "stays d (client_ptr e) w w'" using handle_client_safe [OF w e(2) 3 c e(1), of my ev] h by simp
    moreover have "turn a S (client_ptr e) w w'" for a
      using handle_client_turn [OF w e(2) refl 3 e(1)] h by (simp add: handle_client_def)
    ultimately show ?thesis by (intro turn_moves [OF _ _ _ c]) (simp_all add: stays_def)
  next
    case 4
    then show ?thesis using run dis by (simp add: is_conn_def)
  qed
qed

section \<open>Runs\<close>

interpretation st: batch "handle_event my" "\<lambda>w. loop_inv w \<and> moves L S w0 w" "\<lambda>w event. ev_live w (fst event)" fst
  "\<lambda>w event. is_timer w (fst event)" "{HeapOverflow, OutOfBounds, Killed, Exited}" for my :: "'s mysql" and L S w0
proof (unfold_locales, goal_cases)
  case (1 w event u)
  then show ?case using ev.step_bad [of w event my u] by simp
next
  case (2 w event w')
  then have "moves L S w w'" using event_moves_streams [of w "fst event" my "snd event" w'] by simp
  then show ?case using ev.step_inv [of w event my w'] 2 moves_trans by blast
next
  case (3 w event w' event')
  then show ?case using ev.step_live [of w event my w' event'] by simp
qed

lemma run_moves:
  assumes "loop_inv w" and "fair_run my ws w" and "run_loop my g ws w = Inr (True, g', w')"
  shows "loop_inv w' \<and> moves L S w w'"
  using assms
proof (induction ws arbitrary: w)
  case (Cons r ws)
  show ?case
  proof (cases r)
    case (Ready t rs)
    let ?w = "w\<lparr>now := t\<rparr>"
    have m: "moves L S w ?w" by (rule moves_same) simp_all
    have l: "loop_inv ?w" using Cons.prems(1) by (simp add: loop_inv_def world_inv_def reg_inv_def opens_def)
    have f: "fair_batch rs ?w" using Cons.prems(2) Ready by (simp add: Let_def)
    obtain w1 where w1: "run_events (handle_event my) (epoll_wait rs ?w) ?w = Inr w1" "run_loop my g ws w1 = Inr (True, g', w')"
      using Cons.prems(3) Ready by (auto simp: Let_def bindR_eq_Inr)
    have i: "world_inv ?w" using l by (simp add: loop_inv_def)
    have "\<forall>event \<in> set (epoll_wait rs ?w). ev_live ?w (fst event)"
      using f epoll_wait_live [OF i] by (auto simp: fair_batch_def)
    moreover have "distinct (map fst (epoll_wait rs ?w))"
      using f by (intro epoll_wait_distinct [OF i]) (auto simp: fair_batch_def)
    moreover have "\<forall>event \<in> set (butlast (epoll_wait rs ?w)). \<not> is_timer ?w (fst event)"
      using f by (simp add: fair_batch_def)
    ultimately have "case run_events (handle_event my) (epoll_wait rs ?w) ?w of
        Inl u \<Rightarrow> u \<in> {HeapOverflow, OutOfBounds, Killed, Exited} | Inr w' \<Rightarrow> loop_inv w' \<and> moves L S w w'"
      by (intro st.run conjI l m)
    then have "loop_inv w1 \<and> moves L S w w1" by (simp add: w1(1))
    moreover have "fair_run my ws w1" using Cons.prems(2) Ready w1(1) by (simp add: Let_def)
    ultimately show ?thesis using Cons.IH [OF _ _ w1(2)] moves_trans by blast
  qed (use Cons in \<open>auto simp: exit_with_error_def split: prod.splits\<close>)
qed simp

section \<open>The start of the program\<close>

lemma system_consumes:
  "sys_ok st = (ok, st') \<Longrightarrow> consumes st st'"
  "create_timer_fd st = (fd, st') \<Longrightarrow> consumes st st'"
  "create_server_socket n b st = (fd, st') \<Longrightarrow> consumes st st'"
proof -
  have y: "consumes st st'" if "sys_ok st = (ok, st')" for ok and st st' :: "('a, 'b) os_scheme"
    using that by (auto simp: sys_ok_def consumes_def split: list.splits)
  note y = consumes_trans [OF _ y]
  show "sys_ok st = (ok, st') \<Longrightarrow> consumes st st'" by (rule y [OF consumes_refl])
  show "create_timer_fd st = (fd, st') \<Longrightarrow> consumes st st'"
    by (auto simp: create_timer_fd_def Let_def split: prod.splits if_splits)
      (metis y consumes_refl consumes_trans open_consumes)+
  have l: "consumes st (st'\<lparr>listening := x\<rparr>) = consumes st st'" for x and st st' :: "('a, 'b) os_scheme"
    by (simp add: consumes_def)
  obtain fd0 st0 where 0: "socket st = (fd0, st0)" by fastforce
  obtain b1 st1 where 1: "sys_ok st0 = (b1, st1)" by fastforce
  obtain b2 st2 where 2: "sys_ok st1 = (b2, st2)" by fastforce
  obtain b3 st3 where 3: "sys_ok st2 = (b3, st3)" by fastforce
  note c0 = new_fd_consumes(1) [OF 0]
  note c1 = y [OF c0 1]
  note c2 = y [OF c1 2]
  note c3 = y [OF c2 3]
  show "create_server_socket n b st = (fd, st') \<Longrightarrow> consumes st st'"
    using c0 c1 c2 c3 l by (auto simp: create_server_socket_def 0 1 2 3 Let_def split: if_splits)
qed

lemma boot_consumes:
  assumes "proxy_boot my argv st w = (None, g, st', w')"
  shows "consumes w w'"
proof -
  obtain conn h n fd where "create_server_socket n BACKLOG (w\<lparr>db_conn := conn, allocs := h\<rparr>) = (fd, w')"
    using assms by (auto simp: proxy_boot_def Let_def split: prod.splits if_splits option.splits)
  note system_consumes(3) [OF this]
  moreover have "consumes w (w\<lparr>db_conn := conn, allocs := h\<rparr>)" by (simp add: consumes_def)
  ultimately show ?thesis by (rule consumes_trans [rotated])
qed

lemma loop_start_consumes:
  assumes "run_loop_start g w = Inr (True, g', w')"
  shows "consumes w w'"
proof -
  have reg: "consumes u u'" if "register_timer u = Inr (tfd, u')" for tfd and u u' :: "'a world"
  proof -
    obtain fd u1 where 1: "create_timer_fd u = (fd, u1)" by fastforce
    obtain d u2 where 2: "epoll_create_data EPOLL_FD_TIMER 0 u1 = (d, u2)" by fastforce
    obtain ok u3 where 3: "epoll_add_fd fd EPOLLIN d u2 = (ok, u3)" by fastforce
    note c1 = system_consumes(2) [OF 1]
    note c2 = consumes_trans [OF c1 data_consumes(1) [OF 2]]
    note c3 = consumes_trans [OF c2 ctl_consumes(1) [OF 3]]
    have "consumes u v" if "free_edata d u3 = Inr v" for v using consumes_trans [OF c3 data_consumes(3) [OF that]] .
    then show ?thesis using that c1 c2 c3 by (auto simp: register_timer_def 1 2 3 bindR_eq_Inr split: if_splits)
  qed
  let ?w0 = "set_nonblocking (server_sock g) w"
  obtain ok w1 where 1: "sys_ok ?w0 = (ok, w1)" by fastforce
  obtain efd w2 where 2: "open_fd plain_sock w1 = (efd, w2)" by fastforce
  obtain d w3 where 3: "epoll_create_data EPOLL_FD_LISTENER 0 w2 = (d, w3)" by fastforce
  obtain ok4 w4 where 4: "epoll_add_fd (server_sock g) EPOLLIN d w3 = (ok4, w4)" by fastforce
  have c4: "consumes w w4"
    using system_consumes(1) [OF 1] open_consumes [OF 2] data_consumes(1) [OF 3] ctl_consumes(1) [OF 4] consumes_trans
    by (metis set_nonblocking_consumes consumes_refl)
  have "\<exists>tfd. register_timer w4 = Inr (tfd, w')"
    using assms by (auto simp: run_loop_start_def 1 2 3 4 exit_with_error_def Let_def bindR_eq_Inr split: if_splits prod.splits)
  then show ?thesis using reg consumes_trans [OF c4] by blast
qed

lemma started_owned:
  assumes "fresh_process w" and "proxy_boot my argv st w = (None, g, st', w1)" and "run_loop_start g w1 = Inr (True, g1, w2)"
    and "ready S w" and "\<forall>s. Some s \<in> set (accepts w) \<longrightarrow> sent s = []"
  shows "loop_inv w2" "clients w2 = Map.empty" "owned (accepts w) S w2"
proof -
  have "booted g w1" using proxy_boot_cases [OF assms(1,2)] by simp
  then show l: "loop_inv w2" "clients w2 = Map.empty" using run_loop_starts [of g w1] assms(3) by auto
  have "0 < brk w2" using l(1) by (simp add: loop_inv_def world_inv_def memory_ok_def)
  moreover have con: "consumes w w2"
    using boot_consumes [OF assms(2)] loop_start_consumes [OF assms(3)] consumes_trans by blast
  moreover have "ready S w2" by (rule ready_consumes [OF assms(4) con])
  ultimately show "owned (accepts w) S w2" using l(2) assms(5) by (simp add: owned_def served_def consumes_def)
qed

text \<open>The sockets of a process: no call of \<open>epoll_ctl\<close> fails, and none of them has been written to.\<close>

definition calm :: "('s, 'z) os_scheme \<Rightarrow> bool" where
  "calm st \<longleftrightarrow> ctl_fails st = [] \<and> (\<forall>s. Some s \<in> set (accepts st) \<union> set (sockets st) \<longrightarrow> sent s = [])"

lemma program_owned:
  assumes "fresh_process w" and "calm w" and "proxy_boot my argv st w = (None, g, st', w1)"
    and "run_loop_start g w1 = Inr (True, g1, w2)" and "fair_run my ws w2" and "run_loop my g1 ws w2 = Inr (True, g2, w')"
  shows "loop_inv w' \<and> owned (accepts w) {s. Some s \<in> set (sockets w)} w'"
proof -
  have "ready {s. Some s \<in> set (sockets w)} w" "\<forall>s. Some s \<in> set (accepts w) \<longrightarrow> sent s = []"
    using assms(2) by (auto simp: calm_def ready_def)
  note s = started_owned [OF assms(1,3,4) this]
  show ?thesis using run_moves [OF s(1) assms(5,6)] s(3) unfolding moves_def by blast
qed

section \<open>Properties\<close>




text \<open>The run of a process whose first client sends a request for a page.\<close>

lemma login_calm: "calm login_world"
  by (auto simp: calm_def login_defs plain_sock_def)




end
