(* ===== verification/Spec2Isabelle.thy ===== *)
theory Spec2Isabelle
  imports Handlers Accounts Service Streams
begin

text \<open>
  A model of simpleProxy, an HTTP proxy with basic authentication, and of its configuration tool.
  Paths are those of the repository: \<open>src/main\<close>, \<open>src/core\<close>, \<open>src/proxy_config\<close> and \<open>include\<close>.

  \<^bold>\<open>The program.\<close> The proxy (\<open>src/main/main.c\<close>) reads its configuration file, connects to a MySQL
  database, opens a listening socket and runs one epoll loop in one thread. An event is a readable
  listener, an expiration of the timer, or an event of a client: a new client sends its request, is
  authenticated by the \<open>Proxy-Authorization\<close> header of this request (against a cache of tokens, then
  against the database), is connected to the host the request names, and then relayed in both
  directions through two buffers. Every five seconds the timer marks the clients that were idle and
  frees those it had marked before. The tool (\<open>src/proxy_config\<close>) asks for the configuration, writes
  the file, enables the service, creates or drops the table of users, and adds or removes users.

  \<^bold>\<open>The theories, and what they model.\<close>
  \<^item> \<open>Prelude\<close>: the type \<open>result\<close> for C functions that may run into undefined behaviour or end the
    process, its sequencing \<open>bindR\<close>, collections of rewrite rules.
  \<^item> \<open>CLib\<close>: the C library the program calls: strings, character classes, \<open>atoi\<close>, \<open>snprintf\<close> of
    decimals, \<open>fgets\<close>, and \<open>malloc\<close> as a list of coming outcomes.
  \<^item> \<open>Base64\<close>: \<open>base64_encode\<close> and \<open>base64_decode\<close> of \<open>src/core/util.c\<close>, in 32-bit words.
  \<^item> \<open>Hashmap\<close>: \<open>src/core/collections/hashmap.c\<close>; interface \<open>put_once_map\<close> and \<open>counted_map\<close>.
  \<^item> \<open>Database\<close>: \<open>src/core/db\<close>: texts of the statements, execution, reading of results.
  \<^item> \<open>Auth\<close>: \<open>src/main/auth.c\<close>: the token, the cache of tokens, the check against the database.
  \<^item> \<open>Os\<close>: the kernel calls: descriptors, sockets, epoll. \<open>Registry\<close>: \<open>src/main/client_registry.c\<close>,
    interface \<open>slot_table\<close>. \<open>World\<close>: \<open>src/main/client.c\<close> and \<open>src/main/epoll_util.c\<close>: the heap of
    client states and of epoll's data records. \<open>HostPort\<close>: \<open>src/main/util.c\<close>.
  \<^item> \<open>Connection\<close>: \<open>src/main/connection.c\<close>; interfaces \<open>relay\<close> and \<open>duplex\<close>. \<open>Proxy\<close>: the handlers
    of \<open>src/main/proxy.c\<close>. \<open>EventLoop\<close>: \<open>src/main/loop_handlers.c\<close>, \<open>src/main/timeout.c\<close> and
    \<open>run_loop\<close> of \<open>src/main/main.c\<close>.
  \<^item> \<open>Logger\<close>: \<open>src/core/logger.c\<close>. \<open>Config\<close>: \<open>src/core/config.c\<close>. \<open>Setup\<close>: \<open>src/proxy_config/setup.c\<close>
    and the terminal helpers of \<open>src/core/util.c\<close>. \<open>Commands\<close>: \<open>src/proxy_config/commands.c\<close>,
    \<open>src/proxy_config/proxy_config.c\<close> and the connecting part of \<open>src/core/db/db.c\<close>.
  \<^item> \<open>Signals\<close> and \<open>ProxyMain\<close>: \<open>main\<close>, its signal handler and the handler's installation.

  \<^bold>\<open>State.\<close> The state grows by record extension, so that each function takes only what it uses:
  \<open>auth_state\<close> (outcomes of \<open>malloc\<close>, the static cache, the connection, the time), \<open>os\<close> (descriptors
  and what epoll watches), \<open>world\<close> (client states, data records and the registry); and for the
  tool and the start of the proxy \<open>console\<close> (streams and logger), \<open>filing\<close> (the disk),
  \<open>terminal\<close> (keyboard, user, service manager) and \<open>process\<close> (signals). A pointer to a client or to a
  data record is a number that is never used twice, so that a use after free, a null pointer and
  an invalid free are values of the model. A buffer is the list of bytes that have been written, and
  a write behind its capacity is \<open>HeapOverflow\<close>. Fields of \<open>ClientState\<close> keep the source's names,
  but \<open>phase\<close> for \<open>state\<close>; pointers to a struct become the record and are stored back by the caller.

  \<^bold>\<open>The environment.\<close> What the network, the kernel, the disk and the allocator answer is read from
  scripts in the state, about which the theorems assume nothing unless they say so; the theorems
  quantify over them. The result of \<open>epoll_wait\<close> is an argument of \<open>run_loop\<close>: any sequence of
  times with descriptors and events, interruptions and failures; what is reported is only what is
  registered and asked for, in any order, so that a report cut off at the size of the array is
  covered. The MySQL client library is not part of the repository: it is the parameter \<open>my\<close>, a record
  of its calls over an arbitrary type of connections. The theorems on accounts name what they
  need of the server as hypotheses (\<open>answers_columns\<close> in \<open>Commands\<close>, \<open>keeps_accounts\<close> in \<open>Accounts\<close>), and a concrete server
  that keeps a list of accounts meets them.

  \<^bold>\<open>What the lemmas show.\<close>
  \<^item> Security: \<open>Auth\<close>: no request passes without a cached token or the password the database holds;
    \<open>Phases\<close>: no event connects a client without that; \<open>Cache\<close> and \<open>History\<close>: over a whole run of the
    program, every connection to a target goes back to an event at which its client's own request
    named this target, with credentials the database had confirmed within the hour before, so that
    a removed account is let through for an hour at most. What this leaves open is shown too: the user name reaches the query unescaped.
  \<^item> Memory: \<open>Invariant\<close> has the invariant of clients, data records and epoll, one lemma for each
    way it changes and one for each handler; \<open>Batch\<close> lifts it, by the interface \<open>batch\<close>, to batches
    and to the whole loop, \<open>Startup\<close> and \<open>ProxyMain\<close> start it from \<open>main\<close>. Of undefined behaviour
    three forms remain, all found to be real: the decoder and the request buffer write one
    byte too many, and rows with too few columns are read beyond their end. The process also ends by
    \<open>SIGPIPE\<close> (\<open>Killed\<close>) and by \<open>exit\<close> in an allocation of the hash map (\<open>Exited\<close>).
  \<^item> Service: \<open>Handlers\<close> on the single handlers, \<open>Service\<close> from a client's request to its relay,
    \<open>Connection\<close> on one call of the relay, which neither loses nor reorders a byte, \<open>Timer\<close> on idle clients.
  \<^item> Byte streams: \<open>Ownership\<close>: while no call of \<open>epoll_ctl\<close> fails, every descriptor belongs to one client,
    and a handler touches only those of its own client and moves its two streams on; \<open>Streams\<close>: over whole
    runs with any number of clients, what a target gets is what its client sent, and the reverse. A failing
    \<open>epoll_ctl\<close> breaks this: \<open>Handlers\<close> has the descriptor that is closed twice.
  \<^item> Data structures and formats: the hash map refines a partial map over any run with any failing
    allocations; the decoder inverts the standard's encoder except where it overflows; hosts,
    configuration files and statements are read back as they were written.
  \<^item> The tool: every command line ends with exit code 0 or 1; \<open>setup\<close> leaves a file that is read back;
    an added account can log in and a removed one cannot, unless its token is cached.

  \<^bold>\<open>Bounds.\<close> \<open>handle_client\<close> calls itself after a change of phase; the model bounds the depth by 4,
  and \<open>Phases\<close> proves that a depth of 3 is never exceeded, so that the bound changes nothing and
  \<open>StackExhausted\<close> is never returned. All other loops are functions with a proof of termination.
  \<open>fair_batch\<close> names the two conditions under which the loop is safe: no null data pointer was
  registered, and the timer's event comes last in its batch. Both can fail in the program (an
  allocation fails; the kernel chooses the order), and \<open>Batch\<close> has a run in which the second does,
  with a use of freed memory.

  \<^bold>\<open>Not modelled.\<close> The messages that the handlers inside the loop log; the mutexes, as there is one
  thread; the frees of blocks that nothing refers to afterwards (\<open>db_user_free\<close>, the queries, the rows
  of \<open>mysql_free_result\<close>), so that leaks are not seen; \<open>db_close\<close>, which releases the handle of the client
  library before the tool ends; the delay of 100 microseconds after a batch; a signal that arrives
  inside a handler, as \<open>deliver\<close> acts between two events; what a terminal shows while a password is typed;
  the unused copy of \<open>run_systemctl\<close> at the end of \<open>src/proxy_config/commands.c\<close>; the debugging
  build, but for \<open>print_client_state\<close>; prototypes in headers; the build scripts, the service files and the
  package's shell scripts.
\<close>

end
